(* ===== verification/Prelude.thy ===== *)
theory Prelude
  imports Complex_Main "HOL-Library.Word" "HOL-Library.AList"
begin

text \<open>
  The shared vocabulary of the development: fixed-width integers, Python's exceptions and
  dynamically typed values, the two effect types the models use (results that may raise, and
  state passing that may raise), ordered dictionaries, and the string operations of Python
  the sources call. The lemmas of the last sections are the automation the component theories
  rest on; \<open>res_simps\<close> collects the rules that open a sequence of raising calls,
  \<open>eff_simps\<close> those for stateful ones.
\<close>

unbundle bit_operations_syntax

named_theorems res_simps
named_theorems eff_simps

type_synonym u8 = "8 word"
type_synonym u16 = "16 word"
type_synonym u32 = "32 word"
type_synonym u64 = "64 word"
type_synonym i32 = "32 word"

section \<open>Exceptions, values and effects\<close>

text \<open>
  The exceptions the sources raise or catch. \<open>RestartSignal\<close> derives from
  \<open>BaseException\<close> and \<open>SystemExit\<close> does too, so an \<open>except Exception\<close>
  clause lets them through: \<open>is_Exception\<close> tells them apart.
\<close>

datatype exn =
    KeyError string
  | TypeError
  | ValueError
  | IndexError
  | AttributeError string
  | OSError
  | RuntimeError string
  | ImportError
  | StopIteration
  | NotImplementedError
  | OtherException string
  | SystemExit int
  | RestartSignal

definition is_Exception :: "exn \<Rightarrow> bool" where
  "is_Exception e = (case e of SystemExit _ \<Rightarrow> False | RestartSignal \<Rightarrow> False | _ \<Rightarrow> True)"

text \<open>
  The values a YAML document or a JSON text loads as, and the values of event dictionaries.
  Dictionaries keep their insertion order and are keyed by strings, as every dictionary the
  sources read is. Clock values are exact rationals. \<open>PFun\<close> is a function kept in a
  dictionary, known by its name.
\<close>

datatype pyval =
    PNone
  | PBool bool
  | PInt int
  | PFloat rat
  | PStr string
  | PList "pyval list"
  | PDict "(string \<times> pyval) list"
  | PFun string

type_synonym 'a res = "exn + 'a"
type_synonym ('s, 'a) eff = "'s \<Rightarrow> 'a res \<times> 's"
type_synonym 'v pydict = "(string \<times> 'v) list"

definition bindR :: "'a res \<Rightarrow> ('a \<Rightarrow> 'b res) \<Rightarrow> 'b res" where
  "bindR r f = (case r of Inl e \<Rightarrow> Inl e | Inr x \<Rightarrow> f x)"

fun mapR :: "('a \<Rightarrow> 'b res) \<Rightarrow> 'a list \<Rightarrow> 'b list res" where
  "mapR f [] = Inr []"
| "mapR f (x # xs) = bindR (f x) (\<lambda>y. bindR (mapR f xs) (\<lambda>ys. Inr (y # ys)))"

definition retE :: "'a \<Rightarrow> ('s, 'a) eff" where
  "retE x s = (Inr x, s)"

definition raiseE :: "exn \<Rightarrow> ('s, 'a) eff" where
  "raiseE e s = (Inl e, s)"

definition liftR :: "'a res \<Rightarrow> ('s, 'a) eff" where
  "liftR r s = (r, s)"

definition bindE :: "('s, 'a) eff \<Rightarrow> ('a \<Rightarrow> ('s, 'b) eff) \<Rightarrow> ('s, 'b) eff" where
  "bindE m f s = (case m s of (Inl e, s') \<Rightarrow> (Inl e, s') | (Inr x, s') \<Rightarrow> f x s')"

fun forE :: "'a list \<Rightarrow> ('a \<Rightarrow> ('s, unit) eff) \<Rightarrow> ('s, unit) eff" where
  "forE [] f = retE ()"
| "forE (x # xs) f = bindE (f x) (\<lambda>_. forE xs f)"

text \<open>
  An iteration order of a Python set, given the elements in some order: it visits every element
  and none twice.
\<close>

definition set_order :: "('a list \<Rightarrow> 'a list) \<Rightarrow> bool" where
  "set_order ord = (\<forall>xs. set (ord xs) = set xs \<and> (distinct xs \<longrightarrow> distinct (ord xs)))"

section \<open>Dynamically typed operations\<close>

definition truthy :: "pyval \<Rightarrow> bool" where
  "truthy v = (case v of PNone \<Rightarrow> False | PBool b \<Rightarrow> b | PInt i \<Rightarrow> i \<noteq> 0 | PFloat q \<Rightarrow> q \<noteq> 0
     | PStr s \<Rightarrow> s \<noteq> [] | PList xs \<Rightarrow> xs \<noteq> [] | PDict d \<Rightarrow> d \<noteq> []
     | PFun _ \<Rightarrow> True)"

text \<open>\<open>v[k]\<close> with a string key: only a dictionary can be indexed so.\<close>

definition py_index :: "pyval \<Rightarrow> string \<Rightarrow> pyval res" where
  "py_index v k = (case v of
       PDict d \<Rightarrow> (case map_of d k of None \<Rightarrow> Inl (KeyError k) | Some x \<Rightarrow> Inr x)
     | _ \<Rightarrow> Inl TypeError)"

text \<open>\<open>v.get(k, default)\<close>: only dictionaries have that method.\<close>

definition py_get :: "pyval \<Rightarrow> string \<Rightarrow> pyval \<Rightarrow> pyval res" where
  "py_get v k dflt = (case v of
       PDict d \<Rightarrow> Inr (case map_of d k of None \<Rightarrow> dflt | Some x \<Rightarrow> x)
     | _ \<Rightarrow> Inl (AttributeError ''get''))"

text \<open>
  Iteration with \<open>for x in v\<close>: the elements of a list, the one-character strings of a
  string, the keys of a dictionary.
\<close>

definition py_iter :: "pyval \<Rightarrow> pyval list res" where
  "py_iter v = (case v of PList xs \<Rightarrow> Inr xs | PStr s \<Rightarrow> Inr (map (\<lambda>c. PStr [c]) s)
     | PDict d \<Rightarrow> Inr (map (\<lambda>kv. PStr (fst kv)) d) | _ \<Rightarrow> Inl TypeError)"

definition as_str :: "pyval \<Rightarrow> string res" where
  "as_str v = (case v of PStr s \<Rightarrow> Inr s | _ \<Rightarrow> Inl TypeError)"

text \<open>\<open>range(a, b)\<close>.\<close>

definition py_range :: "int \<Rightarrow> int \<Rightarrow> int list" where
  "py_range a b = [a..b - 1]"

section \<open>Strings\<close>

definition py_space :: "char \<Rightarrow> bool" where
  "py_space c = (of_char c \<in> {9, 10, 11, 12, 13, 28, 29, 30, 31, 32, 133, 160 :: nat})"

definition c_space :: "char \<Rightarrow> bool" where
  "c_space c = (of_char c \<in> {9, 10, 11, 12, 13, 32 :: nat})"

definition py_strip :: "string \<Rightarrow> string" where
  "py_strip s = rev (dropWhile py_space (rev (dropWhile py_space s)))"

definition startswith :: "string \<Rightarrow> string \<Rightarrow> bool" where
  "startswith s p = (take (length p) s = p)"

definition endswith :: "string \<Rightarrow> string \<Rightarrow> bool" where
  "endswith s p = startswith (rev s) (rev p)"

fun split_on :: "char \<Rightarrow> string \<Rightarrow> string list" where
  "split_on c [] = [[]]"
| "split_on c (x # xs) =
     (if x = c then [] # split_on c xs
      else (case split_on c xs of [] \<Rightarrow> [[x]] | w # ws \<Rightarrow> (x # w) # ws))"

definition split_once :: "char \<Rightarrow> string \<Rightarrow> string list" where
  "split_once c s = (case dropWhile (\<lambda>x. x \<noteq> c) s of
     [] \<Rightarrow> [s] | _ # rest \<Rightarrow> [takeWhile (\<lambda>x. x \<noteq> c) s, rest])"

fun split_ws_aux :: "string \<Rightarrow> string \<Rightarrow> string list" where
  "split_ws_aux acc [] = (if acc = [] then [] else [rev acc])"
| "split_ws_aux acc (c # cs) =
     (if py_space c then (if acc = [] then split_ws_aux [] cs else rev acc # split_ws_aux [] cs)
      else split_ws_aux (c # acc) cs)"

definition split_ws :: "string \<Rightarrow> string list" where
  "split_ws s = split_ws_aux [] s"

fun join :: "string \<Rightarrow> string list \<Rightarrow> string" where
  "join sep [] = []"
| "join sep [x] = x"
| "join sep (x # y # zs) = x @ sep @ join sep (y # zs)"

definition is_digit :: "char \<Rightarrow> bool" where
  "is_digit c = (48 \<le> (of_char c :: nat) \<and> (of_char c :: nat) \<le> 57)"

definition digit_val :: "char \<Rightarrow> nat" where
  "digit_val c = of_char c - 48"

definition nat_of_digits :: "string \<Rightarrow> nat" where
  "nat_of_digits ds = foldl (\<lambda>a c. a * 10 + digit_val c) 0 ds"

fun show_nat :: "nat \<Rightarrow> string" where
  "show_nat n = (if n < 10 then [char_of (48 + n)]
                 else show_nat (n div 10) @ [char_of (48 + n mod 10)])"

declare show_nat.simps [simp del]

definition show_int :: "int \<Rightarrow> string" where
  "show_int i = (if i < 0 then CHR ''-'' # show_nat (nat (- i)) else show_nat (nat i))"

text \<open>
  \<open>int(s)\<close> on a string: surrounding white space, an optional sign, then decimal digits
  in which single underscores may separate digits.
\<close>

fun digits_sep :: "string \<Rightarrow> string option" where
  "digits_sep [] = None"
| "digits_sep [c] = (if is_digit c then Some [c] else None)"
| "digits_sep (c # d # cs) =
     (if \<not> is_digit c then None
      else if d = CHR ''_'' then map_option ((#) c) (digits_sep cs)
      else map_option ((#) c) (digits_sep (d # cs)))"

definition int_of_str :: "string \<Rightarrow> int res" where
  "int_of_str s = (case py_strip s of
       [] \<Rightarrow> Inl ValueError
     | c # cs \<Rightarrow>
        (let (neg, body) = (if c = CHR ''-'' then (True, cs)
                            else if c = CHR ''+'' then (False, cs) else (False, c # cs))
         in case digits_sep body of None \<Rightarrow> Inl ValueError
            | Some ds \<Rightarrow> Inr (if neg then - int (nat_of_digits ds) else int (nat_of_digits ds))))"

text \<open>\<open>int(v)\<close> on any value: a float is truncated towards zero.\<close>

definition py_int :: "pyval \<Rightarrow> int res" where
  "py_int v = (case v of PInt i \<Rightarrow> Inr i | PBool b \<Rightarrow> Inr (if b then 1 else 0)
     | PFloat q \<Rightarrow> Inr (if q < 0 then - \<lfloor>- q\<rfloor> else \<lfloor>q\<rfloor>)
     | PStr s \<Rightarrow> int_of_str s | _ \<Rightarrow> Inl TypeError)"

section \<open>Rules for the effects\<close>

lemma bindR_simps [simp]:
  "bindR (Inl e) f = Inl e"
  "bindR (Inr x) f = f x"
  by (simp_all add: bindR_def)

lemma bindR_Inr [res_simps]: "(bindR r f = Inr y) = (\<exists>x. r = Inr x \<and> f x = Inr y)"
  by (cases r) auto

lemma bindR_Inl [res_simps]:
  "(bindR r f = Inl e) = (r = Inl e \<or> (\<exists>x. r = Inr x \<and> f x = Inl e))"
  by (cases r) auto

lemma as_str_Inr [res_simps]: "(as_str v = Inr s) = (v = PStr s)"
  by (cases v) (auto simp: as_str_def)

lemma mapR_Inr_length: "mapR f xs = Inr ys \<Longrightarrow> length ys = length xs"
  by (induction xs arbitrary: ys) (auto simp: res_simps)

lemma mapR_Inr_iff: "(mapR f xs = Inr ys) = list_all2 (\<lambda>x y. f x = Inr y) xs ys"
  by (induction xs arbitrary: ys) (auto simp: res_simps list_all2_Cons1)

lemma mapR_Inr_mem: "mapR f xs = Inr ys \<Longrightarrow> y \<in> set ys \<Longrightarrow> \<exists>x \<in> set xs. f x = Inr y"
  by (induction xs arbitrary: ys) (auto simp: res_simps)

lemma mapR_total: "(\<And>x. x \<in> set xs \<Longrightarrow> f x = Inr (g x)) \<Longrightarrow> mapR f xs = Inr (map g xs)"
  by (induction xs) auto

lemma mapR_exists: "(\<And>x. x \<in> set xs \<Longrightarrow> \<exists>y. f x = Inr y) \<Longrightarrow> \<exists>ys. mapR f xs = Inr ys"
proof (induction xs)
  case (Cons x xs)
  obtain y where "f x = Inr y" using Cons.prems [of x] by auto
  moreover obtain ys where "mapR f xs = Inr ys" using Cons by auto
  ultimately show ?case by simp
qed simp

lemma retE_simp [simp]: "retE x s = (Inr x, s)"
  and raiseE_simp [simp]: "raiseE e s = (Inl e, s)"
  and liftR_simp [simp]: "liftR r s = (r, s)"
  by (simp_all add: retE_def raiseE_def liftR_def)

lemma bindE_Inr [eff_simps]:
  "(bindE m f s = (Inr y, s'')) = (\<exists>x s'. m s = (Inr x, s') \<and> f x s' = (Inr y, s''))"
  by (auto simp: bindE_def split: prod.splits sum.splits)

lemma bindE_Inl [eff_simps]:
  "(bindE m f s = (Inl e, s'')) =
     (m s = (Inl e, s'') \<or> (\<exists>x s'. m s = (Inr x, s') \<and> f x s' = (Inl e, s'')))"
  by (auto simp: bindE_def split: prod.splits sum.splits)

lemma bindE_step: "m s = (Inr x, s') \<Longrightarrow> bindE m f s = f x s'"
  by (simp add: bindE_def)

text \<open>
  The invariant rule of \<open>forE\<close>: what every body keeps, on success and when it raises,
  the loop keeps.
\<close>

lemma forE_preserves:
  assumes "\<And>x s r s'. x \<in> set xs \<Longrightarrow> P s \<Longrightarrow> f x s = (r, s') \<Longrightarrow> P s'"
    and "P s" and "forE xs f s = (r, s')"
  shows "P s'"
  using assms
proof (induction xs arbitrary: s)
  case Nil
  then show ?case by simp
next
  case (Cons x xs)
  obtain r1 s1 where m: "f x s = (r1, s1)" by (cases "f x s")
  have p1: "P s1" using Cons.prems(1)[of x s r1 s1] Cons.prems(2) m by simp
  show ?case
  proof (cases r1)
    case (Inl e)
    with m Cons.prems(3) p1 show ?thesis by (simp add: bindE_def)
  next
    case (Inr u)
    with m Cons.prems(3) have "forE xs f s1 = (r, s')" by (simp add: bindE_def)
    with p1 show ?thesis using Cons.prems(1) by (intro Cons.IH[of s1]) auto
  qed
qed

lemma forE_map: "forE (map g xs) f = forE xs (\<lambda>x. f (g x))"
  by (induction xs) simp_all

lemma set_order_set [simp]: "set_order ord \<Longrightarrow> set (ord xs) = set xs"
  and set_order_distinct [simp]: "set_order ord \<Longrightarrow> distinct xs \<Longrightarrow> distinct (ord xs)"
  and set_order_id [simp]: "set_order (\<lambda>xs. xs)"
  by (simp_all add: set_order_def)

lemma set_order_Nil [simp]: "set_order ord \<Longrightarrow> ord [] = []"
  by (metis list.set(1) set_empty set_order_set)

lemma dropWhile_mem: "c \<in> set xs \<Longrightarrow> \<not> P c \<Longrightarrow> c \<in> set (dropWhile P xs)"
  by (induction xs) auto

lemma map_of_const: "map_of (map (\<lambda>x. (g x, c)) xs) k = (if k \<in> g ` set xs then Some c else None)"
  by (induction xs) auto

section \<open>Decimal notation\<close>

lemma of_char_digit: "n < 10 \<Longrightarrow> (of_char (char_of (48 + n) :: char) :: nat) = 48 + n"
  by simp

lemma digit_char [simp]:
  "n < 10 \<Longrightarrow> is_digit (char_of (48 + n))"
  "n < 10 \<Longrightarrow> digit_val (char_of (48 + n)) = n"
  by (simp_all add: is_digit_def digit_val_def)

lemma nat_of_digits_append [simp]:
  "nat_of_digits (ds @ [c]) = nat_of_digits ds * 10 + digit_val c"
  by (simp add: nat_of_digits_def)

lemma nat_of_digits_show [simp]: "nat_of_digits (show_nat n) = n"
proof (induction n rule: show_nat.induct)
  case (1 n)
  show ?case
  proof (cases "n < 10")
    case True
    then show ?thesis by (subst show_nat.simps) (simp add: nat_of_digits_def)
  next
    case False
    with 1 show ?thesis by (subst show_nat.simps) simp
  qed
qed

lemma show_nat_not_Nil [simp]: "show_nat n \<noteq> []"
  by (subst show_nat.simps) simp

lemma show_nat_digits: "\<forall>c \<in> set (show_nat n). is_digit c"
proof (induction n rule: show_nat.induct)
  case (1 n)
  then show ?case by (subst show_nat.simps) auto
qed

lemma show_nat_hd: "0 < n \<Longrightarrow> hd (show_nat n) \<noteq> CHR ''0''"
proof (induction n rule: show_nat.induct)
  case (1 n)
  show ?case
  proof (cases "n < 10")
    case True
    have "char_of (48 + n) \<noteq> CHR ''0''"
    proof
      assume "char_of (48 + n) = CHR ''0''"
      then have "digit_val (char_of (48 + n)) = digit_val (CHR ''0'')" by simp
      with True 1(2) show False by (simp add: digit_val_def)
    qed
    with True show ?thesis by (subst show_nat.simps) simp
  next
    case False
    with 1 show ?thesis by (subst show_nat.simps) (simp add: hd_append)
  qed
qed

lemma show_nat_0 [simp]: "show_nat 0 = ''0''"
  by (subst show_nat.simps) (simp add: char_of_def bit_Suc bit_0)

lemma digits_sep_digits: "ds \<noteq> [] \<Longrightarrow> \<forall>c \<in> set ds. is_digit c \<Longrightarrow> digits_sep ds = Some ds"
proof (induction ds rule: digits_sep.induct)
  case (3 c d cs)
  moreover have "\<not> is_digit (CHR ''_'')" by (simp add: is_digit_def)
  ultimately show ?case by auto
qed simp_all

lemma digit_not_space: "is_digit c \<Longrightarrow> \<not> py_space c"
  by (auto simp: is_digit_def py_space_def)

lemma py_strip_id:
  "s = [] \<or> (\<not> py_space (hd s) \<and> \<not> py_space (last s)) \<Longrightarrow> py_strip s = s"
proof -
  assume h: "s = [] \<or> (\<not> py_space (hd s) \<and> \<not> py_space (last s))"
  then have "dropWhile py_space s = s" "dropWhile py_space (rev s) = rev s"
    by (auto simp: dropWhile_eq_self_iff hd_rev)
  then show ?thesis by (simp add: py_strip_def)
qed

lemma int_of_str_digits:
  assumes "ds \<noteq> []" and "\<forall>c \<in> set ds. is_digit c"
  shows "int_of_str ds = Inr (int (nat_of_digits ds))"
proof -
  obtain c cs where ds: "ds = c # cs" using assms(1) by (cases ds) auto
  have "py_strip ds = ds" using assms digit_not_space by (intro py_strip_id) simp
  moreover have "c \<noteq> CHR ''-''" "c \<noteq> CHR ''+''" using assms(2) by (auto simp: ds is_digit_def)
  ultimately show ?thesis
    using digits_sep_digits [OF assms] by (simp add: int_of_str_def ds)
qed

lemma int_of_str_show: "int_of_str (show_nat n) = Inr (int n)"
  using int_of_str_digits [of "show_nat n"] show_nat_digits by simp

lemma int_of_str_show_int: "int_of_str (show_int i) = Inr i"
proof (cases "i < 0")
  case True
  let ?n = "show_nat (nat (- i))"
  have "last ?n \<in> set ?n" by simp
  then have "\<not> py_space (last ?n)" using show_nat_digits [of "nat (- i)"] digit_not_space by blast
  then have "py_strip (CHR ''-'' # ?n) = CHR ''-'' # ?n" by (intro py_strip_id) (simp add: py_space_def)
  with True digits_sep_digits [OF show_nat_not_Nil show_nat_digits] show ?thesis
    by (simp add: show_int_def int_of_str_def)
qed (simp add: show_int_def int_of_str_show)

section \<open>Splitting and joining\<close>

lemma split_on_not_Nil [simp]: "split_on c s \<noteq> []"
  by (induction s) (auto split: list.splits)

lemma join_split_on: "join [c] (split_on c s) = s"
proof (induction s)
  case Nil
  then show ?case by simp
next
  case (Cons x xs)
  obtain w ws where "split_on c xs = w # ws" by (cases "split_on c xs") auto
  with Cons show ?case by (cases ws) auto
qed

lemma split_on_word: "c \<notin> set w \<Longrightarrow> split_on c (w @ c # s) = w # split_on c s"
  by (induction w) auto

lemma split_on_last: "c \<notin> set w \<Longrightarrow> split_on c w = [w]"
  by (induction w) auto

lemma split_on_join:
  "ws \<noteq> [] \<Longrightarrow> \<forall>w \<in> set ws. c \<notin> set w \<Longrightarrow> split_on c (join [c] ws) = ws"
proof (induction ws)
  case Nil
  then show ?case by simp
next
  case (Cons w ws)
  then show ?case by (cases ws) (simp_all add: split_on_word split_on_last)
qed

lemma split_on_single: "(split_on c s = [w]) = (s = w \<and> c \<notin> set s)"
proof
  assume h: "split_on c s = [w]"
  then have "s = w" using join_split_on [of c s] by simp
  moreover have "c \<notin> set s"
  proof
    assume "c \<in> set s"
    then obtain u v where "s = u @ c # v" "c \<notin> set u" by (meson split_list_first)
    with h show False by (simp add: split_on_word)
  qed
  ultimately show "s = w \<and> c \<notin> set s" by simp
qed (auto simp: split_on_last)

end
