(* ===== verification/Net_Utils.thy ===== *)
theory Net_Utils
  imports Prelude
begin

text \<open>
  The address arithmetic of \<^verbatim>\<open>pidtree_bcc/utils.py\<close>: \<open>ip_to_int\<close>,
  \<open>int_to_ip\<close>, \<open>netmask_to_prefixlen\<close> and \<open>round_nearest_multiple\<close>, with
  the parts of the standard library they call (\<^verbatim>\<open>socket.inet_aton\<close> and
  \<^verbatim>\<open>inet_ntoa\<close>, \<^verbatim>\<open>struct\<close> with the formats \<open>=L\<close> and \<open><L\<close>, and the
  netmask parser of \<^verbatim>\<open>ipaddress\<close>). The host byte order is an argument, since
  \<open>=L\<close> is the native order while \<open><L\<close> is always little endian.
\<close>

section \<open>Bytes and integers\<close>

datatype byteorder = LittleEndian | BigEndian

fun le_int :: "u8 list \<Rightarrow> int" where
  "le_int [] = 0"
| "le_int (b # bs) = uint b + 256 * le_int bs"

definition be_int :: "u8 list \<Rightarrow> int" where
  "be_int bs = le_int (rev bs)"

definition le_bytes :: "int \<Rightarrow> u8 list" where
  "le_bytes n = map (\<lambda>i. of_int (drop_bit (8 * i) n)) [0, 1, 2, 3]"

text \<open>\<^verbatim>\<open>struct.unpack('=L', b)\<close>: four bytes, native order, standard size.\<close>

definition unpack_native :: "byteorder \<Rightarrow> u8 list \<Rightarrow> int" where
  "unpack_native bo bs = (case bo of LittleEndian \<Rightarrow> le_int bs | BigEndian \<Rightarrow> be_int bs)"

text \<open>The four bytes in memory of an unsigned 32-bit integer of the host.\<close>

definition mem_bytes :: "byteorder \<Rightarrow> int \<Rightarrow> u8 list" where
  "mem_bytes bo n = (case bo of LittleEndian \<Rightarrow> le_bytes n | BigEndian \<Rightarrow> rev (le_bytes n))"

text \<open>The bit of a byte string at position \<open>i\<close>, most significant bit of each byte first.\<close>

definition msb_bit :: "u8 list \<Rightarrow> nat \<Rightarrow> bool" where
  "msb_bit bs i = bit (bs ! (i div 8)) (7 - i mod 8)"

text \<open>\<^verbatim>\<open>struct.pack('<L', n)\<close>: raises when \<open>n\<close> does not fit four bytes.\<close>

definition pack_le :: "int \<Rightarrow> u8 list res" where
  "pack_le n = (if 0 \<le> n \<and> n < 2 ^ 32 then Inr (le_bytes n) else Inl (OtherException ''struct.error''))"

section \<open>Dotted addresses\<close>

definition is_oct :: "char \<Rightarrow> bool" where
  "is_oct c = (is_digit c \<and> digit_val c < 8)"

definition is_hex :: "char \<Rightarrow> bool" where
  "is_hex c = (is_digit c \<or> (of_char c :: nat) \<in> {65..70} \<or> (of_char c :: nat) \<in> {97..102})"

definition hex_val :: "char \<Rightarrow> nat" where
  "hex_val c = (if is_digit c then digit_val c
     else if (of_char c :: nat) \<le> 70 then of_char c - 55 else of_char c - 87)"

definition digits_value :: "nat \<Rightarrow> (char \<Rightarrow> nat) \<Rightarrow> string \<Rightarrow> nat" where
  "digits_value base val ds = foldl (\<lambda>a c. a * base + val c) 0 ds"

text \<open>
  \<^verbatim>\<open>strtoul(s, &end, 0)\<close> on a string that starts with a digit: hexadecimal after
  \<open>0x\<close>, octal after \<open>0\<close>, else decimal; the value and what follows the number.
\<close>

definition strtoul :: "string \<Rightarrow> nat \<times> string" where
  "strtoul s = (case s of
       c # x # h # rest \<Rightarrow>
         if c = CHR ''0'' \<and> (x = CHR ''x'' \<or> x = CHR ''X'') \<and> is_hex h
         then (digits_value 16 hex_val (takeWhile is_hex (h # rest)), dropWhile is_hex (h # rest))
         else if c = CHR ''0''
         then (digits_value 8 digit_val (takeWhile is_oct s), dropWhile is_oct s)
         else (digits_value 10 digit_val (takeWhile is_digit s), dropWhile is_digit s)
     | c # _ \<Rightarrow>
         if c = CHR ''0''
         then (digits_value 8 digit_val (takeWhile is_oct s), dropWhile is_oct s)
         else (digits_value 10 digit_val (takeWhile is_digit s), dropWhile is_digit s)
     | [] \<Rightarrow> (0, []))"

text \<open>
  \<^verbatim>\<open>inet_aton\<close> with \<open>k\<close> further dots allowed: every part but the last is one
  byte, the last fills the bytes that remain, and white space ends the address.
\<close>

definition last_part :: "nat \<Rightarrow> nat \<Rightarrow> u8 list" where
  "last_part k v = rev (take (Suc k) (le_bytes (int v)))"

fun inet_aton_parts :: "nat \<Rightarrow> string \<Rightarrow> u8 list res" where
  "inet_aton_parts k s =
     (if s = [] \<or> \<not> is_digit (hd s) then Inl OSError
      else let (v, rest) = strtoul s
        in (case rest of
              [] \<Rightarrow> if v < 256 ^ Suc k then Inr (last_part k v) else Inl OSError
            | c # cs \<Rightarrow>
                if c = CHR ''.'' then
                  (case k of 0 \<Rightarrow> Inl OSError
                   | Suc k' \<Rightarrow> if v < 256
                       then bindR (inet_aton_parts k' cs) (\<lambda>bs. Inr (of_nat v # bs))
                       else Inl OSError)
                else if c_space c \<and> v < 256 ^ Suc k then Inr (last_part k v)
                else Inl OSError))"

declare inet_aton_parts.simps [simp del]

definition inet_aton :: "string \<Rightarrow> u8 list res" where
  "inet_aton s = (if CHR 0x00 \<in> set s then Inl ValueError else inet_aton_parts 3 s)"

definition inet_ntoa :: "u8 list \<Rightarrow> string" where
  "inet_ntoa bs = join ''.'' (map (\<lambda>b. show_nat (unat b)) bs)"

definition ip_to_int :: "byteorder \<Rightarrow> string \<Rightarrow> int res" where
  "ip_to_int bo network = bindR (inet_aton network) (\<lambda>bs. Inr (unpack_native bo bs))"

definition int_to_ip :: "int \<Rightarrow> string res" where
  "int_to_ip encoded_ip = bindR (pack_le encoded_ip) (\<lambda>bs. Inr (inet_ntoa bs))"

section \<open>Netmasks\<close>

text \<open>
  \<^verbatim>\<open>ipaddress\<close>: one octet is one to three decimal digits without leading zeros, at
  most 255.
\<close>

definition parse_octet :: "string \<Rightarrow> u8 res" where
  "parse_octet s =
     (if s = [] \<or> \<not> list_all is_digit s \<or> 3 < length s then Inl ValueError
      else if s \<noteq> ''0'' \<and> hd s = CHR ''0'' then Inl ValueError
      else if 255 < nat_of_digits s then Inl ValueError
      else Inr (of_nat (nat_of_digits s)))"

definition ip_int_from_string :: "string \<Rightarrow> int res" where
  "ip_int_from_string s =
     (if length (split_on (CHR ''.'') s) \<noteq> 4 then Inl ValueError
      else bindR (mapR parse_octet (split_on (CHR ''.'') s)) (\<lambda>bs. Inr (be_int bs)))"

text \<open>The number of low zero bits of \<open>n\<close>, counting at most \<open>bits\<close> of them.\<close>

fun count_righthand_zero_bits :: "int \<Rightarrow> nat \<Rightarrow> nat" where
  "count_righthand_zero_bits n 0 = 0"
| "count_righthand_zero_bits n (Suc bits) =
     (if odd n then 0 else Suc (count_righthand_zero_bits (n div 2) bits))"

definition prefix_from_ip_int :: "int \<Rightarrow> nat res" where
  "prefix_from_ip_int n =
     (let z = count_righthand_zero_bits n 32; prefixlen = 32 - z
      in if drop_bit z n \<noteq> 2 ^ prefixlen - 1 then Inl ValueError else Inr prefixlen)"

text \<open>
  A mask is tried as a prefix length first, then as a netmask and, its bits inverted, as a
  host mask. Every failure reaches the caller as \<open>ValueError\<close>; a mask that holds another
  slash is refused the same way.
\<close>

definition prefix_from_ip_string :: "string \<Rightarrow> nat res" where
  "prefix_from_ip_string s = bindR (ip_int_from_string s) (\<lambda>n.
     case prefix_from_ip_int n of Inr p \<Rightarrow> Inr p
     | Inl _ \<Rightarrow> prefix_from_ip_int (n XOR (2 ^ 32 - 1)))"

definition netmask_to_prefixlen :: "string \<Rightarrow> nat res" where
  "netmask_to_prefixlen netmask =
     (if netmask \<noteq> [] \<and> list_all is_digit netmask \<and> nat_of_digits netmask \<le> 32
      then Inr (nat_of_digits netmask)
      else prefix_from_ip_string netmask)"

section \<open>Rounding\<close>

definition round_nearest_multiple :: "int \<Rightarrow> int \<Rightarrow> int \<Rightarrow> int res" where
  "round_nearest_multiple v factor headroom =
     (if factor = 0 then Inl (OtherException ''ZeroDivisionError'')
      else Inr (factor * ((v + headroom) div factor + 1)))"

section \<open>Integers as their bytes\<close>

lemma le_int_bounds: "0 \<le> le_int bs \<and> le_int bs < 256 ^ length bs"
proof (induction bs)
  case Nil
  then show ?case by simp
next
  case (Cons b bs)
  have "uint b < 256" using uint_lt2p [of b] by simp
  moreover have "le_int bs + 1 \<le> 256 ^ length bs" using Cons by simp
  ultimately show ?case using Cons by simp
qed

lemma bit_le_int:
  "bit (le_int bs) n = (n div 8 < length bs \<and> bit (bs ! (n div 8)) (n mod 8))"
proof (induction bs arbitrary: n)
  case Nil
  then show ?case by simp
next
  case (Cons b bs)
  have eq: "le_int (b # bs) = concat_bit 8 (uint b) (le_int bs)"
    by (simp add: concat_bit_eq take_bit_int_eq_self uint_lt2p [of b, simplified] push_bit_eq_mult)
  show ?case
  proof (cases "n < 8")
    case True
    then show ?thesis unfolding eq by (simp add: bit_concat_bit_iff bit_uint_iff)
  next
    case False
    then have "n div 8 = Suc ((n - 8) div 8)" and "n mod 8 = (n - 8) mod 8"
      by (simp_all add: div_if mod_if)
    with False show ?thesis unfolding eq by (simp add: bit_concat_bit_iff Cons)
  qed
qed


lemma le_int_and:
  "length xs = length ys \<Longrightarrow> le_int (map2 (AND) xs ys) = le_int xs AND le_int ys"
  by (rule bit_eqI) (auto simp: bit_le_int bit_and_iff)

lemma length_le_bytes [simp]: "length (le_bytes n) = 4"
  by (simp add: le_bytes_def)

lemma le_bytes_nth: "i < 4 \<Longrightarrow> le_bytes n ! i = of_int (drop_bit (8 * i) n)"
  by (auto simp: le_bytes_def less_Suc_eq numeral_eq_Suc)

lemma le_int_le_bytes: "0 \<le> n \<Longrightarrow> n < 2 ^ 32 \<Longrightarrow> le_int (le_bytes n) = n"
proof (rule bit_eqI)
  fix k
  assume n: "0 \<le> n" "n < 2 ^ 32"
  have big: "\<not> bit n k" if "32 \<le> k"
  proof -
    have "take_bit 32 n = n" using n by (simp add: take_bit_int_eq_self)
    then show ?thesis using that by (metis bit_take_bit_iff not_le)
  qed
  show "bit (le_int (le_bytes n)) k = bit n k"
  proof (cases "k < 32")
    case True
    then have "k div 8 < 4" "8 * (k div 8) + k mod 8 = k" by auto
    then show ?thesis
      by (simp add: bit_le_int le_bytes_nth bit_of_int_iff bit_drop_bit_eq)
  next
    case False
    then have "\<not> k div 8 < 4" by auto
    with False big show ?thesis by (simp add: bit_le_int)
  qed
qed

lemma le_bytes_le_int: "length bs = 4 \<Longrightarrow> le_bytes (le_int bs) = bs"
proof (rule nth_equalityI)
  assume l: "length bs = 4"
  then show "length (le_bytes (le_int bs)) = length bs" by simp
  fix i
  assume "i < length (le_bytes (le_int bs))"
  then have i: "i < 4" by simp
  show "le_bytes (le_int bs) ! i = bs ! i"
  proof (rule bit_word_eqI)
    fix k
    assume "k < LENGTH(8)"
    then show "bit (le_bytes (le_int bs) ! i) k = bit (bs ! i) k"
      using i l by (simp add: le_bytes_nth bit_of_int_iff bit_drop_bit_eq bit_le_int)
  qed
qed

lemma length_mem_bytes [simp]: "length (mem_bytes bo n) = 4"
  by (simp add: mem_bytes_def split: byteorder.split)

lemma mem_bytes_unpack [simp]: "length bs = 4 \<Longrightarrow> mem_bytes bo (unpack_native bo bs) = bs"
  by (simp add: mem_bytes_def unpack_native_def be_int_def le_bytes_le_int split: byteorder.split)

lemma unpack_mem_bytes:
  "0 \<le> n \<Longrightarrow> n < 2 ^ 32 \<Longrightarrow> unpack_native bo (mem_bytes bo n) = n"
  by (simp add: mem_bytes_def unpack_native_def be_int_def le_int_le_bytes split: byteorder.split)

lemma unpack_bounds: "length bs = 4 \<Longrightarrow> 0 \<le> unpack_native bo bs \<and> unpack_native bo bs < 2 ^ 32"
  using le_int_bounds [of bs] le_int_bounds [of "rev bs"]
  by (simp add: unpack_native_def be_int_def split: byteorder.split)

lemma unpack_and:
  "length xs = length ys \<Longrightarrow>
     unpack_native bo xs AND unpack_native bo ys = unpack_native bo (map2 (AND) xs ys)"
  by (simp add: unpack_native_def be_int_def le_int_and [symmetric] rev_map zip_rev
      split: byteorder.split)

lemma unpack_inj:
  "length xs = 4 \<Longrightarrow> length ys = 4 \<Longrightarrow>
     (unpack_native bo xs = unpack_native bo ys) = (xs = ys)"
  by (metis mem_bytes_unpack)

section \<open>Parsing dotted addresses\<close>

lemma takeWhile_dropWhile_end:
  "\<forall>c \<in> set a. P c \<Longrightarrow> rest = [] \<or> \<not> P (hd rest) \<Longrightarrow>
     takeWhile P (a @ rest) = a \<and> dropWhile P (a @ rest) = rest"
  by (induction a) (auto simp: takeWhile_eq_Nil_iff dropWhile_eq_self_iff)

lemma strtoul_decimal:
  assumes "a \<noteq> []" and "hd a \<noteq> CHR ''0''" and "\<forall>c \<in> set a. is_digit c"
    and "rest = [] \<or> \<not> is_digit (hd rest)"
  shows "strtoul (a @ rest) = (nat_of_digits a, rest)"
proof -
  obtain c cs where a: "a = c # cs" using assms(1) by (cases a) auto
  have "takeWhile is_digit (a @ rest) = a \<and> dropWhile is_digit (a @ rest) = rest"
    by (rule takeWhile_dropWhile_end) (use assms in auto)
  then have "strtoul (a @ rest) = (digits_value 10 digit_val a, rest)"
    using assms(2) unfolding a strtoul_def by (auto split: list.splits)
  then show ?thesis by (simp add: digits_value_def nat_of_digits_def)
qed

lemma strtoul_zero:
  assumes "rest = [] \<or> hd rest = CHR ''.''"
  shows "strtoul (''0'' @ rest) = (0, rest)"
proof -
  have oct: "\<not> is_oct (CHR ''.'')" "is_oct (CHR ''0'')"
    by (simp_all add: is_oct_def is_digit_def digit_val_def)
  show ?thesis
  proof (cases rest)
    case Nil
    then show ?thesis by (simp add: strtoul_def oct digits_value_def digit_val_def)
  next
    case (Cons c cs)
    with assms have "rest = CHR ''.'' # cs" by simp
    then show ?thesis
      by (cases cs) (simp_all add: strtoul_def oct digits_value_def digit_val_def)
  qed
qed

lemma parse_octetD:
  assumes "parse_octet w = Inr b"
  shows "w \<noteq> []" and "\<forall>c \<in> set w. is_digit c" and "nat_of_digits w < 256"
    and "b = of_nat (nat_of_digits w)" and "w = ''0'' \<or> hd w \<noteq> CHR ''0''"
  using assms by (auto simp: parse_octet_def list_all_iff split: if_splits)

lemma strtoul_octet:
  assumes "parse_octet w = Inr b" and "rest = [] \<or> hd rest = CHR ''.''"
  shows "strtoul (w @ rest) = (unat b, rest)"
proof -
  note w = parse_octetD [OF assms(1)]
  have b: "unat b = nat_of_digits w" using w(3,4) by (simp add: unat_of_nat take_bit_nat_eq_self)
  show ?thesis
  proof (cases "w = ''0''")
    case True
    then show ?thesis
      using strtoul_zero [OF assms(2)] b by (simp add: nat_of_digits_def digit_val_def)
  next
    case False
    have "\<not> is_digit (CHR ''.'')" by (simp add: is_digit_def)
    then show ?thesis using strtoul_decimal [of w rest] w b False assms(2) by auto
  qed
qed

lemma last_part_byte: "last_part 0 (unat b) = [b]"
  by (simp add: last_part_def le_bytes_def)

lemma inet_aton_octets:
  "list_all2 (\<lambda>w b. parse_octet w = Inr b) ws bs \<Longrightarrow> length bs = Suc k \<Longrightarrow>
     inet_aton_parts k (join ''.'' ws) = Inr bs"
proof (induction k arbitrary: ws bs)
  case 0
  then obtain w b where wb: "ws = [w]" "bs = [b]" "parse_octet w = Inr b"
    by (auto simp: length_Suc_conv list_all2_Cons2)
  have "w \<noteq> []" "is_digit (hd w)" using parse_octetD [OF wb(3)] by (auto simp: hd_in_set)
  moreover have "unat b < 256" using unsigned_less [of b] by simp
  ultimately show ?case
    using strtoul_octet [OF wb(3), of "[]"]
    by (simp add: wb last_part_byte inet_aton_parts.simps [of 0])
next
  case (Suc k)
  then obtain w b ws' bs' where wb: "ws = w # ws'" "bs = b # bs'" "parse_octet w = Inr b"
      and rest: "list_all2 (\<lambda>w b. parse_octet w = Inr b) ws' bs'" "length bs' = Suc k"
    by (auto simp: length_Suc_conv list_all2_Cons2)
  then obtain v vs where v: "ws' = v # vs" by (auto simp: length_Suc_conv list_all2_Cons2)
  have j: "join ''.'' ws = w @ CHR ''.'' # join ''.'' ws'" by (simp add: wb v)
  have "w \<noteq> []" "is_digit (hd w)" using parse_octetD [OF wb(3)] by (auto simp: hd_in_set)
  moreover have "unat b < 256" using unsigned_less [of b] by simp
  moreover have "strtoul (w @ CHR ''.'' # join ''.'' ws') = (unat b, CHR ''.'' # join ''.'' ws')"
    by (rule strtoul_octet [OF wb(3)]) simp
  ultimately show ?case
    using Suc.IH [OF rest] unfolding j wb(2) by (simp add: inet_aton_parts.simps [of "Suc k"])
qed

lemma octets_no_nul:
  "list_all2 (\<lambda>w b. parse_octet w = Inr b) ws bs \<Longrightarrow> c \<in> set (join ''.'' ws) \<Longrightarrow>
     is_digit c \<or> c = CHR ''.''"
proof (induction "''.''" ws arbitrary: bs rule: join.induct)
  case 1
  then show ?case by simp
next
  case (2 x)
  then show ?case by (auto simp: list_all2_Cons1 dest: parse_octetD(2))
next
  case (3 x y zs)
  then obtain b bs' where "bs = b # bs'" "parse_octet x = Inr b"
      "list_all2 (\<lambda>w b. parse_octet w = Inr b) (y # zs) bs'"
    by (auto simp: list_all2_Cons1)
  with 3 show ?case by (auto dest: parse_octetD(2))
qed

lemma inet_aton_dotted:
  assumes "list_all2 (\<lambda>w b. parse_octet w = Inr b) ws bs" and "length bs = 4"
  shows "inet_aton (join ''.'' ws) = Inr bs"
proof -
  have "CHR 0x00 \<notin> set (join ''.'' ws)"
    using octets_no_nul [OF assms(1), of "CHR 0x00"] by (auto simp: is_digit_def)
  then show ?thesis
    using inet_aton_octets [OF assms(1), of 3] assms(2) by (simp add: inet_aton_def)
qed

section \<open>Addresses and their encoding\<close>

lemma inet_aton_parts_length: "inet_aton_parts k s = Inr bs \<Longrightarrow> k \<le> 3 \<Longrightarrow> length bs = Suc k"
proof (induction k arbitrary: s bs)
  case 0
  from 0(1) show ?case
    by (subst (asm) inet_aton_parts.simps)
       (auto simp: last_part_def split: if_splits prod.splits list.splits)
next
  case (Suc k)
  from Suc.prems show ?case
    by (subst (asm) inet_aton_parts.simps)
       (auto simp: res_simps last_part_def dest: Suc.IH split: if_splits prod.splits list.splits)
qed

lemma ip_to_int_iff:
  "(ip_to_int bo s = Inr n) = (\<exists>bs. inet_aton s = Inr bs \<and> length bs = 4 \<and> n = unpack_native bo bs)"
  using inet_aton_parts_length [of 3 s]
  by (auto simp: ip_to_int_def inet_aton_def res_simps split: if_splits)

lemma ip_to_int_bounds: "ip_to_int bo s = Inr n \<Longrightarrow> 0 \<le> n \<and> n < 2 ^ 32"
  by (metis ip_to_int_iff unpack_bounds)

lemma parse_octet_show: "parse_octet (show_nat (unat b)) = Inr b"
proof -
  have lt: "unat b < 256" using unsigned_less [of b] by simp
  have "length (show_nat (unat b)) \<le> 3"
  proof -
    have "show_nat (unat b) = (if unat b < 10 then [char_of (48 + unat b)]
        else if unat b < 100 then [char_of (48 + unat b div 10), char_of (48 + unat b mod 10)]
        else [char_of (48 + unat b div 100), char_of (48 + unat b div 10 mod 10),
              char_of (48 + unat b mod 10)])"
      using lt by (auto simp: show_nat.simps [of "unat b"] show_nat.simps [of "unat b div 10"]
          show_nat.simps [of "unat b div 100"] div_mult2_eq [symmetric])
    then show ?thesis by auto
  qed
  moreover have "show_nat (unat b) = ''0'' \<or> hd (show_nat (unat b)) \<noteq> CHR ''0''"
    using show_nat_hd [of "unat b"] by (cases "unat b = 0") auto
  ultimately show ?thesis
    using lt show_nat_digits [of "unat b"] by (auto simp: parse_octet_def list_all_iff)
qed

lemma octets_show: "list_all2 (\<lambda>w b. parse_octet w = Inr b) (map (\<lambda>b. show_nat (unat b)) bs) bs"
  by (simp add: list_all2_conv_all_nth parse_octet_show)

lemma inet_aton_ntoa: "length bs = 4 \<Longrightarrow> inet_aton (inet_ntoa bs) = Inr bs"
  unfolding inet_ntoa_def by (rule inet_aton_dotted [OF octets_show])

text \<open>Evaluating a dotted address through its octets.\<close>

lemma ip_to_int_eval:
  assumes "\<not> isl (mapR parse_octet (split_on (CHR ''.'') s))"
    and "length (projr (mapR parse_octet (split_on (CHR ''.'') s))) = 4"
  shows "ip_to_int bo s = Inr (unpack_native bo (projr (mapR parse_octet (split_on (CHR ''.'') s))))"
proof -
  obtain bs where bs: "mapR parse_octet (split_on (CHR ''.'') s) = Inr bs" "length bs = 4"
    using assms by (cases "mapR parse_octet (split_on (CHR ''.'') s)") auto
  then have "inet_aton s = Inr bs"
    using inet_aton_dotted [of "split_on (CHR ''.'') s" bs] by (simp add: mapR_Inr_iff join_split_on)
  with bs show ?thesis by (simp add: ip_to_int_def)
qed

lemmas octet_simps = parse_octet_def is_digit_def nat_of_digits_def digit_val_def

lemma no_dot_octet: "parse_octet w = Inr b \<Longrightarrow> CHR ''.'' \<notin> set w"
  using parse_octetD(2) [of w b] by (auto simp: is_digit_def)

lemma ip_int_from_string_iff:
  "(ip_int_from_string s = Inr n) =
     (\<exists>ws bs. s = join ''.'' ws \<and> list_all2 (\<lambda>w b. parse_octet w = Inr b) ws bs \<and> length bs = 4
        \<and> n = be_int bs)"
proof
  assume "ip_int_from_string s = Inr n"
  then obtain bs where "length (split_on (CHR ''.'') s) = 4"
      "list_all2 (\<lambda>w b. parse_octet w = Inr b) (split_on (CHR ''.'') s) bs" "n = be_int bs"
    by (auto simp: ip_int_from_string_def res_simps mapR_Inr_iff split: if_splits)
  moreover have "s = join ''.'' (split_on (CHR ''.'') s)" by (simp add: join_split_on)
  ultimately show "\<exists>ws bs. s = join ''.'' ws \<and> list_all2 (\<lambda>w b. parse_octet w = Inr b) ws bs
      \<and> length bs = 4 \<and> n = be_int bs"
    using list_all2_lengthD by metis
next
  assume "\<exists>ws bs. s = join ''.'' ws \<and> list_all2 (\<lambda>w b. parse_octet w = Inr b) ws bs
      \<and> length bs = 4 \<and> n = be_int bs"
  then obtain ws bs where h: "s = join ''.'' ws" "list_all2 (\<lambda>w b. parse_octet w = Inr b) ws bs"
      "length bs = 4" "n = be_int bs" by blast
  have l: "length ws = 4" using h(2,3) by (simp add: list_all2_lengthD)
  have "\<forall>w \<in> set ws. CHR ''.'' \<notin> set w"
  proof
    fix w
    assume "w \<in> set ws"
    then obtain i where "i < length ws" "w = ws ! i" by (auto simp: in_set_conv_nth)
    with h(2) have "parse_octet w = Inr (bs ! i)" by (auto dest: list_all2_nthD)
    then show "CHR ''.'' \<notin> set w" by (rule no_dot_octet)
  qed
  moreover have "ws \<noteq> []" using l by auto
  ultimately have "split_on (CHR ''.'') s = ws" unfolding h(1) by (intro split_on_join)
  then show "ip_int_from_string s = Inr n"
    using h l by (simp add: ip_int_from_string_def mapR_Inr_iff [THEN iffD2])
qed

lemma dotted_agrees:
  assumes "ip_int_from_string s = Inr n"
  obtains bs where "length bs = 4" and "be_int bs = n" and "inet_aton s = Inr bs"
    and "ip_to_int bo s = Inr (unpack_native bo bs)"
  using assms inet_aton_dotted by (fastforce simp: ip_int_from_string_iff ip_to_int_def)

section \<open>Prefix lengths\<close>

lemma count_righthand_zero_bits_le: "count_righthand_zero_bits n b \<le> b"
  by (induction n b rule: count_righthand_zero_bits.induct) auto

lemma count_righthand_zero_bits_dvd: "2 ^ count_righthand_zero_bits n b dvd n"
proof (induction n b rule: count_righthand_zero_bits.induct)
  case (1 n)
  then show ?case by simp
next
  case (2 n bits)
  then show ?case by (auto elim!: evenE)
qed

lemma count_righthand_zero_bits_0: "count_righthand_zero_bits 0 b = b"
  by (induction b) auto

lemma count_righthand_zero_bits_power:
  "odd m \<Longrightarrow> z \<le> b \<Longrightarrow> count_righthand_zero_bits (2 ^ z * m) b = z"
proof (induction z arbitrary: b)
  case 0
  then show ?case by (cases b) auto
next
  case (Suc z)
  then obtain b' where "b = Suc b'" by (cases b) auto
  with Suc show ?case by (simp add: mult.assoc)
qed

lemma prefix_from_ip_int_iff:
  "(prefix_from_ip_int n = Inr p) = (p \<le> 32 \<and> n = 2 ^ 32 - 2 ^ (32 - p))"
proof
  assume h: "prefix_from_ip_int n = Inr p"
  define z where "z = count_righthand_zero_bits n 32"
  have z: "z \<le> 32" unfolding z_def by (rule count_righthand_zero_bits_le)
  have dvd: "2 ^ z dvd n" unfolding z_def by (rule count_righthand_zero_bits_dvd)
  have p: "p = 32 - z" and q: "n div 2 ^ z = 2 ^ p - 1"
    using h by (auto simp: prefix_from_ip_int_def Let_def z_def drop_bit_eq_div split: if_splits)
  have "n = 2 ^ z * (2 ^ p - 1)" using dvd q by (metis dvd_mult_div_cancel)
  then have "n = 2 ^ (z + p) - 2 ^ z" by (simp add: algebra_simps power_add)
  with z p show "p \<le> 32 \<and> n = 2 ^ 32 - 2 ^ (32 - p)" by simp
next
  assume h: "p \<le> 32 \<and> n = 2 ^ 32 - 2 ^ (32 - p)"
  have n: "n = 2 ^ (32 - p) * (2 ^ p - 1)"
    using h by (simp add: algebra_simps power_add [symmetric])
  have z: "count_righthand_zero_bits n 32 = 32 - p"
  proof (cases "p = 0")
    case True
    with h show ?thesis by (simp add: count_righthand_zero_bits_0)
  next
    case False
    then have "odd ((2::int) ^ p - 1)" by simp
    then show ?thesis unfolding n by (rule count_righthand_zero_bits_power) simp
  qed
  show "prefix_from_ip_int n = Inr p"
    unfolding prefix_from_ip_int_def Let_def z unfolding n using h by (simp add: drop_bit_eq_div)
qed

lemma netmask_dotted:
  assumes "ip_int_from_string s = Inr n"
  shows "netmask_to_prefixlen s =
    (case prefix_from_ip_int n of Inr p \<Rightarrow> Inr p | Inl _ \<Rightarrow> prefix_from_ip_int (n XOR (2 ^ 32 - 1)))"
proof -
  obtain ws bs where s: "s = join ''.'' ws" and l: "length ws = 4"
    using assms by (auto simp: ip_int_from_string_iff dest: list_all2_lengthD)
  obtain w v vs where "ws = w # v # vs" using l by (auto simp: numeral_eq_Suc length_Suc_conv)
  then have "CHR ''.'' \<in> set s" by (simp add: s)
  moreover have "\<not> is_digit (CHR ''.'')" by (simp add: is_digit_def)
  ultimately have "\<not> list_all is_digit s" by (auto simp: list_all_iff)
  then show ?thesis
    using assms by (auto simp: netmask_to_prefixlen_def prefix_from_ip_string_def)
qed

lemma netmask_eval:
  assumes "ip_int_from_string s = Inr (2 ^ 32 - 2 ^ (32 - p))" and "p \<le> 32"
  shows "netmask_to_prefixlen s = Inr p"
  using netmask_dotted [OF assms(1)] assms(2) prefix_from_ip_int_iff [of "2 ^ 32 - 2 ^ (32 - p)" p]
  by simp

lemma bit_bounded: "0 \<le> n \<Longrightarrow> n < 2 ^ w \<Longrightarrow> bit n k \<Longrightarrow> k < w" for n :: int
  by (metis bit_take_bit_iff take_bit_int_eq_self)

lemma xor_ones: "0 \<le> n \<Longrightarrow> n < 2 ^ w \<Longrightarrow> n XOR (2 ^ w - 1) = 2 ^ w - 1 - n" for n :: int
proof -
  assume n: "0 \<le> n" "n < 2 ^ w"
  have m: "(2 :: int) ^ w - 1 = mask w" by (simp add: mask_eq_exp_minus_1)
  have "n AND (n XOR mask w) = 0"
    using bit_bounded [OF n] by (auto simp: bit_eq_iff bit_simps)
  then have "n + (n XOR mask w) = n OR (n XOR mask w)"
    by (rule disjunctive_add_eq_or)
  also have "\<dots> = mask w"
    using bit_bounded [OF n] by (auto simp: bit_eq_iff bit_simps)
  finally show ?thesis by (simp add: m)
qed

text \<open>The address bits a netmask keeps are the first \<open>p\<close> of its bytes in memory.\<close>

lemma bit_be_int:
  "length bs = 4 \<Longrightarrow> i < 32 \<Longrightarrow> bit (be_int bs) (31 - i) = msb_bit bs i"
proof -
  assume l: "length bs = 4" and i: "i < 32"
  have e: "31 - i = (7 - i mod 8) + 8 * (3 - i div 8)"
  proof -
    have "i = 8 * (i div 8) + i mod 8" "i mod 8 < 8" "i div 8 < 4" using i by auto
    then show ?thesis by linarith
  qed
  have aux: "r < 8 \<Longrightarrow> (r + 8 * q) div 8 = q \<and> (r + 8 * q) mod 8 = r" for r q :: nat by simp
  have "(31 - i) div 8 = 3 - i div 8 \<and> (31 - i) mod 8 = 7 - i mod 8"
    unfolding e by (rule aux) simp
  moreover have "rev bs ! (3 - i div 8) = bs ! (i div 8)"
    using l i by (simp add: rev_nth less_mult_imp_div_less)
  moreover have "3 - i div 8 < 4" by simp
  ultimately show ?thesis
    using l by (simp add: be_int_def bit_le_int msb_bit_def)
qed

lemma bit_netmask:
  "p \<le> 32 \<Longrightarrow> k < 32 \<Longrightarrow> bit ((2 :: int) ^ 32 - 2 ^ (32 - p)) k = (32 - p \<le> k)"
proof -
  assume p: "p \<le> 32" and k: "k < 32"
  have "(2 :: int) ^ 32 - 2 ^ (32 - p) = push_bit (32 - p) (mask p)"
    using p by (simp add: push_bit_eq_mult mask_eq_exp_minus_1 algebra_simps power_add [symmetric])
  with p k show ?thesis by (auto simp: bit_simps)
qed

lemma msb_bit_netmask:
  assumes "prefix_from_ip_int (be_int bs) = Inr p" and "length bs = 4" and "i < 32"
  shows "msb_bit bs i = (i < p)"
  using assms bit_be_int [of bs i] bit_netmask [of p "31 - i"]
  by (auto simp: prefix_from_ip_int_iff)

lemma bytes_eq_msb:
  assumes "length xs = 4" and "length ys = 4"
  shows "(xs = ys) = (\<forall>i < 32. msb_bit xs i = msb_bit ys i)"
proof
  assume h: "\<forall>i < 32. msb_bit xs i = msb_bit ys i"
  show "xs = ys"
  proof (rule nth_equalityI)
    fix j
    assume "j < length xs"
    then have j: "j < 4" using assms by simp
    show "xs ! j = ys ! j"
    proof (rule bit_word_eqI)
      fix k
      assume k: "k < LENGTH(8)"
      define r where "r = 7 - k"
      have r: "r < 8" "7 - r = k" using k by (auto simp: r_def)
      then have "8 * j + r < 32" "(8 * j + r) div 8 = j" "(8 * j + r) mod 8 = r"
        using j by auto
      with h r(2) show "bit (xs ! j) k = bit (ys ! j) k" unfolding msb_bit_def by metis
    qed
  qed (use assms in simp)
qed simp

lemma msb_bit_and:
  "length xs = 4 \<Longrightarrow> length ys = 4 \<Longrightarrow> i < 32 \<Longrightarrow>
     msb_bit (map2 (AND) xs ys) i = (msb_bit xs i \<and> msb_bit ys i)"
  by (simp add: msb_bit_def bit_and_iff less_mult_imp_div_less)

text \<open>
  Masking two addresses with a contiguous netmask gives the same value exactly when their first
  \<open>p\<close> bits in memory agree.
\<close>

lemma masked_eq_prefix_eq:
  assumes "prefix_from_ip_int (be_int ms) = Inr p"
    and "length ms = 4" and "length xs = 4" and "length ys = 4"
  shows "(unpack_native bo xs AND unpack_native bo ms = unpack_native bo ys AND unpack_native bo ms)
    = (\<forall>i < p. msb_bit xs i = msb_bit ys i)"
proof -
  have p: "p \<le> 32" using assms(1) by (simp add: prefix_from_ip_int_iff)
  have "(unpack_native bo xs AND unpack_native bo ms = unpack_native bo ys AND unpack_native bo ms)
      = (map2 (AND) xs ms = map2 (AND) ys ms)"
    using assms by (simp add: unpack_and unpack_inj)
  also have "\<dots> = (\<forall>i < 32. msb_bit (map2 (AND) xs ms) i = msb_bit (map2 (AND) ys ms) i)"
    using assms by (intro bytes_eq_msb) simp_all
  also have "\<dots> = (\<forall>i < p. msb_bit xs i = msb_bit ys i)"
    using assms p by (simp add: msb_bit_and msb_bit_netmask) (meson order_less_le_trans)
  finally show ?thesis .
qed

section \<open>What the address functions promise\<close>

lemma int_to_ip_Inr:
  "0 \<le> n \<Longrightarrow> n < 2 ^ 32 \<Longrightarrow> int_to_ip n = Inr (inet_ntoa (le_bytes n))"
  by (simp add: int_to_ip_def pack_le_def)

lemma ip_to_int_inet_ntoa:
  "length bs = 4 \<Longrightarrow> ip_to_int bo (inet_ntoa bs) = Inr (unpack_native bo bs)"
  by (simp add: ip_to_int_def inet_aton_ntoa)

lemma int_to_ip_u32:
  "int_to_ip (uint (w :: u32)) = Inr (inet_ntoa (le_bytes (uint w)))"
  "ip_to_int LittleEndian (inet_ntoa (le_bytes (uint w))) = Inr (uint w)"
proof -
  have "0 \<le> uint w \<and> uint w < 2 ^ 32" using uint_lt2p [of w] by simp
  then show "int_to_ip (uint w) = Inr (inet_ntoa (le_bytes (uint w)))"
    "ip_to_int LittleEndian (inet_ntoa (le_bytes (uint w))) = Inr (uint w)"
    by (simp_all add: int_to_ip_def pack_le_def ip_to_int_inet_ntoa unpack_native_def le_int_le_bytes)
qed

lemma ip_to_int_inet_ntoa_le: "0 \<le> n \<Longrightarrow> n < 2 ^ 32 \<Longrightarrow> ip_to_int LittleEndian (inet_ntoa (le_bytes n)) = Inr n"
  using int_to_ip_u32(2) [of "of_int n"] by (simp add: unsigned_of_int take_bit_int_eq_self)

text \<open>
  On a little endian host every 32-bit integer has a dotted form and encoding that
  form gives the integer back; an integer outside the range is refused with an error.
\<close>

theorem int_to_ip_roundtrip:
  "(if 0 \<le> n \<and> n < 2 ^ 32
    then \<exists>s. int_to_ip n = Inr s \<and> ip_to_int LittleEndian s = Inr n
    else int_to_ip n = Inl (OtherException ''struct.error''))"
proof (cases "0 \<le> n \<and> n < 2 ^ 32")
  case True
  then have "ip_to_int LittleEndian (inet_ntoa (le_bytes n)) = Inr n"
    by (simp add: ip_to_int_inet_ntoa unpack_native_def le_int_le_bytes)
  with True show ?thesis by (auto simp: int_to_ip_Inr)
next
  case False
  then show ?thesis by (auto simp: int_to_ip_def pack_le_def)
qed

lemma hostmask_not_netmask:
  assumes "0 < k" "k < 32"
  shows "prefix_from_ip_int (2 ^ k - 1) \<noteq> Inr p"
proof
  assume "prefix_from_ip_int (2 ^ k - 1) = Inr p"
  then have p: "p \<le> 32" and e: "(2 :: int) ^ k - 1 = 2 ^ 32 - 2 ^ (32 - p)"
    by (simp_all add: prefix_from_ip_int_iff)
  have "odd ((2 :: int) ^ k - 1)" using assms by simp
  then have "32 - p = 0" unfolding e by (cases "32 - p") simp_all
  with e p have "(2 :: int) ^ k = 2 ^ 32" by simp
  then have "k = 32" by (rule power_inject_exp [THEN iffD1, rotated]) simp
  with assms show False by simp
qed

text \<open>
  A dotted mask has prefix length \<open>p\<close> exactly when it is the netmask of
  \<open>p\<close> leading ones, or the host mask of \<open>32 - p\<close> trailing ones with
  \<open>0 < p < 32\<close>; every other dotted mask is refused with a \<open>ValueError\<close>.
\<close>

theorem netmask_to_prefixlen_dotted:
  assumes "ip_int_from_string s = Inr n"
  shows "(netmask_to_prefixlen s = Inr p \<longleftrightarrow>
      p \<le> 32 \<and> (n = 2 ^ 32 - 2 ^ (32 - p) \<or> 0 < p \<and> p < 32 \<and> n = 2 ^ (32 - p) - 1))
    \<and> ((\<exists>q. netmask_to_prefixlen s = Inr q) \<or> netmask_to_prefixlen s = Inl ValueError)"
proof (intro conjI)
  obtain bs where "length bs = 4" "be_int bs = n"
    using assms by (rule dotted_agrees)
  then have n: "0 \<le> n" "n < 2 ^ 32"
    using le_int_bounds [of "rev bs"] by (auto simp: be_int_def)
  have inv: "n XOR (2 ^ 32 - 1) = 2 ^ 32 - 1 - n" by (rule xor_ones [OF n])
  have swap: "2 ^ 32 - 1 - n = 2 ^ 32 - 2 ^ (32 - p) \<longleftrightarrow> n = 2 ^ (32 - p) - 1" for p by linarith
  show "netmask_to_prefixlen s = Inr p \<longleftrightarrow>
      p \<le> 32 \<and> (n = 2 ^ 32 - 2 ^ (32 - p) \<or> 0 < p \<and> p < 32 \<and> n = 2 ^ (32 - p) - 1)"
  proof (cases "prefix_from_ip_int n")
    case (Inl e)
    then have no: "prefix_from_ip_int n \<noteq> Inr q" for q by simp
    from no [of 0] no [of 32] have "n \<noteq> 0" "n \<noteq> 2 ^ 32 - 1"
      by (auto simp: prefix_from_ip_int_iff)
    then have "n = 2 ^ (32 - p) - 1 \<Longrightarrow> p \<noteq> 0 \<and> p \<noteq> 32"
      by (cases "p = 0"; cases "p = 32") auto
    then have "p \<le> 32 \<and> n = 2 ^ (32 - p) - 1 \<longleftrightarrow>
        p \<le> 32 \<and> 0 < p \<and> p < 32 \<and> n = 2 ^ (32 - p) - 1" by auto
    moreover have "netmask_to_prefixlen s = Inr p \<longleftrightarrow> p \<le> 32 \<and> n = 2 ^ (32 - p) - 1"
      by (simp only: netmask_dotted [OF assms] inv Inl sum.case prefix_from_ip_int_iff swap)
    moreover have "\<not> (p \<le> 32 \<and> n = 2 ^ 32 - 2 ^ (32 - p))"
      using no [of p] by (simp add: prefix_from_ip_int_iff)
    ultimately show ?thesis by blast
  next
    case (Inr q)
    then have "prefix_from_ip_int n = Inr p \<longleftrightarrow> p \<le> 32 \<and> n = 2 ^ 32 - 2 ^ (32 - p)"
      by (simp add: prefix_from_ip_int_iff)
    moreover have "\<not> (0 < p \<and> p < 32 \<and> n = 2 ^ (32 - p) - 1)"
      using Inr hostmask_not_netmask [of "32 - p" q] by auto
    ultimately show ?thesis using Inr by (auto simp: netmask_dotted [OF assms])
  qed
  show "(\<exists>q. netmask_to_prefixlen s = Inr q) \<or> netmask_to_prefixlen s = Inl ValueError"
    by (auto simp: netmask_dotted [OF assms] prefix_from_ip_int_def Let_def split: sum.splits)
qed

theorem netmask_to_prefixlen_dotted_witness:
  "ip_int_from_string ''255.240.0.0'' = Inr 4293918720 \<and> netmask_to_prefixlen ''255.240.0.0'' = Inr 12"
proof -
  have "ip_int_from_string ''255.240.0.0'' = Inr 4293918720"
    by (simp add: ip_int_from_string_def parse_octet_def is_digit_def nat_of_digits_def
        digit_val_def be_int_def)
  with netmask_to_prefixlen_dotted [OF this, of 12] show ?thesis by simp
qed

end
