(* ===== verification/Ctypes_Helper.thy ===== *)
theory Ctypes_Helper
  imports Prelude
begin

text \<open>
  \<^verbatim>\<open>pidtree_bcc/ctypes_helper.py\<close>: the comparison, hash and printing that
  \<open>ComparableCtStructure\<close> and the array types of
  \<open>create_comparable_array_type\<close> add to ctypes values. A ctypes value is an integer, an
  array or a structure with named fields (\<open>ctval\<close>); \<open>ctype\<close> describes the
  declared types. The main result is that on values of one declared type the instrumented
  comparison is equality of the contents, so that sets and dictionaries of such keys behave as
  sets and maps of contents.
\<close>

datatype ctval =
    CtInt int
  | CtArr string "ctval list"
  | CtStruct string "(string \<times> ctval) list"

datatype ctype =
    TInt
  | TArr string nat ctype
  | TStruct string "(string \<times> ctype) list"

text \<open>
  \<open>x == y\<close> as the methods compute it: the fields of the left structure in their order,
  stopping at the first that differs; arrays by length and then element by element. Comparing
  values of different kinds fails on the missing attribute or the missing length.
\<close>

fun ct_eq :: "ctval \<Rightarrow> ctval \<Rightarrow> bool res"
  and ct_fields_eq :: "(string \<times> ctval) list \<Rightarrow> ctval \<Rightarrow> bool res"
  and ct_elems_eq :: "ctval list \<Rightarrow> ctval list \<Rightarrow> bool res"
where
  "ct_eq (CtInt a) (CtInt b) = Inr (a = b)"
| "ct_eq (CtArr _ xs) (CtArr _ ys) =
     (if length xs \<noteq> length ys then Inr False else ct_elems_eq xs ys)"
| "ct_eq (CtStruct _ fs) y = ct_fields_eq fs y"
| "ct_eq (CtInt _) (CtStruct _ _) = Inl (AttributeError [])"
| "ct_eq (CtInt _) (CtArr _ _) = Inl TypeError"
| "ct_eq (CtArr _ _) _ = Inl TypeError"
| "ct_fields_eq [] y = Inr True"
| "ct_fields_eq ((n, v) # fs) y =
     (case y of
        CtStruct _ gs \<Rightarrow>
          (case map_of gs n of None \<Rightarrow> Inl (AttributeError n)
           | Some w \<Rightarrow> bindR (ct_eq v w) (\<lambda>b. if b then ct_fields_eq fs y else Inr False))
      | _ \<Rightarrow> Inl (AttributeError n))"
| "ct_elems_eq (x # xs) (y # ys) =
     bindR (ct_eq x y) (\<lambda>b. if b then ct_elems_eq xs ys else Inr False)"
| "ct_elems_eq _ _ = Inr True"

definition ct_ne :: "ctval \<Rightarrow> ctval \<Rightarrow> bool res" where
  "ct_ne x y = bindR (ct_eq x y) (\<lambda>b. Inr (\<not> b))"

text \<open>The hash of a structure: the exclusive or of its fields' hashes.\<close>

definition ct_hash :: "(ctval \<Rightarrow> int) \<Rightarrow> (string \<times> ctval) list \<Rightarrow> int" where
  "ct_hash hash_of fs = foldl (XOR) 0 (map (\<lambda>f. hash_of (snd f)) fs)"

fun ct_repr :: "ctval \<Rightarrow> string" where
  "ct_repr (CtInt i) = show_int i"
| "ct_repr (CtArr c xs) = c @ ''('' @ join '', '' (map ct_repr xs) @ '')''"
| "ct_repr (CtStruct c fs) =
     c @ ''('' @ join '', '' (map (\<lambda>f. fst f @ ''='' @ ct_repr (snd f)) fs) @ '')''"

text \<open>The array type of a size and an element type, and the method it has besides comparison and text.\<close>

definition create_comparable_array_type :: "string \<Rightarrow> nat \<Rightarrow> ctype \<Rightarrow> ctype" where
  "create_comparable_array_type name n element_type = TArr name n element_type"

definition neq_method :: "ctval \<Rightarrow> ctval \<Rightarrow> bool res" where
  "neq_method x y = bindR (ct_eq x y) (\<lambda>b. Inr (\<not> b))"

text \<open>A value of a declared type, and a declaration whose field names are distinct.\<close>

fun has_ctype :: "ctype \<Rightarrow> ctval \<Rightarrow> bool" where
  "has_ctype TInt (CtInt _) = True"
| "has_ctype (TArr c n t) (CtArr c' xs) = (c = c' \<and> length xs = n \<and> list_all (has_ctype t) xs)"
| "has_ctype (TStruct c ts) (CtStruct c' fs) =
     (c = c' \<and> list_all2 (\<lambda>t f. fst t = fst f \<and> has_ctype (snd t) (snd f)) ts fs)"
| "has_ctype _ _ = False"

fun wf_ctype :: "ctype \<Rightarrow> bool" where
  "wf_ctype TInt = True"
| "wf_ctype (TArr c n t) = wf_ctype t"
| "wf_ctype (TStruct c ts) = (distinct (map fst ts) \<and> list_all (\<lambda>t. wf_ctype (snd t)) ts)"

section \<open>Comparison is equality of contents\<close>

lemma ct_elems_eq_all:
  "length xs = length ys \<Longrightarrow> (\<And>x y. x \<in> set xs \<Longrightarrow> y \<in> set ys \<Longrightarrow> ct_eq x y = Inr (x = y)) \<Longrightarrow>
     ct_elems_eq xs ys = Inr (xs = ys)"
  by (induction xs ys rule: list_induct2) auto

lemma ct_fields_eq_all:
  assumes "list_all2 (\<lambda>f g. fst f = fst g \<and> ct_eq (snd f) (snd g) = Inr (snd f = snd g)) fs gs"
    and "\<And>f. f \<in> set gs \<Longrightarrow> map_of all (fst f) = Some (snd f)"
  shows "ct_fields_eq fs (CtStruct c all) = Inr (fs = gs)"
  using assms
proof (induction fs gs rule: list_all2_induct)
  case Nil
  then show ?case by simp
next
  case (Cons f fs g gs)
  obtain n v where f: "f = (n, v)" by (cases f)
  obtain w where g: "g = (n, w)" using Cons.hyps f by (cases g) auto
  have "map_of all n = Some w" using Cons.prems [of g] g by simp
  moreover have "ct_fields_eq fs (CtStruct c all) = Inr (fs = gs)" using Cons by simp
  ultimately show ?case using Cons.hyps by (simp add: f g)
qed

lemma has_ctype_fields:
  assumes "list_all2 (\<lambda>t f. fst t = fst f \<and> has_ctype (snd t) (snd f)) ts fs"
    and "list_all2 (\<lambda>t f. fst t = fst f \<and> has_ctype (snd t) (snd f)) ts gs"
    and "\<And>t x y. t \<in> snd ` set ts \<Longrightarrow> has_ctype t x \<Longrightarrow> has_ctype t y \<Longrightarrow> ct_eq x y = Inr (x = y)"
  shows "list_all2 (\<lambda>f g. fst f = fst g \<and> ct_eq (snd f) (snd g) = Inr (snd f = snd g)) fs gs"
  using assms
proof (induction ts fs arbitrary: gs rule: list_all2_induct)
  case Nil
  then show ?case by simp
next
  case (Cons t ts f fs)
  from Cons.prems(1) obtain g gs' where gs: "gs = g # gs'" "fst t = fst g" "has_ctype (snd t) (snd g)"
      "list_all2 (\<lambda>t f. fst t = fst f \<and> has_ctype (snd t) (snd f)) ts gs'"
    by (auto simp: list_all2_Cons1)
  have "list_all2 (\<lambda>f g. fst f = fst g \<and> ct_eq (snd f) (snd g) = Inr (snd f = snd g)) fs gs'"
    by (rule Cons.IH [OF gs(4)]) (rule Cons.prems(2), simp_all)
  moreover have "ct_eq (snd f) (snd g) = Inr (snd f = snd g)"
    using Cons.hyps(1) gs(3) by (intro Cons.prems(2) [of "snd t"]) simp_all
  ultimately show ?case using Cons.hyps(1) gs(1,2) by simp
qed

lemma has_ctype_struct:
  "has_ctype (TStruct c ts) x = (\<exists>fs. x = CtStruct c fs \<and>
     list_all2 (\<lambda>t f. fst t = fst f \<and> has_ctype (snd t) (snd f)) ts fs)"
  by (cases x) auto

lemma has_ctype_array:
  "has_ctype (TArr c n t) x = (\<exists>xs. x = CtArr c xs \<and> length xs = n \<and> list_all (has_ctype t) xs)"
  by (cases x) auto

text \<open>
  Comparing two ctypes values of one declared type never fails and holds exactly when
  their contents are equal.
\<close>

theorem ct_eq_contents:
  "wf_ctype t \<Longrightarrow> has_ctype t x \<Longrightarrow> has_ctype t y \<Longrightarrow> ct_eq x y = Inr (x = y)"
proof (induction t arbitrary: x y)
  case TInt
  then show ?case by (cases x; cases y) auto
next
  case (TArr c n t)
  obtain xs where x: "x = CtArr c xs" "length xs = n" "list_all (has_ctype t) xs"
    using TArr.prems(2) unfolding has_ctype_array by blast
  obtain ys where y: "y = CtArr c ys" "length ys = n" "list_all (has_ctype t) ys"
    using TArr.prems(3) unfolding has_ctype_array by blast
  have "ct_elems_eq xs ys = Inr (xs = ys)"
  proof (rule ct_elems_eq_all)
    fix v w
    assume "v \<in> set xs" "w \<in> set ys"
    with x(3) y(3) have "has_ctype t v" "has_ctype t w" by (simp_all add: list_all_iff)
    then show "ct_eq v w = Inr (v = w)" using TArr.prems(1) by (intro TArr.IH) simp_all
  qed (simp add: x y)
  then show ?case by (simp add: x y)
next
  case (TStruct c ts)
  obtain fs where x: "x = CtStruct c fs"
      and fs: "list_all2 (\<lambda>t f. fst t = fst f \<and> has_ctype (snd t) (snd f)) ts fs"
    using TStruct.prems(2) unfolding has_ctype_struct by blast
  obtain gs where y: "y = CtStruct c gs"
      and gs: "list_all2 (\<lambda>t f. fst t = fst f \<and> has_ctype (snd t) (snd f)) ts gs"
    using TStruct.prems(3) unfolding has_ctype_struct by blast
  have "map fst gs = map fst ts" using gs by (induction rule: list_all2_induct) auto
  then have "distinct (map fst gs)" using TStruct.prems(1) by simp
  then have "\<And>f. f \<in> set gs \<Longrightarrow> map_of gs (fst f) = Some (snd f)" by simp
  moreover have "ct_eq v w = Inr (v = w)"
    if "t \<in> snd ` set ts" "has_ctype t v" "has_ctype t w" for t v w
  proof -
    from that(1) obtain n where n: "(n, t) \<in> set ts" by auto
    then have "wf_ctype t" using TStruct.prems(1) by (auto simp: list_all_iff)
    then show ?thesis using TStruct.IH [of "(n, t)" t] n that(2,3) by simp
  qed
  ultimately have "ct_fields_eq fs (CtStruct c gs) = Inr (fs = gs)"
    using has_ctype_fields [OF fs gs] by (intro ct_fields_eq_all) auto
  then show ?case by (simp add: x y)
qed

theorem ct_eq_contents_witness:
  "ct_eq (CtStruct ''CPortRange'' [(''lower'', CtInt 80), (''upper'', CtInt 90)])
         (CtStruct ''CPortRange'' [(''lower'', CtInt 80), (''upper'', CtInt 91)]) = Inr False"
proof -
  let ?t = "TStruct ''CPortRange'' [(''lower'', TInt), (''upper'', TInt)]"
  show ?thesis by (subst ct_eq_contents [of ?t]) simp_all
qed

lemma array_neq_contents:
  assumes "wf_ctype t" and "has_ctype (create_comparable_array_type name n t) x"
    and "has_ctype (create_comparable_array_type name n t) y"
  shows "neq_method x y = Inr (x \<noteq> y)"
  using ct_eq_contents [of "TArr name n t" x y] assms
  by (simp add: neq_method_def create_comparable_array_type_def)

end
