(* ===== verification/Bpf_Tables.thy ===== *)
theory Bpf_Tables
  imports Prelude
begin

text \<open>
  The eBPF tables the user-space code writes through bcc. The table objects are not part of the
  sources, so the loaders take their operations as an argument (\<open>table_ops\<close>) and rely on
  a contract: \<open>bpf_table\<close> for what iterating and assigning promise, \<open>bpf_hash\<close>
  with deletion on top of it. An update may be refused, for a full table or a key outside an
  array, and then leaves the content alone; \<open>fits\<close> says which key sets a table holds.
  Three tables meet the contract: a Python dictionary (what the test suite passes), a hash table
  of bounded size and a fixed array.
\<close>

record ('m, 'k, 'v) table_ops =
  tbl_get :: "'m \<Rightarrow> 'k \<Rightarrow> 'v option"
  tbl_set :: "'k \<Rightarrow> 'v \<Rightarrow> ('m, unit) eff"
  tbl_del :: "'k \<Rightarrow> ('m, unit) eff"
  tbl_keys :: "'m \<Rightarrow> 'k list"

definition bounded_table :: "nat option \<Rightarrow> (('k \<times> 'v) list, 'k, 'v) table_ops" where
  "bounded_table max_entries = \<lparr>
     tbl_get = map_of,
     tbl_set = (\<lambda>k v m.
       if k \<in> fst ` set m then (Inr (), AList.update k v m)
       else case max_entries of
           None \<Rightarrow> (Inr (), AList.update k v m)
         | Some n \<Rightarrow> if length m < n then (Inr (), AList.update k v m)
                     else (Inl (OtherException ''Could not update table''), m)),
     tbl_del = (\<lambda>k m. if k \<in> fst ` set m then (Inr (), AList.delete k m)
                      else (Inl (KeyError ''key''), m)),
     tbl_keys = map fst \<rparr>"

definition array_table :: "('v::zero list, i32, 'v) table_ops" where
  "array_table = \<lparr>
     tbl_get = (\<lambda>m k. if unat k < length m then Some (m ! unat k) else None),
     tbl_set = (\<lambda>k v m. if unat k < length m then (Inr (), m[unat k := v])
                         else (Inl (OtherException ''Could not update table''), m)),
     tbl_del = (\<lambda>k m. if unat k < length m then (Inr (), m[unat k := 0])
                       else (Inl (OtherException ''Could not update table''), m)),
     tbl_keys = (\<lambda>m. map of_nat [0..<length m]) \<rparr>"

definition table_inv :: "('k \<times> 'v) list \<Rightarrow> bool" where
  "table_inv m = distinct (map fst m)"

definition table_fits :: "nat option \<Rightarrow> 'k set \<Rightarrow> bool" where
  "table_fits max_entries S = (finite S \<and> (case max_entries of None \<Rightarrow> True | Some n \<Rightarrow> card S \<le> n))"

definition array_inv :: "nat \<Rightarrow> 'v list \<Rightarrow> bool" where
  "array_inv n m = (length m = n \<and> n \<le> 2 ^ 32)"

definition array_fits :: "nat \<Rightarrow> i32 set \<Rightarrow> bool" where
  "array_fits n S = (\<forall>k \<in> S. unat k < n)"

section \<open>The contracts\<close>

locale bpf_table =
  fixes T :: "('m, 'k, 'v) table_ops"
    and inv :: "'m \<Rightarrow> bool"
    and fits :: "'k set \<Rightarrow> bool"
  assumes keys_dom: "inv m \<Longrightarrow> set (tbl_keys T m) = dom (tbl_get T m)"
    and set_ok: "inv m \<Longrightarrow> tbl_set T k v m = (Inr u, m') \<Longrightarrow>
      inv m' \<and> tbl_get T m' = (tbl_get T m)(k \<mapsto> v)"
    and set_refused: "inv m \<Longrightarrow> tbl_set T k v m = (Inl e, m') \<Longrightarrow>
      inv m' \<and> tbl_get T m' = tbl_get T m"
    and set_fits: "inv m \<Longrightarrow> fits (insert k (dom (tbl_get T m))) \<Longrightarrow>
      \<exists>m'. tbl_set T k v m = (Inr (), m')"
    and fits_subset: "fits S \<Longrightarrow> R \<subseteq> S \<Longrightarrow> fits R"
begin

lemma set_total:
  assumes "inv m" and "fits (insert k (dom (tbl_get T m)))"
  obtains m' where "tbl_set T k v m = (Inr (), m')" "inv m'" "tbl_get T m' = (tbl_get T m)(k \<mapsto> v)"
  using set_fits [OF assms, of v] set_ok [OF assms(1)] by blast

text \<open>Assigning a list of entries in turn: later ones win, as in \<open>map_of (rev kvs)\<close>.\<close>

lemma set_all:
  "inv m \<Longrightarrow> fits (dom (tbl_get T m) \<union> fst ` set kvs) \<Longrightarrow>
     \<exists>m'. forE kvs (\<lambda>kv. tbl_set T (fst kv) (snd kv)) m = (Inr (), m') \<and> inv m'
       \<and> tbl_get T m' = tbl_get T m ++ map_of (rev kvs)"
proof (induction kvs arbitrary: m)
  case Nil
  then show ?case by simp
next
  case (Cons kv kvs)
  obtain k v where kv: "kv = (k, v)" by (cases kv)
  have "fits (insert k (dom (tbl_get T m)))"
    using Cons.prems(2) by (rule fits_subset) (auto simp: kv)
  from set_total [OF Cons.prems(1) this, of v]
  obtain m1 where m1: "tbl_set T k v m = (Inr (), m1)" "inv m1"
      "tbl_get T m1 = (tbl_get T m)(k \<mapsto> v)" by blast
  have "fits (dom (tbl_get T m1) \<union> fst ` set kvs)"
    using Cons.prems(2) by (rule fits_subset) (auto simp: kv m1(3))
  from Cons.IH [OF m1(2) this] obtain m' where m': "inv m'"
      "forE kvs (\<lambda>kv. tbl_set T (fst kv) (snd kv)) m1 = (Inr (), m')"
      "tbl_get T m' = tbl_get T m1 ++ map_of (rev kvs)" by blast
  have "tbl_get T m1 ++ map_of (rev kvs) = tbl_get T m ++ map_of (rev (kv # kvs))"
    by (simp only: m1(3) kv) simp
  with m' show ?case by (intro exI [of _ m']) (simp add: kv bindE_def m1(1))
qed

text \<open>What a sequence of assignments has done once it has returned, whether or not it had to.\<close>

lemma set_run:
  "inv m \<Longrightarrow> forE xs (\<lambda>x. tbl_set T (g x) c) m = (Inr u, m') \<Longrightarrow>
     inv m' \<and> tbl_get T m' = (\<lambda>k. if k \<in> g ` set xs then Some c else tbl_get T m k)"
proof (induction xs arbitrary: m)
  case Nil
  then show ?case by simp
next
  case (Cons x xs)
  then obtain m1 where m1: "tbl_set T (g x) c m = (Inr (), m1)"
      "forE xs (\<lambda>x. tbl_set T (g x) c) m1 = (Inr u, m')" by (auto simp: eff_simps)
  from set_ok [OF Cons.prems(1) m1(1)] have "inv m1" "tbl_get T m1 = (tbl_get T m)(g x \<mapsto> c)" by auto
  with Cons.IH [OF _ m1(2)] show ?case by (auto simp: fun_eq_iff)
qed

end

locale bpf_hash = bpf_table T inv fits
  for T :: "('m, 'k, 'v) table_ops" and inv :: "'m \<Rightarrow> bool" and fits :: "'k set \<Rightarrow> bool" +
  assumes del_present: "inv m \<Longrightarrow> k \<in> dom (tbl_get T m) \<Longrightarrow>
      \<exists>m'. tbl_del T k m = (Inr (), m') \<and> inv m' \<and> tbl_get T m' = (tbl_get T m)(k := None)"
    and del_absent: "inv m \<Longrightarrow> k \<notin> dom (tbl_get T m) \<Longrightarrow> \<exists>e. tbl_del T k m = (Inl e, m)"
begin

lemma del_all:
  "inv m \<Longrightarrow> distinct ks \<Longrightarrow> set ks \<subseteq> dom (tbl_get T m) \<Longrightarrow>
     \<exists>m'. forE ks (tbl_del T) m = (Inr (), m') \<and> inv m' \<and> tbl_get T m' = tbl_get T m |` (- set ks)"
proof (induction ks arbitrary: m)
  case Nil
  then show ?case by simp
next
  case (Cons k ks)
  then obtain m1 where m1: "tbl_del T k m = (Inr (), m1)" "inv m1"
      "tbl_get T m1 = (tbl_get T m)(k := None)"
    using del_present by (metis insert_subset list.simps(15))
  have "set ks \<subseteq> dom (tbl_get T m1)" using Cons.prems by (auto simp: m1(3))
  with Cons.IH [OF m1(2)] Cons.prems(2) obtain m' where m': "inv m'"
      "forE ks (tbl_del T) m1 = (Inr (), m')" "tbl_get T m' = tbl_get T m1 |` (- set ks)" by auto
  have "tbl_get T m1 |` (- set ks) = tbl_get T m |` (- set (k # ks))"
    by (simp only: m1(3)) (auto simp: restrict_map_def)
  with m' show ?case by (intro exI [of _ m']) (simp add: bindE_def m1(1))
qed

lemma del_run:
  "inv m \<Longrightarrow> forE xs (\<lambda>x. tbl_del T (g x)) m = (Inr u, m') \<Longrightarrow>
     inv m' \<and> tbl_get T m' = tbl_get T m |` (- g ` set xs)"
proof (induction xs arbitrary: m)
  case Nil
  then show ?case by simp
next
  case (Cons x xs)
  then obtain m1 where m1: "tbl_del T (g x) m = (Inr (), m1)"
      "forE xs (\<lambda>x. tbl_del T (g x)) m1 = (Inr u, m')" by (auto simp: eff_simps)
  have "g x \<in> dom (tbl_get T m)" using del_absent [OF Cons.prems(1), of "g x"] m1(1) by fastforce
  from del_present [OF Cons.prems(1) this] m1(1)
  have "inv m1" "tbl_get T m1 = (tbl_get T m)(g x := None)" by auto
  with Cons.IH [OF _ m1(2)] show ?case by (auto simp: fun_eq_iff restrict_map_def)
qed

end

section \<open>Tables that meet the contracts\<close>

lemma alist_card: "distinct (map fst m) \<Longrightarrow> card (fst ` set m) = length m"
  by (metis card_image distinct_card distinct_map length_map list.set_map)

interpretation hash_table: bpf_hash "bounded_table max_entries" table_inv "table_fits max_entries"
proof unfold_locales
  fix m :: "('k \<times> 'v) list" and k :: 'k and v :: 'v
  assume i: "table_inv m" and f: "table_fits max_entries (insert k (dom (tbl_get (bounded_table max_entries) m)))"
  have "length m < n" if "max_entries = Some n" "k \<notin> fst ` set m" for n
    using f that i
    by (auto simp: bounded_table_def table_fits_def table_inv_def dom_map_of_conv_image_fst alist_card)
  then show "\<exists>m'. tbl_set (bounded_table max_entries) k v m = (Inr (), m')"
    by (auto simp: bounded_table_def split: option.split)
qed (auto simp: bounded_table_def table_inv_def table_fits_def dom_map_of_conv_image_fst
      update_conv' distinct_update delete_conv' distinct_delete fun_eq_iff
      dest: card_mono finite_subset split: option.splits if_splits)

interpretation port_array: bpf_table array_table "array_inv n" "array_fits n"
proof unfold_locales
  fix m :: "'v::zero list"
  assume "array_inv n m"
  then have l: "length m \<le> 2 ^ 32" by (simp add: array_inv_def)
  have "(k \<in> of_nat ` {0..<length m}) = (unat k < length m)" for k :: i32
  proof
    assume "k \<in> of_nat ` {0..<length m}"
    then obtain j where "k = of_nat j" "j < length m" by auto
    with l show "unat k < length m" by (simp add: unat_of_nat take_bit_nat_eq_self)
  next
    assume "unat k < length m"
    then show "k \<in> of_nat ` {0..<length m}" by (intro image_eqI [of _ _ "unat k"]) simp_all
  qed
  then show "set (tbl_keys array_table m) = dom (tbl_get array_table m)"
    by (auto simp: array_table_def dom_def)
qed (auto simp: array_table_def array_inv_def array_fits_def fun_eq_iff nth_list_update word_unat_eq_iff
      split: if_splits)

end
