(* ===== verification/Filtering.thy ===== *)
theory Filtering
  imports Net_Utils Ctypes_Helper Bpf_Tables
begin

text \<open>
  \<^verbatim>\<open>pidtree_bcc/filtering.py\<close>: the user-space filter \<open>NetFilter\<close>, the
  structures written into the kernel's tables, and the three loaders. Filters arrive as the
  values the YAML loader produced (\<open>pyval\<close>), so every missing key, malformed port or
  address and wrong type is a branch of the model. A Python set is iterated in an order the
  language does not fix: \<open>ord\<close> arguments stand for it.
\<close>

section \<open>The user-space filter\<close>

definition NET_FILTER_MAX_PORT_RANGES :: nat where
  "NET_FILTER_MAX_PORT_RANGES = 8"

record ip_port_filter =
  subnet :: int
  netmask :: int
  except_ports :: "int set"
  include_ports :: "int set"

definition py_ip_to_int :: "byteorder \<Rightarrow> pyval \<Rightarrow> int res" where
  "py_ip_to_int bo v = bindR (as_str v) (ip_to_int bo)"

definition int_set :: "pyval \<Rightarrow> int set res" where
  "int_set v = bindR (py_iter v) (\<lambda>xs. bindR (mapR py_int xs) (\<lambda>ns. Inr (set ns)))"

definition ip_port_filter_of :: "byteorder \<Rightarrow> pyval \<Rightarrow> ip_port_filter res" where
  "ip_port_filter_of bo f =
     bindR (py_index f ''network'') (\<lambda>nv. bindR (py_ip_to_int bo nv) (\<lambda>net.
     bindR (py_index f ''network_mask'') (\<lambda>mv. bindR (py_ip_to_int bo mv) (\<lambda>mask.
     bindR (py_get f ''except_ports'' (PList [])) (\<lambda>ev. bindR (int_set ev) (\<lambda>ex.
     bindR (py_get f ''include_ports'' (PList [])) (\<lambda>iv. bindR (int_set iv) (\<lambda>inc.
     Inr \<lparr>subnet = net AND mask, netmask = mask, except_ports = ex, include_ports = inc\<rparr>))))))))"

definition NetFilter :: "byteorder \<Rightarrow> pyval \<Rightarrow> ip_port_filter list res" where
  "NetFilter bo filters = bindR (py_iter filters) (mapR (ip_port_filter_of bo))"

fun is_filtered_int :: "ip_port_filter list \<Rightarrow> int \<Rightarrow> int \<Rightarrow> bool" where
  "is_filtered_int [] ip port = False"
| "is_filtered_int (f # fs) ip port =
     (if netmask f AND ip = subnet f \<and> port \<notin> except_ports f
         \<and> (include_ports f = {} \<or> port \<in> include_ports f)
      then True else is_filtered_int fs ip port)"

datatype ip_arg = IpInt int | IpStr string

definition is_filtered :: "byteorder \<Rightarrow> ip_port_filter list \<Rightarrow> ip_arg \<Rightarrow> int \<Rightarrow> bool res" where
  "is_filtered bo fs ip_address port =
     (case ip_address of
        IpInt ip \<Rightarrow> Inr (is_filtered_int fs ip port)
      | IpStr s \<Rightarrow> bindR (ip_to_int bo s) (\<lambda>ip. Inr (is_filtered_int fs ip port)))"

section \<open>The structures of the kernel tables\<close>

record cport_range =
  lower :: u16
  upper :: u16

record cfilter_key =
  prefixlen :: u32
  data :: u32

record cfilter_value =
  mode :: i32
  range_size :: u8
  ranges :: "cport_range list"

datatype PortFilterMode = mode_all | mode_exclude | mode_include

fun mode_value :: "PortFilterMode \<Rightarrow> int" where
  "mode_value mode_all = 0"
| "mode_value mode_exclude = 1"
| "mode_value mode_include = 2"

text \<open>Storing a Python value in an unsigned ctypes field: integers wrap, others are refused.\<close>

definition ct_uint :: "pyval \<Rightarrow> 'w::len word res" where
  "ct_uint v = (case v of PInt i \<Rightarrow> Inr (of_int i) | PBool b \<Rightarrow> Inr (if b then 1 else 0)
     | _ \<Rightarrow> Inl TypeError)"

definition CPortRange :: "pyval \<Rightarrow> pyval \<Rightarrow> cport_range res" where
  "CPortRange lo up = bindR (ct_uint lo) (\<lambda>l. bindR (ct_uint up) (\<lambda>u. Inr \<lparr>lower = l, upper = u\<rparr>))"

text \<open>\<open>lo, up = map(int, s.split('-'))\<close>: exactly two numbers.\<close>

definition two_ints :: "string \<Rightarrow> (int \<times> int) res" where
  "two_ints s = bindR (mapR int_of_str (split_on (CHR ''-'') s)) (\<lambda>ns.
     case ns of [a, b] \<Rightarrow> Inr (a, b) | _ \<Rightarrow> Inl ValueError)"

definition is_range_str :: "pyval \<Rightarrow> bool" where
  "is_range_str v = (case v of PStr s \<Rightarrow> CHR ''-'' \<in> set s | _ \<Rightarrow> False)"

definition from_conf_value :: "pyval \<Rightarrow> cport_range res" where
  "from_conf_value val =
     (if is_range_str val
      then bindR (as_str val) (\<lambda>s. bindR (two_ints s) (\<lambda>(a, b). CPortRange (PInt a) (PInt b)))
      else CPortRange val val)"

definition from_network_definition :: "byteorder \<Rightarrow> pyval \<Rightarrow> pyval \<Rightarrow> cfilter_key res" where
  "from_network_definition bo nm ip =
     bindR (py_ip_to_int bo ip) (\<lambda>addr.
     bindR (py_ip_to_int bo nm) (\<lambda>bitmask.
     bindR (as_str nm) (\<lambda>s. bindR (netmask_to_prefixlen s) (\<lambda>plen.
     Inr \<lparr>prefixlen = of_nat plen, data = of_int (addr AND bitmask)\<rparr>))))"

definition zero_range :: cport_range where
  "zero_range = \<lparr>lower = 0, upper = 0\<rparr>"

text \<open>\<open>CFilterValue.range_array_t(*rs)\<close>: eight elements, the missing ones zero.\<close>

definition range_array :: "cport_range list \<Rightarrow> cport_range list res" where
  "range_array rs =
     (if NET_FILTER_MAX_PORT_RANGES < length rs then Inl IndexError
      else Inr (rs @ replicate (NET_FILTER_MAX_PORT_RANGES - length rs) zero_range))"

definition CFilterValue :: "PortFilterMode \<Rightarrow> cport_range list \<Rightarrow> cfilter_value res" where
  "CFilterValue md rs = bindR (range_array rs) (\<lambda>arr.
     Inr \<lparr>mode = of_int (mode_value md), range_size = of_nat (length rs), ranges = arr\<rparr>)"

definition port_ranges :: "pyval \<Rightarrow> string \<Rightarrow> cport_range list res" where
  "port_ranges entry key = bindR (py_index entry key) (\<lambda>v. bindR (py_iter v) (mapR from_conf_value))"

text \<open>\<open>except_ports\<close> wins over \<open>include_ports\<close>; an empty list counts as absent.\<close>

definition filter_value_of :: "pyval \<Rightarrow> cfilter_value res" where
  "filter_value_of entry =
     bindR (py_get entry ''except_ports'' PNone) (\<lambda>ev.
     if truthy ev then bindR (port_ranges entry ''except_ports'') (CFilterValue mode_exclude)
     else bindR (py_get entry ''include_ports'' PNone) (\<lambda>iv.
       if truthy iv then bindR (port_ranges entry ''include_ports'') (CFilterValue mode_include)
       else CFilterValue mode_all []))"

definition filter_key_of :: "byteorder \<Rightarrow> pyval \<Rightarrow> cfilter_key res" where
  "filter_key_of bo entry =
     bindR (py_index entry ''network_mask'') (\<lambda>nm.
     bindR (py_index entry ''network'') (\<lambda>ip. from_network_definition bo nm ip))"

section \<open>The loaders\<close>

definition port_range_mapper :: "string \<Rightarrow> int list res" where
  "port_range_mapper port_range = bindR (two_ints port_range) (\<lambda>(from_p, to_p).
     Inr (py_range (max 1 from_p) (min 65535 (to_p + 1))))"

definition load_filter_entry ::
    "byteorder \<Rightarrow> ('m, cfilter_key, cfilter_value) table_ops \<Rightarrow> pyval \<Rightarrow> ('m, cfilter_key) eff" where
  "load_filter_entry bo T entry =
     bindE (liftR (filter_key_of bo entry)) (\<lambda>map_key.
     bindE (liftR (filter_value_of entry)) (\<lambda>val.
     bindE (tbl_set T map_key val) (\<lambda>_. retE map_key)))"

fun load_filter_entries ::
    "byteorder \<Rightarrow> ('m, cfilter_key, cfilter_value) table_ops \<Rightarrow> pyval list \<Rightarrow> cfilter_key list \<Rightarrow>
       ('m, cfilter_key list) eff" where
  "load_filter_entries bo T [] leftovers = retE leftovers"
| "load_filter_entries bo T (entry # es) leftovers =
     bindE (load_filter_entry bo T entry) (\<lambda>map_key.
       load_filter_entries bo T es (removeAll map_key leftovers))"

definition load_filters_into_map ::
    "byteorder \<Rightarrow> (cfilter_key list \<Rightarrow> cfilter_key list) \<Rightarrow>
       ('m, cfilter_key, cfilter_value) table_ops \<Rightarrow> pyval list \<Rightarrow> bool \<Rightarrow> ('m, unit) eff" where
  "load_filters_into_map bo ord T filters do_diff m =
     (let leftovers = (if do_diff then remdups (tbl_keys T m) else [])
      in bindE (load_filter_entries bo T filters leftovers)
           (\<lambda>ls. forE (ord ls) (\<lambda>key. tbl_del T key)) m)"

definition port_elements :: "pyval \<Rightarrow> int list res" where
  "port_elements v =
     (if is_range_str v then bindR (as_str v) port_range_mapper
      else bindR (py_int v) (\<lambda>p. Inr [p]))"

definition portset_of :: "pyval list \<Rightarrow> int list res" where
  "portset_of filters = bindR (mapR port_elements filters) (\<lambda>pss. Inr (remdups (concat pss)))"

definition c_int :: "int \<Rightarrow> i32" where
  "c_int p = of_int p"

definition active_ports :: "('m, i32, u8) table_ops \<Rightarrow> 'm \<Rightarrow> int list" where
  "active_ports T m = remdups [sint k. k \<leftarrow> tbl_keys T m,
     case tbl_get T m k of None \<Rightarrow> False | Some v \<Rightarrow> 0 < v, 0 < sint k]"

definition load_port_filters_into_map ::
    "(int list \<Rightarrow> int list) \<Rightarrow> ('m, i32, u8) table_ops \<Rightarrow> pyval list \<Rightarrow> PortFilterMode \<Rightarrow> bool \<Rightarrow>
       ('m, unit) eff" where
  "load_port_filters_into_map ord T filters md do_diff m =
     (if md \<noteq> mode_include \<and> md \<noteq> mode_exclude then raiseE ValueError m
      else let current_state = (if do_diff then active_ports T m else [])
        in bindE (liftR (portset_of filters)) (\<lambda>portset.
           let leftovers = filter (\<lambda>p. p \<notin> set portset) current_state
           in bindE (forE (ord portset) (\<lambda>port. tbl_set T (c_int port) 1)) (\<lambda>_.
              bindE (forE (ord leftovers) (\<lambda>port. tbl_set T (c_int port) 0)) (\<lambda>_.
              tbl_set T (c_int 0) (of_int (mode_value md))))) m)"

text \<open>
  The keys of the integer sets are written as \<open>ctypes.c_int(val)\<close> and read back as the
  table's own key type: \<open>enc\<close> and \<open>dec\<close> stand for that conversion.
\<close>

definition load_intset_into_map ::
    "(int \<Rightarrow> 'k) \<Rightarrow> ('k \<Rightarrow> int) \<Rightarrow> (int list \<Rightarrow> int list) \<Rightarrow> ('m, 'k, u8) table_ops \<Rightarrow> int list \<Rightarrow>
       bool \<Rightarrow> bool \<Rightarrow> ('m, unit) eff" where
  "load_intset_into_map enc dec ord T intset do_diff delete m =
     (if delete then forE (ord intset) (\<lambda>val. tbl_del T (enc val)) m
      else let current_state = (if do_diff then remdups (map dec (tbl_keys T m)) else []);
               to_delete = filter (\<lambda>v. v \<notin> set intset) current_state
        in bindE (forE (ord intset) (\<lambda>val. tbl_set T (enc val) 1)) (\<lambda>_.
             forE (ord to_delete) (\<lambda>val. tbl_del T (enc val))) m)"

text \<open>What one filter of the configuration becomes: a key and a value, or the error it raises.\<close>

definition filter_entry_of :: "byteorder \<Rightarrow> pyval \<Rightarrow> (cfilter_key \<times> cfilter_value) res" where
  "filter_entry_of bo entry =
     bindR (filter_key_of bo entry) (\<lambda>k. bindR (filter_value_of entry) (\<lambda>v. Inr (k, v)))"

section \<open>The user-space answer\<close>

definition ip_port_match :: "ip_port_filter \<Rightarrow> int \<Rightarrow> int \<Rightarrow> bool" where
  "ip_port_match f ip port = (netmask f AND ip = subnet f \<and> port \<notin> except_ports f
     \<and> (include_ports f = {} \<or> port \<in> include_ports f))"

lemma is_filtered_int_iff: "is_filtered_int fs ip port = (\<exists>f \<in> set fs. ip_port_match f ip port)"
  by (induction fs) (auto simp: ip_port_match_def)

section \<open>Loading the network filters\<close>

lemma load_filter_entry_ok:
  "filter_entry_of bo entry = Inr (k, v) \<Longrightarrow>
     load_filter_entry bo T entry = bindE (tbl_set T k v) (\<lambda>_. retE k)"
  by (auto simp: filter_entry_of_def load_filter_entry_def res_simps bindE_def fun_eq_iff)

lemma load_filter_entry_error:
  "filter_entry_of bo entry = Inl e \<Longrightarrow> load_filter_entry bo T entry m = (Inl e, m)"
  by (auto simp: filter_entry_of_def load_filter_entry_def res_simps bindE_def)

lemma load_filter_entries_append:
  "mapR (filter_entry_of bo) es = Inr kvs \<Longrightarrow>
     load_filter_entries bo T (es @ rest) ls m =
       bindE (forE kvs (\<lambda>kv. tbl_set T (fst kv) (snd kv)))
         (\<lambda>_. load_filter_entries bo T rest (filter (\<lambda>k. k \<notin> fst ` set kvs) ls)) m"
proof (induction es arbitrary: kvs ls m)
  case Nil
  then show ?case by (simp add: bindE_def)
next
  case (Cons e es)
  from Cons.prems obtain k v kvs' where e: "filter_entry_of bo e = Inr (k, v)"
      and kvs': "mapR (filter_entry_of bo) es = Inr kvs'" "kvs = (k, v) # kvs'"
    by (auto simp: res_simps)
  have ls: "filter (\<lambda>x. x \<notin> fst ` set kvs') (removeAll k ls) = filter (\<lambda>x. x \<notin> fst ` set kvs) ls"
    by (induction ls) (auto simp: kvs'(2))
  show ?case
    using Cons.IH [OF kvs'(1), of "removeAll k ls"] unfolding ls
    by (simp add: load_filter_entry_ok [OF e] kvs'(2) bindE_def split: prod.splits sum.splits)
qed

lemma load_filter_entries_ok:
  "mapR (filter_entry_of bo) es = Inr kvs \<Longrightarrow>
     load_filter_entries bo T es ls m =
       bindE (forE kvs (\<lambda>kv. tbl_set T (fst kv) (snd kv)))
         (\<lambda>_. retE (filter (\<lambda>k. k \<notin> fst ` set kvs) ls)) m"
  using load_filter_entries_append [of bo es kvs T "[]" ls m] by simp

lemma load_filters_diff_keys:
  "map_of (rev kvs) = (f ++ map_of (rev kvs)) |` (- (dom f - fst ` set kvs))"
proof
  fix k
  have "k \<notin> fst ` set kvs \<Longrightarrow> map_of (rev kvs) k = None" by (simp add: map_of_eq_None_iff)
  moreover have "k \<in> fst ` set kvs \<Longrightarrow> map_of (rev kvs) k \<noteq> None" by (simp add: map_of_eq_None_iff)
  ultimately show "map_of (rev kvs) k = ((f ++ map_of (rev kvs)) |` (- (dom f - fst ` set kvs))) k"
    by (cases "k \<in> fst ` set kvs"; cases "f k") (auto simp: restrict_map_def map_add_def)
qed

locale filter_table = bpf_hash T inv fits
  for T :: "('m, cfilter_key, cfilter_value) table_ops" and inv :: "'m \<Rightarrow> bool"
    and fits :: "cfilter_key set \<Rightarrow> bool"
begin

lemma load_filters_content:
  assumes "inv m" and "set_order ord"
    and kvs: "mapR (filter_entry_of bo) filters = Inr kvs"
    and "fits (dom (tbl_get T m) \<union> fst ` set kvs)"
  shows "\<exists>m'. load_filters_into_map bo ord T filters do_diff m = (Inr (), m') \<and> inv m' \<and>
     tbl_get T m' = (if do_diff then map_of (rev kvs) else tbl_get T m ++ map_of (rev kvs))"
proof -
  obtain m1 where m1: "forE kvs (\<lambda>kv. tbl_set T (fst kv) (snd kv)) m = (Inr (), m1)" "inv m1"
      "tbl_get T m1 = tbl_get T m ++ map_of (rev kvs)"
    using set_all assms by blast
  show ?thesis
  proof (cases do_diff)
    case False
    then show ?thesis
      using m1 assms(2)
      by (simp add: load_filters_into_map_def load_filter_entries_ok [OF kvs] bindE_def)
  next
    case True
    define ls where "ls = filter (\<lambda>k. k \<notin> fst ` set kvs) (remdups (tbl_keys T m))"
    have set_ls: "set ls = dom (tbl_get T m) - fst ` set kvs"
      by (auto simp: ls_def keys_dom [OF assms(1)])
    have "distinct (ord ls)" "set (ord ls) \<subseteq> dom (tbl_get T m1)"
      using assms(2) by (auto simp: set_ls m1(3)) (simp add: ls_def)
    then obtain m2 where m2: "forE (ord ls) (tbl_del T) m1 = (Inr (), m2)" "inv m2"
        "tbl_get T m2 = tbl_get T m1 |` (- set (ord ls))"
      using del_all [OF m1(2)] by blast
    have "tbl_get T m2 = map_of (rev kvs)"
      using load_filters_diff_keys [of kvs "tbl_get T m"] assms(2) by (simp add: m2(3) m1(3) set_ls)
    with True m1 m2 show ?thesis
      by (simp add: load_filters_into_map_def load_filter_entries_ok [OF kvs] bindE_def ls_def)
  qed
qed

lemma load_filters_error:
  assumes "inv m"
    and kvs: "mapR (filter_entry_of bo) es = Inr kvs" and bad: "filter_entry_of bo e = Inl x"
    and "fits (dom (tbl_get T m) \<union> fst ` set kvs)"
  shows "\<exists>m'. load_filters_into_map bo ord T (es @ e # rest) do_diff m = (Inl x, m') \<and> inv m' \<and>
     tbl_get T m' = tbl_get T m ++ map_of (rev kvs)"
proof -
  obtain m1 where "forE kvs (\<lambda>kv. tbl_set T (fst kv) (snd kv)) m = (Inr (), m1)" "inv m1"
      "tbl_get T m1 = tbl_get T m ++ map_of (rev kvs)"
    using set_all assms by blast
  then show ?thesis
    by (simp add: load_filters_into_map_def Let_def bindE_def
        load_filter_entries_append [OF kvs] load_filter_entry_error [OF bad])
qed

end

section \<open>Loading the port filters\<close>

lemma c_int_sint [simp]: "c_int (sint k) = k"
  by (simp add: c_int_def)

lemma sint_c_int: "0 \<le> p \<Longrightarrow> p < 2 ^ 31 \<Longrightarrow> sint (c_int p) = p"
  by (simp add: c_int_def sint_sbintrunc' signed_take_bit_int_eq_self)

lemma c_int_eq:
  "0 \<le> p \<Longrightarrow> p \<le> 65535 \<Longrightarrow> 0 \<le> q \<Longrightarrow> q \<le> 65535 \<Longrightarrow> (c_int p = c_int q) = (p = q)"
proof
  assume h: "0 \<le> p" "p \<le> 65535" "0 \<le> q" "q \<le> 65535" and "c_int p = c_int q"
  then have "sint (c_int p) = sint (c_int q)" by simp
  moreover have "sint (c_int p) = p" "sint (c_int q) = q" using h by (simp_all add: sint_c_int)
  ultimately show "p = q" by simp
qed simp

locale port_table = bpf_table T inv fits
  for T :: "('m, i32, u8) table_ops" and inv :: "'m \<Rightarrow> bool" and fits :: "i32 set \<Rightarrow> bool"
begin

lemma set_ports:
  assumes "inv m" and "fits (dom (tbl_get T m))" and "\<forall>p \<in> set ps. c_int p \<in> dom (tbl_get T m)"
  shows "\<exists>m'. forE ps (\<lambda>port. tbl_set T (c_int port) c) m = (Inr (), m') \<and> inv m' \<and>
     tbl_get T m' = (\<lambda>k. if k \<in> c_int ` set ps then Some c else tbl_get T m k)"
proof -
  have "dom (tbl_get T m) \<union> fst ` set (map (\<lambda>p. (c_int p, c)) ps) = dom (tbl_get T m)"
    using assms(3) by auto
  with set_all [OF assms(1), of "map (\<lambda>p. (c_int p, c)) ps"] assms(2)
  obtain m' where "forE ps (\<lambda>p. tbl_set T (c_int p) c) m = (Inr (), m')" "inv m'"
      "tbl_get T m' = tbl_get T m ++ map_of (map (\<lambda>p. (c_int p, c)) (rev ps))"
    by (auto simp: forE_map rev_map)
  then show ?thesis
    by (auto simp: map_of_const map_add_def fun_eq_iff split: option.splits if_splits)
qed

lemma active_ports_iff:
  "inv m \<Longrightarrow> p \<in> set (active_ports T m) \<longleftrightarrow> (\<exists>v. tbl_get T m (c_int p) = Some v \<and> 0 < v \<and> 0 < p
     \<and> sint (c_int p) = p)"
proof -
  assume "inv m"
  then have "p \<in> set (active_ports T m) \<longleftrightarrow>
      (\<exists>k v. tbl_get T m k = Some v \<and> 0 < v \<and> 0 < sint k \<and> p = sint k)"
    unfolding active_ports_def by (force simp: keys_dom split: option.splits if_splits)
  then show ?thesis by (metis c_int_sint)
qed

lemma load_port_filters_content:
  assumes "inv m" and "fits (dom (tbl_get T m))" and "set_order ord" and "md \<noteq> mode_all"
    and "portset_of filters = Inr ports" and "\<forall>p \<in> set ports. 0 \<le> p \<and> p \<le> 65535"
    and "\<forall>p. 0 \<le> p \<and> p \<le> 65535 \<longrightarrow> c_int p \<in> dom (tbl_get T m)"
  shows "\<exists>m'. load_port_filters_into_map ord T filters md do_diff m = (Inr (), m') \<and> inv m' \<and>
     tbl_get T m' (c_int 0) = Some (of_int (mode_value md)) \<and>
     (\<forall>p. 0 < p \<and> p \<le> 65535 \<longrightarrow> tbl_get T m' (c_int p) =
        (if p \<in> set ports then Some 1 else if do_diff then Some 0 else tbl_get T m (c_int p)))"
proof -
  define ls where "ls = filter (\<lambda>p. p \<notin> set ports) (if do_diff then active_ports T m else [])"
  obtain m1 where m1: "forE (ord ports) (\<lambda>p. tbl_set T (c_int p) 1) m = (Inr (), m1)" "inv m1"
      "tbl_get T m1 = (\<lambda>k. if k \<in> c_int ` set ports then Some 1 else tbl_get T m k)"
    using set_ports [OF assms(1,2), of "ord ports" 1] assms(3,6,7) by auto
  have "c_int ` set ports \<subseteq> dom (tbl_get T m)" using assms(6,7) by blast
  then have dom1: "dom (tbl_get T m1) = dom (tbl_get T m)"
    unfolding m1(3) by (auto simp: dom_def split: if_splits)
  have ls: "\<forall>p \<in> set (ord ls). c_int p \<in> dom (tbl_get T m1)"
    using assms(3) active_ports_iff [OF assms(1)] by (auto simp: ls_def dom1 split: if_splits)
  obtain m2 where m2: "forE (ord ls) (\<lambda>p. tbl_set T (c_int p) 0) m1 = (Inr (), m2)" "inv m2"
      "tbl_get T m2 = (\<lambda>k. if k \<in> c_int ` set ls then Some 0 else tbl_get T m1 k)"
    using set_ports [OF m1(2) _ ls, of 0] assms(2,3) by (auto simp: dom1)
  have "c_int ` set ls \<subseteq> dom (tbl_get T m1)" using ls assms(3) by auto
  then have dom2: "dom (tbl_get T m2) = dom (tbl_get T m)"
    unfolding m2(3) dom1 [symmetric] by (auto simp: dom_def split: if_splits)
  have "fits (insert (c_int 0) (dom (tbl_get T m2)))"
    using assms(2,7) by (simp add: dom2 insert_absorb)
  from set_total [OF m2(2) this] obtain m3
    where m3: "tbl_set T (c_int 0) (of_int (mode_value md)) m2 = (Inr (), m3)" "inv m3"
      "tbl_get T m3 = (tbl_get T m2)(c_int 0 \<mapsto> of_int (mode_value md))" by blast
  have run: "load_port_filters_into_map ord T filters md do_diff m = (Inr (), m3)"
    using assms(4,5) m1(1) m2(1) m3(1)
    by (cases md) (simp_all add: load_port_filters_into_map_def Let_def bindE_def ls_def)
  have "tbl_get T m3 (c_int p) =
      (if p \<in> set ports then Some 1 else if do_diff then Some 0 else tbl_get T m (c_int p))"
    if p: "0 < p" "p \<le> 65535" for p
  proof -
    have mem: "(c_int p \<in> c_int ` set ports) = (p \<in> set ports)"
      using assms(6) p by (auto simp: c_int_eq)
    have "(c_int p \<in> c_int ` set ls) = (p \<in> set ls)"
    proof
      assume "c_int p \<in> c_int ` set ls"
      then obtain q where q: "c_int p = c_int q" "q \<in> set ls" by blast
      then have "sint (c_int q) = q"
        using active_ports_iff [OF assms(1), of q] by (auto simp: ls_def split: if_splits)
      with q p have "q = p" by (simp add: sint_c_int flip: q(1))
      with q show "p \<in> set ls" by simp
    qed simp
    moreover have "p \<in> set ls \<longleftrightarrow> p \<notin> set ports \<and> do_diff \<and> tbl_get T m (c_int p) \<noteq> Some 0"
    proof -
      have "c_int p \<in> dom (tbl_get T m)" using assms(7) p by simp
      then obtain v where "tbl_get T m (c_int p) = Some v" by blast
      then show ?thesis
        using active_ports_iff [OF assms(1), of p] p
        by (auto simp: ls_def sint_c_int word_neq_0_conv)
    qed
    ultimately show ?thesis
      using p mem c_int_eq [of p 0] by (auto simp: m3(3) m2(3) m1(3))
  qed
  with run m3 show ?thesis by auto
qed

end

section \<open>Loading integer sets\<close>

lemma enc_dec_diff:
  assumes "\<forall>v \<in> X. dec (enc v) = v" and "\<forall>k \<in> D. enc (dec k) = k"
  shows "enc ` (dec ` D - X) = D - enc ` X"
proof (intro set_eqI iffI)
  fix k
  assume "k \<in> enc ` (dec ` D - X)"
  then obtain d where d: "d \<in> D" "dec d \<notin> X" "k = enc (dec d)" by blast
  then have k: "k = d" using assms(2) by simp
  have "d \<notin> enc ` X"
  proof
    assume "d \<in> enc ` X"
    then obtain v where "v \<in> X" "d = enc v" by blast
    with assms(1) d(2) show False by simp
  qed
  with k d(1) show "k \<in> D - enc ` X" by simp
next
  fix k
  assume k: "k \<in> D - enc ` X"
  then have "enc (dec k) = k" using assms(2) by simp
  moreover from this k have "dec k \<notin> X" by (metis DiffD2 imageI)
  ultimately show "k \<in> enc ` (dec ` D - X)" using k by (metis DiffD1 DiffI imageI)
qed

locale intset_table = bpf_hash T inv fits
  for T :: "('m, 'k, u8) table_ops" and inv :: "'m \<Rightarrow> bool" and fits :: "'k set \<Rightarrow> bool"
begin

lemma load_intset_content:
  assumes "inv m" and "set_order ord" and "fits (dom (tbl_get T m) \<union> enc ` set xs)"
    and "\<forall>v \<in> set xs. dec (enc v) = v" and "\<forall>k \<in> dom (tbl_get T m). enc (dec k) = k"
  shows "\<exists>m'. load_intset_into_map enc dec ord T xs do_diff False m = (Inr (), m') \<and> inv m' \<and>
     tbl_get T m' = (\<lambda>k. if k \<in> enc ` set xs then Some 1
                        else if do_diff then None else tbl_get T m k)"
proof -
  define ls where
    "ls = filter (\<lambda>v. v \<notin> set xs) (if do_diff then remdups (map dec (tbl_keys T m)) else [])"
  have "fits (dom (tbl_get T m) \<union> fst ` set (map (\<lambda>v. (enc v, 1 :: u8)) (ord xs)))"
    using assms(2,3) by (simp add: image_image)
  from set_all [OF assms(1) this] obtain m1
    where m1: "forE (ord xs) (\<lambda>v. tbl_set T (enc v) 1) m = (Inr (), m1)" "inv m1"
      and g1: "tbl_get T m1 = tbl_get T m ++ map_of (map (\<lambda>v. (enc v, 1)) (rev (ord xs)))"
    by (auto simp: forE_map rev_map)
  have g1': "tbl_get T m1 k = (if k \<in> enc ` set xs then Some 1 else tbl_get T m k)" for k
    unfolding g1 map_add_def map_of_const using assms(2) by simp
  have sls: "set ls = (if do_diff then dec ` dom (tbl_get T m) - set xs else {})"
    by (auto simp: ls_def keys_dom [OF assms(1)])
  have els: "enc ` set ls = (if do_diff then dom (tbl_get T m) - enc ` set xs else {})"
  proof (cases do_diff)
    case True
    with enc_dec_diff [OF assms(4,5)] show ?thesis by (simp add: sls)
  qed (simp add: sls)
  have inj: "inj_on enc (set ls)"
  proof (rule inj_on_inverseI [of _ dec])
    fix v
    assume "v \<in> set ls"
    then obtain k where "k \<in> dom (tbl_get T m)" "v = dec k" by (auto simp: sls split: if_splits)
    with assms(5) show "dec (enc v) = v" by simp
  qed
  have "distinct (map enc (ord ls))"
    using inj assms(2) by (simp add: distinct_map) (simp add: ls_def)
  moreover have "set (map enc (ord ls)) \<subseteq> dom (tbl_get T m1)"
    using assms(2) by (auto simp: els g1' dom_def split: if_splits)
  ultimately obtain m2 where m2: "forE (ord ls) (\<lambda>v. tbl_del T (enc v)) m1 = (Inr (), m2)" "inv m2"
      and g2: "tbl_get T m2 = tbl_get T m1 |` (- set (map enc (ord ls)))"
    using del_all [OF m1(2), of "map enc (ord ls)"] by (auto simp: forE_map)
  have "tbl_get T m2 k = (if k \<in> enc ` set xs then Some 1
      else if do_diff then None else tbl_get T m k)" for k
    using assms(2) by (auto simp: g2 els g1' restrict_map_def)
  with m1(1) m2 show ?thesis
    by (auto simp: load_intset_into_map_def Let_def bindE_def ls_def)
qed

lemma load_intset_delete:
  assumes "inv m" and "set_order ord" and "distinct xs" and "inj_on enc (set xs)"
    and "enc ` set xs \<subseteq> dom (tbl_get T m)"
  shows "\<exists>m'. load_intset_into_map enc dec ord T xs do_diff True m = (Inr (), m') \<and> inv m' \<and>
     tbl_get T m' = tbl_get T m |` (- enc ` set xs)"
  using del_all [OF assms(1), of "map enc (ord xs)"] assms(2-)
  by (auto simp: load_intset_into_map_def forE_map distinct_map)

end

section \<open>What the loaders promise\<close>

interpretation net_filter_map:
  filter_table "bounded_table max_entries" table_inv "table_fits max_entries"
  by (rule filter_table.intro) (rule hash_table.bpf_hash_axioms)

interpretation port_filter_map: port_table array_table "array_inv n" "array_fits n"
  by (rule port_table.intro) (rule port_array.bpf_table_axioms)

interpretation mntns_filter_map:
  intset_table "bounded_table max_entries" table_inv "table_fits max_entries"
  by (rule intset_table.intro) (rule hash_table.bpf_hash_axioms)

text \<open>
  Property C1. When every filter of the list is well formed and the table has room for the new keys
  beside the present ones, loading succeeds. A load that diffs leaves exactly the listed filters in
  the table, whatever it held before, the last filter of a network winning; a load that does not
  diff adds them to what is there.
\<close>

theorem load_filters_into_map_content:
  assumes "filter_table T I fits" and "I m" and "set_order ord"
    and "mapR (filter_entry_of bo) filters = Inr kvs"
    and "fits (dom (tbl_get T m) \<union> fst ` set kvs)"
  shows "\<exists>m'. load_filters_into_map bo ord T filters do_diff m = (Inr (), m') \<and> I m' \<and>
     tbl_get T m' = (if do_diff then map_of (rev kvs) else tbl_get T m ++ map_of (rev kvs))"
  by (rule filter_table.load_filters_content [OF assms])

text \<open>The filters of an example configuration, and the entries they become.\<close>

definition example_filters :: "pyval list" where
  "example_filters =
    [PDict [(''network'', PStr ''127.0.0.1''), (''network_mask'', PStr ''255.0.0.0'')],
     PDict [(''network'', PStr ''10.1.2.3''), (''network_mask'', PStr ''255.0.0.0''),
            (''except_ports'', PList [PInt 123, PStr ''400-500''])]]"

definition example_entries :: "(cfilter_key \<times> cfilter_value) list" where
  "example_entries =
    [(\<lparr>prefixlen = 8, data = 127\<rparr>,
      \<lparr>mode = 0, range_size = 0, ranges = replicate 8 zero_range\<rparr>),
     (\<lparr>prefixlen = 8, data = 10\<rparr>,
      \<lparr>mode = 1, range_size = 2,
       ranges = \<lparr>lower = 123, upper = 123\<rparr> # \<lparr>lower = 400, upper = 500\<rparr> # replicate 6 zero_range\<rparr>)]"

lemmas conf_simps = from_conf_value_def is_range_str_def as_str_def two_ints_def CPortRange_def
  ct_uint_def int_of_str_def py_strip_def py_space_def py_index_def py_get_def py_iter_def truthy_def

lemma example_addresses:
  "ip_to_int LittleEndian ''127.0.0.1'' = Inr 16777343"
  "ip_to_int LittleEndian ''10.1.2.3'' = Inr 50462986"
  "ip_to_int LittleEndian ''255.0.0.0'' = Inr 255"
  by (simp_all add: ip_to_int_eval octet_simps unpack_native_def)

lemma example_netmask: "netmask_to_prefixlen ''255.0.0.0'' = Inr 8"
  by (rule netmask_eval) (simp_all add: ip_int_from_string_def octet_simps be_int_def)

lemma example_entries_of: "mapR (filter_entry_of LittleEndian) example_filters = Inr example_entries"
  by (simp add: example_filters_def example_entries_def filter_entry_of_def filter_key_of_def
      filter_value_of_def from_network_definition_def py_ip_to_int_def port_ranges_def
      CFilterValue_def range_array_def NET_FILTER_MAX_PORT_RANGES_def conf_simps octet_simps
      example_addresses example_netmask)

theorem load_filters_into_map_content_witness:
  "\<exists>m'. load_filters_into_map LittleEndian (\<lambda>xs. xs) (bounded_table (Some 512)) example_filters True
       [(\<lparr>prefixlen = 16, data = 43200\<rparr>, snd (hd example_entries))] = (Inr (), m') \<and>
     tbl_get (bounded_table (Some 512)) m' = map_of (rev example_entries)"
  using load_filters_into_map_content [OF net_filter_map.filter_table_axioms [of "Some 512"]
      _ set_order_id example_entries_of,
      of "[(\<lparr>prefixlen = 16, data = 43200\<rparr>, snd (hd example_entries))]" True]
  by (auto simp: table_inv_def table_fits_def bounded_table_def example_entries_def)

text \<open>
  Property C35. A malformed filter stops the load with its error. The filters before it are in the
  table by then, and nothing that was there is removed, not even in a load that diffs.
\<close>

theorem load_filters_into_map_error:
  assumes "filter_table T I fits" and "I m"
    and "mapR (filter_entry_of bo) es = Inr kvs" and "filter_entry_of bo e = Inl x"
    and "fits (dom (tbl_get T m) \<union> fst ` set kvs)"
  shows "\<exists>m'. load_filters_into_map bo ord T (es @ e # rest) do_diff m = (Inl x, m') \<and> I m' \<and>
     tbl_get T m' = tbl_get T m ++ map_of (rev kvs)"
  by (rule filter_table.load_filters_error [OF assms])

theorem load_filters_into_map_error_witness:
  "\<exists>m'. load_filters_into_map LittleEndian (\<lambda>xs. xs) (bounded_table None)
       (example_filters @ PDict [(''network'', PStr ''10.0.0.0'')] # []) True
       [(\<lparr>prefixlen = 16, data = 43200\<rparr>, snd (hd example_entries))]
       = (Inl (KeyError ''network_mask''), m') \<and>
     tbl_get (bounded_table None) m' \<lparr>prefixlen = 16, data = 43200\<rparr> \<noteq> None"
proof -
  let ?m = "[(\<lparr>prefixlen = 16, data = 43200\<rparr>, snd (hd example_entries))]"
  have "filter_entry_of LittleEndian (PDict [(''network'', PStr ''10.0.0.0'')])
      = Inl (KeyError ''network_mask'')"
    by (simp add: filter_entry_of_def filter_key_of_def py_index_def)
  from load_filters_into_map_error [OF net_filter_map.filter_table_axioms [of None] _
      example_entries_of this, of ?m "\<lambda>xs. xs" "[]" True]
  show ?thesis
    by (auto simp: table_inv_def table_fits_def bounded_table_def example_entries_def)
qed

text \<open>
  Property C40. A port range \<open>a-b\<close> stands for the ports from \<open>max 1 a\<close> to
  \<open>min 65534 b\<close>: port 65535 is never part of a range, whatever its bounds.
\<close>

theorem port_range_mapper_ports:
  assumes "two_ints s = Inr (a, b)"
  shows "\<exists>ps. port_range_mapper s = Inr ps \<and> distinct ps \<and> set ps = {max 1 a..min 65534 b}"
  using assms by (auto simp: port_range_mapper_def py_range_def min_def)

theorem port_range_mapper_ports_witness:
  "\<exists>ps. port_range_mapper ''1-65535'' = Inr ps \<and> distinct ps \<and> set ps = {1..65534}"
proof -
  have "two_ints ''1-65535'' = Inr (1, 65535)"
    by (simp add: two_ints_def int_of_str_def py_strip_def py_space_def is_digit_def
        nat_of_digits_def digit_val_def)
  from port_range_mapper_ports [OF this] show ?thesis by simp
qed

text \<open>
  Loading a set of integers makes every one of them a key; a load that diffs leaves no
  other key, a load that does not keeps the others.
\<close>

theorem load_intset_into_map_content:
  assumes "intset_table T I fits" and "I m" and "set_order ord"
    and "fits (dom (tbl_get T m) \<union> enc ` set xs)"
    and "\<forall>v \<in> set xs. dec (enc v) = v" and "\<forall>k \<in> dom (tbl_get T m). enc (dec k) = k"
  shows "\<exists>m'. load_intset_into_map enc dec ord T xs do_diff False m = (Inr (), m') \<and> I m' \<and>
     tbl_get T m' = (\<lambda>k. if k \<in> enc ` set xs then Some 1
                        else if do_diff then None else tbl_get T m k)"
  by (rule intset_table.load_intset_content [OF assms])

theorem load_intset_into_map_content_witness:
  "\<exists>m'. load_intset_into_map of_int uint (\<lambda>xs. xs) (bounded_table (Some 512)) [2, 3] True False
       [(1 :: u64, 1)] = (Inr (), m') \<and>
     tbl_get (bounded_table (Some 512)) m' = [2 \<mapsto> 1, 3 \<mapsto> 1]"
proof -
  have "\<exists>m'. load_intset_into_map of_int uint (\<lambda>xs. xs) (bounded_table (Some 512)) [2, 3] True False
       [(1 :: u64, 1)] = (Inr (), m') \<and> table_inv m' \<and>
     tbl_get (bounded_table (Some 512)) m' = (\<lambda>k. if k \<in> of_int ` set [2, 3] then Some 1
        else if True then None else tbl_get (bounded_table (Some 512)) [(1, 1)] k)"
    by (rule load_intset_into_map_content [OF mntns_filter_map.intset_table_axioms])
       (simp_all add: table_inv_def table_fits_def bounded_table_def)
  then show ?thesis by (auto simp: fun_eq_iff)
qed

end
