(* ===== verification/Json.thy ===== *)
theory Json
  imports Prelude
begin

text \<open>
  \<open>json.dumps\<close> with its default settings, as the probes call it on every event they
  output. The text of a float is an argument; a function in a dictionary is refused, as the
  encoder does. Characters are the code points below 256.
\<close>

section \<open>The encoder\<close>

definition hex_digit :: "nat \<Rightarrow> char" where
  "hex_digit n = (if n < 10 then char_of (48 + n) else char_of (87 + n))"

definition escape_char :: "char \<Rightarrow> string" where
  "escape_char c = (let n = of_char c :: nat in
     if c = CHR 0x22 then [CHR 0x5C, CHR 0x22]
     else if c = CHR 0x5C then [CHR 0x5C, CHR 0x5C]
     else if n = 8 then [CHR 0x5C, CHR ''b'']
     else if n = 9 then [CHR 0x5C, CHR ''t'']
     else if n = 10 then [CHR 0x5C, CHR ''n'']
     else if n = 12 then [CHR 0x5C, CHR ''f'']
     else if n = 13 then [CHR 0x5C, CHR ''r'']
     else if 32 \<le> n \<and> n \<le> 126 then [c]
     else [CHR 0x5C, CHR ''u'', CHR ''0'', CHR ''0'', hex_digit (n div 16), hex_digit (n mod 16)])"

definition dumps_str :: "string \<Rightarrow> string" where
  "dumps_str s = CHR 0x22 # concat (map escape_char s) @ [CHR 0x22]"

fun dumps :: "(rat \<Rightarrow> string) \<Rightarrow> pyval \<Rightarrow> string res"
  and dumps_list :: "(rat \<Rightarrow> string) \<Rightarrow> pyval list \<Rightarrow> string list res"
  and dumps_items :: "(rat \<Rightarrow> string) \<Rightarrow> (string \<times> pyval) list \<Rightarrow> string list res" where
  "dumps fr PNone = Inr ''null''"
| "dumps fr (PBool b) = Inr (if b then ''true'' else ''false'')"
| "dumps fr (PInt i) = Inr (show_int i)"
| "dumps fr (PFloat q) = Inr (fr q)"
| "dumps fr (PStr s) = Inr (dumps_str s)"
| "dumps fr (PList vs) = bindR (dumps_list fr vs) (\<lambda>ts. Inr (''['' @ join '', '' ts @ '']''))"
| "dumps fr (PDict d) = bindR (dumps_items fr d) (\<lambda>ts. Inr (''{'' @ join '', '' ts @ ''}''))"
| "dumps fr (PFun f) = Inl TypeError"
| "dumps_list fr [] = Inr []"
| "dumps_list fr (v # vs) = bindR (dumps fr v) (\<lambda>t. bindR (dumps_list fr vs) (\<lambda>ts. Inr (t # ts)))"
| "dumps_items fr [] = Inr []"
| "dumps_items fr ((k, v) # d) = bindR (dumps fr v) (\<lambda>t.
     bindR (dumps_items fr d) (\<lambda>ts. Inr ((dumps_str k @ '': '' @ t) # ts)))"

section \<open>One printable line per event\<close>

definition printable :: "string \<Rightarrow> bool" where
  "printable s = list_all (\<lambda>c. 32 \<le> (of_char c :: nat) \<and> (of_char c :: nat) \<le> 126) s"

lemma printable_append [simp]: "printable (s @ t) = (printable s \<and> printable t)"
  and printable_Cons [simp]: "printable (c # s) =
    (32 \<le> (of_char c :: nat) \<and> (of_char c :: nat) \<le> 126 \<and> printable s)"
  and printable_Nil [simp]: "printable []"
  by (auto simp: printable_def)

lemma printable_concat: "(\<And>c. c \<in> set s \<Longrightarrow> printable (f c)) \<Longrightarrow> printable (concat (map f s))"
  by (induction s) auto

lemma printable_join: "printable sep \<Longrightarrow> (\<forall>t \<in> set ts. printable t) \<Longrightarrow> printable (join sep ts)"
  by (induction sep ts rule: join.induct) auto

lemma hex_digit_printable: "n < 16 \<Longrightarrow> 32 \<le> (of_char (hex_digit n) :: nat) \<and> (of_char (hex_digit n) :: nat) \<le> 126"
  by (auto simp: hex_digit_def)

lemma escape_char_printable: "printable (escape_char c)"
proof -
  have "(of_char c :: nat) < 256" by simp
  then have "(of_char c :: nat) div 16 < 16" by (intro less_mult_imp_div_less) simp
  moreover have "(of_char c :: nat) mod 16 < 16" by simp
  ultimately show ?thesis by (auto simp: escape_char_def Let_def hex_digit_printable)
qed

lemma dumps_str_printable: "printable (dumps_str s)"
  by (simp add: dumps_str_def printable_concat escape_char_printable)

lemma show_nat_printable: "printable (show_nat n)"
  using show_nat_digits [of n] by (auto simp: printable_def list_all_iff is_digit_def)

lemma show_int_printable: "printable (show_int i)"
  by (simp add: show_int_def show_nat_printable)

lemma dumps_printable:
  fixes fr :: "rat \<Rightarrow> string"
  assumes "\<And>q. printable (fr q)"
  shows "dumps fr v = Inr t \<Longrightarrow> printable t"
    and "dumps_list fr vs = Inr ts \<Longrightarrow> \<forall>t \<in> set ts. printable t"
    and "dumps_items fr d = Inr ts \<Longrightarrow> \<forall>t \<in> set ts. printable t"
  using assms
  by (induction fr v and fr vs and fr d arbitrary: t and ts and ts rule: dumps_dumps_list_dumps_items.induct)
     (auto simp: res_simps dumps_str_printable show_int_printable printable_join)

text \<open>Values without functions are always encodable.\<close>

fun plain_data :: "pyval \<Rightarrow> bool" and plain_list :: "pyval list \<Rightarrow> bool"
  and plain_items :: "(string \<times> pyval) list \<Rightarrow> bool" where
  "plain_data PNone = True"
| "plain_data (PBool b) = True"
| "plain_data (PInt i) = True"
| "plain_data (PFloat q) = True"
| "plain_data (PStr s) = True"
| "plain_data (PList vs) = plain_list vs"
| "plain_data (PDict d) = plain_items d"
| "plain_data (PFun f) = False"
| "plain_list [] = True"
| "plain_list (v # vs) = (plain_data v \<and> plain_list vs)"
| "plain_items [] = True"
| "plain_items ((k, v) # d) = (plain_data v \<and> plain_items d)"

lemma dumps_total:
  "plain_data v \<Longrightarrow> \<exists>t. dumps fr v = Inr t"
  "plain_list vs \<Longrightarrow> \<exists>ts. dumps_list fr vs = Inr ts"
  "plain_items d \<Longrightarrow> \<exists>ts. dumps_items fr d = Inr ts"
  by (induction v and vs and d rule: plain_data_plain_list_plain_items.induct) auto

lemma plain_list_iff: "plain_list vs = (\<forall>v \<in> set vs. plain_data v)"
  by (induction vs) auto

lemma plain_items_iff: "plain_items d = (\<forall>kv \<in> set d. plain_data (snd kv))"
  by (induction d) auto

lemma plain_items_update: "plain_items d \<Longrightarrow> plain_data v \<Longrightarrow> plain_items (AList.update k v d)"
  by (induction d) auto

end
