(* ===== verification/Probes.thy ===== *)
theory Probes
  imports Filtering Json
begin

text \<open>
  \<^verbatim>\<open>pidtree_bcc/probes/__init__.py\<close>: the base class of the probes. Its attributes are
  the record \<open>probe_base\<close>, which the records of the probes extend as their classes do;
  a method of the base class works on every extension, and a method a subclass overrides
  (\<open>enrich_event\<close>) is an argument of the methods that call it. The tables of the loaded
  eBPF program are the record \<open>bpf_maps\<close>.
\<close>

section \<open>The class and its instances\<close>

definition NET_FILTER_MAP_NAME :: string where "NET_FILTER_MAP_NAME = ''net_filter_map''"
definition NET_FILTER_MAP_SIZE_MAX :: int where "NET_FILTER_MAP_SIZE_MAX = 4 * 1024"
definition NET_FILTER_MAP_SIZE_SCALING :: int where "NET_FILTER_MAP_SIZE_SCALING = 512"
definition PORT_FILTER_MAP_NAME :: string where "PORT_FILTER_MAP_NAME = ''port_filter_map''"
definition MNTNS_FILTER_MAP_NAME :: string where "MNTNS_FILTER_MAP_NAME = ''mntns_filter_map''"
definition CONTAINER_BASELINE_INTERVAL :: rat where "CONTAINER_BASELINE_INTERVAL = 30 * 60"

record probe_class =
  CONFIG_DEFAULTS :: "pyval pydict option"
  TEMPLATE_VARS :: "string list option"
  USES_DYNAMIC_FILTERS :: bool

record probe_base =
  probe_name :: string
  plugins :: "(pyval pydict \<Rightarrow> pyval pydict res) list"
  net_filters :: pyval
  global_filters :: "pyval \<times> PortFilterMode"
  container_labels_filter :: pyval
  container_name_mapping :: "(int \<times> string) list"
  container_idns_mapping :: "(string \<times> int) list"
  lost_event_telemetry :: int
  lost_event_timer :: int
  lost_event_count :: int
  output_queue :: "string list"

text \<open>The versions the running system reports.\<close>

record platform =
  kernel_release :: string
  bccversion :: string

section \<open>Configuration\<close>

definition dict_merge :: "'v pydict \<Rightarrow> 'v pydict \<Rightarrow> 'v pydict" where
  "dict_merge d e = foldl (\<lambda>acc kv. AList.update (fst kv) (snd kv) acc) d e"

lemma map_of_dict_merge: "map_of (dict_merge d kvs) = map_of d ++ map_of (rev kvs)"
proof (induction kvs arbitrary: d)
  case Nil
  then show ?case by (simp add: dict_merge_def)
next
  case (Cons kv kvs)
  have "dict_merge d (kv # kvs) = dict_merge (AList.update (fst kv) (snd kv) d) kvs"
    by (simp add: dict_merge_def)
  with Cons show ?case by (auto simp: fun_eq_iff map_add_def update_conv' split: option.split)
qed

definition dict_index :: "'v pydict \<Rightarrow> string \<Rightarrow> 'v res" where
  "dict_index d k = (case map_of d k of None \<Rightarrow> Inl (KeyError k) | Some v \<Rightarrow> Inr v)"

definition dict_get :: "'v pydict \<Rightarrow> string \<Rightarrow> 'v \<Rightarrow> 'v" where
  "dict_get d k dflt = (case map_of d k of None \<Rightarrow> dflt | Some v \<Rightarrow> v)"

definition py_len :: "pyval \<Rightarrow> int res" where
  "py_len v = (case v of PList xs \<Rightarrow> Inr (int (length xs)) | PStr s \<Rightarrow> Inr (int (length s))
     | PDict d \<Rightarrow> Inr (int (length d)) | _ \<Rightarrow> Inl TypeError)"

definition has_buggy_headers :: "platform \<Rightarrow> bool res" where
  "has_buggy_headers p =
     bindR (mapR int_of_str (take 2 (split_on (CHR ''.'') (kernel_release p)))) (\<lambda>ks.
     bindR (case ks of [kmajor, kminor] \<Rightarrow> Inr (kmajor, kminor) | _ \<Rightarrow> Inl ValueError)
       (\<lambda>(kmajor, kminor).
     bindR (mapR int_of_str (split_on (CHR ''.'') (bccversion p))) (\<lambda>bs.
     bindR (case bs of [_, bccminor, _] \<Rightarrow> Inr bccminor | _ \<Rightarrow> Inl ValueError) (\<lambda>bccminor.
     Inr (bccminor < 23 \<and> (kmajor = 5 \<and> 15 \<le> kminor \<or> 5 < kmajor)
          \<or> bccminor < 37 \<and> 6 < kmajor)))))"

definition bcc_minor :: "platform \<Rightarrow> int res" where
  "bcc_minor p = (case split_on (CHR ''.'') (bccversion p) of
     _ # minor # _ \<Rightarrow> int_of_str minor | _ \<Rightarrow> Inl IndexError)"

text \<open>The settings only a start of the probe needs: the variables of the template.\<close>

definition template_settings :: "probe_class \<Rightarrow> platform \<Rightarrow> pyval pydict \<Rightarrow> pyval pydict res" where
  "template_settings cls p config =
     bindR (case TEMPLATE_VARS cls of
              Some vars \<Rightarrow> bindR (mapR (\<lambda>k. bindR (dict_index config k) (\<lambda>v. Inr (k, v))) vars)
                             (\<lambda>kvs. Inr (dict_merge [] kvs))
            | None \<Rightarrow> Inr (AList.delete ''plugins'' config)) (\<lambda>config.
     bindR (has_buggy_headers p) (\<lambda>buggy.
     bindR (bcc_minor p) (\<lambda>minor.
     Inr (AList.update ''BCC_VERSION'' (PInt minor)
            (AList.update ''PATCH_BUGGY_HEADERS'' (PBool buggy) config)))))"

definition net_filter_map_size :: "int \<Rightarrow> int res" where
  "net_filter_map_size n = bindR (round_nearest_multiple n NET_FILTER_MAP_SIZE_SCALING 128)
     (\<lambda>size. Inr (min NET_FILTER_MAP_SIZE_MAX size))"

definition map_settings :: "pyval \<Rightarrow> pyval pydict \<Rightarrow> pyval pydict res" where
  "map_settings filters config =
     bindR (py_len filters) (\<lambda>n. bindR (net_filter_map_size n) (\<lambda>size.
     Inr (foldl (\<lambda>d kv. AList.update (fst kv) (snd kv) d) config
       [(''NET_FILTER_MAP_NAME'', PStr NET_FILTER_MAP_NAME),
        (''PORT_FILTER_MAP_NAME'', PStr PORT_FILTER_MAP_NAME),
        (''NET_FILTER_MAX_PORT_RANGES'', PInt (int NET_FILTER_MAX_PORT_RANGES)),
        (''NET_FILTER_MAP_SIZE'', PInt size),
        (''MNTNS_FILTER_MAP_NAME'', PStr MNTNS_FILTER_MAP_NAME)])))"

definition global_filters_of :: "pyval pydict \<Rightarrow> pyval \<times> PortFilterMode" where
  "global_filters_of config = (case map_of config ''includeports'' of
       Some v \<Rightarrow> if truthy v then (v, mode_include)
                 else (dict_get config ''excludeports'' (PList []), mode_exclude)
     | None \<Rightarrow> (dict_get config ''excludeports'' (PList []), mode_exclude))"

definition build_probe_config ::
    "probe_class \<Rightarrow> platform \<Rightarrow> pyval pydict \<Rightarrow> bool \<Rightarrow> ('a probe_base_scheme, pyval pydict) eff" where
  "build_probe_config cls p probe_config hotswap_only =
     bindE (liftR (let config = (case CONFIG_DEFAULTS cls of
                      Some d \<Rightarrow> dict_merge d probe_config | None \<Rightarrow> probe_config)
            in if hotswap_only then Inr config else template_settings cls p config)) (\<lambda>config.
     if \<not> USES_DYNAMIC_FILTERS cls then retE config
     else bindE (liftR (dict_index config ''filters'')) (\<lambda>filters.
       bindE (\<lambda>s. (Inr (), s\<lparr>net_filters := filters, global_filters := global_filters_of config\<rparr>)) (\<lambda>_.
       if hotswap_only then retE config else liftR (map_settings filters config))))"

section \<open>Events\<close>

definition enrich_container_name ::
    "'a probe_base_scheme \<Rightarrow> int option \<Rightarrow> pyval pydict \<Rightarrow> pyval pydict res" where
  "enrich_container_name s mntns_id formatted_event =
     (if truthy (container_labels_filter s)
      then (case mntns_id of
              None \<Rightarrow> Inl (AttributeError ''mntns_id'')
            | Some ns \<Rightarrow> Inr (AList.update ''container_name''
                (PStr (case map_of (container_name_mapping s) ns of None \<Rightarrow> [] | Some n \<Rightarrow> n))
                formatted_event))
      else Inr formatted_event)"

definition add_event_metadata :: "'a probe_base_scheme \<Rightarrow> string \<Rightarrow> pyval pydict \<Rightarrow> pyval pydict" where
  "add_event_metadata s utcnow event =
     AList.update ''probe'' (PStr (probe_name s)) (AList.update ''timestamp'' (PStr (utcnow @ ''Z'')) event)"

fun run_plugins :: "(pyval pydict \<Rightarrow> pyval pydict res) list \<Rightarrow> pyval pydict \<Rightarrow> pyval pydict res" where
  "run_plugins [] event = Inr event"
| "run_plugins (p # ps) event = bindR (p event) (run_plugins ps)"

definition put_event :: "(rat \<Rightarrow> string) \<Rightarrow> pyval pydict \<Rightarrow> ('a probe_base_scheme, unit) eff" where
  "put_event fr event = bindE (liftR (dumps fr (PDict event))) (\<lambda>line s.
     (Inr (), s\<lparr>output_queue := output_queue s @ [line]\<rparr>))"

definition process_events ::
    "('e \<Rightarrow> ('a probe_base_scheme, pyval pydict option) eff) \<Rightarrow> (rat \<Rightarrow> string) \<Rightarrow> string \<Rightarrow> 'e \<Rightarrow>
       ('a probe_base_scheme, unit) eff" where
  "process_events enrich_event fr utcnow event =
     bindE (enrich_event event) (\<lambda>enriched. case enriched of
       None \<Rightarrow> retE ()
     | Some e \<Rightarrow> if e = [] then retE ()
         else (\<lambda>s. bindE (liftR (run_plugins (plugins s) (add_event_metadata s utcnow e)))
                  (put_event fr) s))"

text \<open>The methods of the base class that subclasses override.\<close>

definition base_enrich_event :: "'e \<Rightarrow> ('a probe_base_scheme, pyval pydict option) eff" where
  "base_enrich_event event = raiseE NotImplementedError"

definition base_validate_config :: "pyval pydict \<Rightarrow> unit res" where
  "base_validate_config config = Inr ()"

definition lost_event_callback :: "int \<Rightarrow> ('a probe_base_scheme, unit) eff" where
  "lost_event_callback lost_count s =
     (Inr (), s\<lparr>lost_event_count := lost_event_count s + lost_count\<rparr>)"

definition poll_and_check_lost ::
    "(rat \<Rightarrow> string) \<Rightarrow> string \<Rightarrow> ('a probe_base_scheme, unit) eff \<Rightarrow> ('a probe_base_scheme, unit) eff" where
  "poll_and_check_lost fr utcnow perf_buffer_poll =
     bindE perf_buffer_poll (\<lambda>_ s.
       let s1 = s\<lparr>lost_event_timer := lost_event_timer s - 1\<rparr>
       in if lost_event_timer s1 = 0
          then let s2 = s1\<lparr>lost_event_timer := lost_event_telemetry s1\<rparr>
               in put_event fr (add_event_metadata s2 utcnow
                    [(''type'', PStr ''lost_event_telemetry''), (''count'', PInt (lost_event_count s2))]) s2
          else (Inr (), s1))"

section \<open>Filters in the loaded program\<close>

record ('n, 'p, 'c) bpf_maps =
  net_filter_map :: 'n
  port_filter_map :: 'p
  mntns_filter_map :: 'c

definition reload_filters ::
    "byteorder \<Rightarrow> (cfilter_key list \<Rightarrow> cfilter_key list) \<Rightarrow> (int list \<Rightarrow> int list) \<Rightarrow>
       ('n, cfilter_key, cfilter_value) table_ops \<Rightarrow> ('p, i32, u8) table_ops \<Rightarrow>
       'a probe_base_scheme \<Rightarrow> bool \<Rightarrow> (('n, 'p, 'c) bpf_maps, unit) eff" where
  "reload_filters bo kord pord TN TP s is_init m =
     (case bindE (liftR (py_iter (net_filters s)))
             (\<lambda>filters. load_filters_into_map bo kord TN filters (\<not> is_init)) (net_filter_map m) of
        (Inl e, n) \<Rightarrow> (Inl e, m\<lparr>net_filter_map := n\<rparr>)
      | (Inr _, n) \<Rightarrow>
          (case bindE (liftR (py_iter (fst (global_filters s))))
                  (\<lambda>ports. load_port_filters_into_map pord TP ports (snd (global_filters s)) (\<not> is_init))
                  (port_filter_map m) of
             (r, p) \<Rightarrow> (r, m\<lparr>net_filter_map := n, port_filter_map := p\<rparr>)))"

text \<open>
  One round of the thread that waits for configuration changes. \<open>build\<close> is the probe's own
  \<^verbatim>\<open>build_probe_config(config_data, hotswap_only=True)\<close>, which subclasses override;
  when it raises, the filters are not reloaded.
\<close>

definition apply_config_change ::
    "(pyval pydict \<Rightarrow> ('a probe_base_scheme, 'b) eff) \<Rightarrow> byteorder \<Rightarrow> (cfilter_key list \<Rightarrow> cfilter_key list) \<Rightarrow>
       (int list \<Rightarrow> int list) \<Rightarrow> ('n, cfilter_key, cfilter_value) table_ops \<Rightarrow>
       ('p, i32, u8) table_ops \<Rightarrow> pyval pydict \<Rightarrow>
       ('a probe_base_scheme \<times> ('n, 'p, 'c) bpf_maps, unit) eff" where
  "apply_config_change build bo kord pord TN TP config_data sm =
     (case build config_data (fst sm) of
        (Inl e, s) \<Rightarrow> (Inl e, (s, snd sm))
      | (Inr _, s) \<Rightarrow> (case reload_filters bo kord pord TN TP s False (snd sm) of (r, m) \<Rightarrow> (r, (s, m))))"

section \<open>What a probe relies on its subclass for\<close>

text \<open>
  The contract of \<open>enrich_event\<close>: it keeps the subclass's invariant, leaves the output
  queue and the plugins alone, and what it returns is a dictionary that can be encoded.
\<close>

text \<open>
  Plugins that never raise on an event that can be encoded and keep it so, and the line an event
  becomes once they have seen it.
\<close>

definition plugins_total :: "'a probe_base_scheme \<Rightarrow> bool" where
  "plugins_total s = (\<forall>d. plain_items d \<longrightarrow> (\<exists>d'. run_plugins (plugins s) d = Inr d' \<and> plain_items d'))"

definition output_line :: "(rat \<Rightarrow> string) \<Rightarrow> 'a probe_base_scheme \<Rightarrow> string \<Rightarrow> pyval pydict \<Rightarrow> string res" where
  "output_line fr s utcnow d = bindR (run_plugins (plugins s) (add_event_metadata s utcnow d)) (\<lambda>d'. dumps fr (PDict d'))"

lemma plugins_total_none: "plugins s = [] \<Longrightarrow> plugins_total s"
  by (simp add: plugins_total_def)

lemma plugins_total_queue [simp]: "plugins_total (s\<lparr>output_queue := q\<rparr>) = plugins_total s"
  by (simp add: plugins_total_def)

lemma put_event_line:
  assumes "plugins_total s" and "plain_items d"
  shows "\<exists>line. output_line fr s utcnow d = Inr line \<and>
    bindE (liftR (run_plugins (plugins s) (add_event_metadata s utcnow d))) (put_event fr) s =
      (Inr (), s\<lparr>output_queue := output_queue s @ [line]\<rparr>)"
proof -
  have "plain_items (add_event_metadata s utcnow d)"
    using assms(2) by (simp add: add_event_metadata_def plain_items_update)
  then obtain d' where d': "run_plugins (plugins s) (add_event_metadata s utcnow d) = Inr d'" "plain_data (PDict d')"
    using assms(1) by (auto simp: plugins_total_def)
  moreover obtain line where "dumps fr (PDict d') = Inr line" using dumps_total(1) [OF d'(2)] by blast
  ultimately show ?thesis by (simp add: output_line_def put_event_def bindE_def)
qed

locale event_enricher =
  fixes enrich :: "'e \<Rightarrow> ('a probe_base_scheme, pyval pydict option) eff"
    and inv :: "'a probe_base_scheme \<Rightarrow> bool"
  assumes enrich_inv: "inv s \<Longrightarrow> enrich e s = (r, s') \<Longrightarrow> inv s'"
    and enrich_frame: "enrich e s = (r, s') \<Longrightarrow> output_queue s' = output_queue s \<and> plugins s' = plugins s"
    and enrich_plain: "inv s \<Longrightarrow> enrich e s = (Inr (Some d), s') \<Longrightarrow> d \<noteq> [] \<and> plain_items d"
    and inv_queue: "inv s \<Longrightarrow> inv (s\<lparr>output_queue := q\<rparr>)"
begin

lemma process_events_inv:
  assumes "inv s" and "process_events enrich fr now e s = (r, s')"
  shows "inv s'"
proof (cases "enrich e s")
  case (Pair r1 s1)
  then have "inv s1" using enrich_inv assms(1) by blast
  with Pair assms(2) show ?thesis
    by (auto simp: process_events_def bindE_def put_event_def inv_queue
        split: sum.splits option.splits prod.splits if_splits)
qed

text \<open>
  With plugins that do not raise, an event is reported exactly when the subclass reports it, as one line.
\<close>

lemma process_events_reports:
  assumes "inv s" and "plugins_total s" and "enrich e s = (Inr (Some d), s1)"
  shows "\<exists>line. output_line fr s1 now d = Inr line \<and>
    process_events enrich fr now e s = (Inr (), s1\<lparr>output_queue := output_queue s @ [line]\<rparr>)"
proof -
  have d: "d \<noteq> []" "plain_items d" using enrich_plain assms(1,3) by blast+
  have f: "output_queue s1 = output_queue s" "plugins s1 = plugins s" using enrich_frame assms(3) by metis+
  have "plugins_total s1" using assms(2) f(2) by (simp add: plugins_total_def)
  from put_event_line [OF this d(2), of fr now] f(1) d(1) assms(3) show ?thesis
    by (auto simp: process_events_def bindE_def)
qed

end

lemma plain_update_name:
  "plain_items d \<Longrightarrow> d \<noteq> [] \<Longrightarrow> enrich_container_name s ns d = Inr d' \<Longrightarrow> d' \<noteq> [] \<and> plain_items d'"
  by (cases d) (auto simp: enrich_container_name_def plain_items_update split: if_splits option.splits)

lemma container_name_queue [simp]:
  "enrich_container_name (s\<lparr>output_queue := q\<rparr>) = enrich_container_name s"
  by (intro ext) (auto simp: enrich_container_name_def split: option.split)

lemma metadata_queue [simp]: "add_event_metadata (s\<lparr>output_queue := q\<rparr>) = add_event_metadata s"
  by (intro ext) (simp add: add_event_metadata_def)

lemma output_line_queue [simp]: "output_line fr (s\<lparr>output_queue := q\<rparr>) = output_line fr s"
  by (intro ext) (simp add: output_line_def)

lemma output_line_printable:
  assumes "\<And>q. printable (fr q)" and "output_line fr s now d = Inr line"
  shows "printable line"
  using assms(2) by (auto simp: output_line_def res_simps simp del: dumps.simps intro: dumps_printable(1) [OF assms(1)])

section \<open>Lines\<close>

lemma process_events_printable:
  assumes "\<And>q. printable (fr q)" and "\<And>e s r s'. enrich e s = (r, s') \<Longrightarrow> output_queue s' = output_queue s"
    and "list_all printable (output_queue s)" and "process_events enrich fr now e s = (r, s')"
  shows "list_all printable (output_queue s')"
proof -
  obtain r1 s1 where en: "enrich e s = (r1, s1)" by (cases "enrich e s")
  then have q: "output_queue s1 = output_queue s" by (rule assms(2))
  have line: "printable l" if "dumps fr v = Inr l" for v l using dumps_printable(1) [OF assms(1) that] .
  have q1: "list_all printable (output_queue s1)" using assms(3) q by simp
  from assms(4) show ?thesis unfolding process_events_def bindE_def en using q1
    by (auto simp: put_event_def bindE_def simp del: dumps.simps dest: line split: sum.splits option.splits if_splits)
qed

text \<open>
  Property C38. Whatever a probe and its plugins put into events, every element of the output queue
  is one line of printable ASCII: no event can break the format of the output.
\<close>

theorem output_lines_printable:
  fixes s :: "'a probe_base_scheme"
  assumes "\<And>q. printable (fr q)" and "\<And>e s r s'. enrich e s = (r, s') \<Longrightarrow> output_queue s' = output_queue s"
    and "list_all printable (output_queue s)"
    and "forE evs (\<lambda>(now, e). process_events enrich fr now e) s = (r, s')"
  shows "list_all printable (output_queue s')"
proof (rule forE_preserves [of evs "\<lambda>s. list_all printable (output_queue s)" "\<lambda>(now, e). process_events enrich fr now e" s r s'])
  fix x :: "string \<times> 'b" and s1 s1' :: "'a probe_base_scheme" and r1
  assume "list_all printable (output_queue s1)" and "(case x of (now, e) \<Rightarrow> process_events enrich fr now e) s1 = (r1, s1')"
  then show "list_all printable (output_queue s1')"
    using process_events_printable [of fr enrich, OF assms(1,2)] by (cases x) auto
qed (rule assms(3,4))+

section \<open>Sizes\<close>

text \<open>
  The network filter table of a probe is created large enough for the filters it is
  given at start, with room for at least 128 more, as long as those fit the maximum of 4096.
\<close>

theorem net_filter_map_size_fits:
  assumes "0 \<le> n" and "n + 128 < 4096"
  shows "\<exists>size. net_filter_map_size n = Inr size \<and> n + 128 < size \<and> size \<le> n + 128 + 512 \<and> size mod 512 = 0"
proof -
  define q where "q = (n + 128) div 512"
  have "512 * q \<le> n + 128" "n + 128 < 512 * q + 512" unfolding q_def by linarith+
  moreover from this have "q \<le> 7" using assms(2) by linarith
  ultimately show ?thesis
    by (simp add: net_filter_map_size_def round_nearest_multiple_def NET_FILTER_MAP_SIZE_SCALING_def
        NET_FILTER_MAP_SIZE_MAX_def min_def flip: q_def)
qed

theorem net_filter_map_size_fits_witness:
  "\<exists>size. net_filter_map_size 400 = Inr size \<and> 400 + 128 < size \<and> size \<le> 400 + 128 + 512 \<and> size mod 512 = 0"
  by (rule net_filter_map_size_fits) simp_all

section \<open>Lost event telemetry\<close>

text \<open>\<open>n\<close> rounds of the polling loop, each with its own polling step and time.\<close>

fun poll_rounds ::
    "(rat \<Rightarrow> string) \<Rightarrow> (string \<times> ('a probe_base_scheme, unit) eff) list \<Rightarrow> ('a probe_base_scheme, unit) eff" where
  "poll_rounds fr [] = retE ()"
| "poll_rounds fr ((now, poll) # rounds) =
     bindE (poll_and_check_lost fr now poll) (\<lambda>_. poll_rounds fr rounds)"

text \<open>What a polling step may do to the counters: add to the lost events, nothing else.\<close>

definition poll_ok :: "('a probe_base_scheme, unit) eff \<Rightarrow> bool" where
  "poll_ok poll = (\<forall>s. \<exists>s'. poll s = (Inr (), s') \<and> lost_event_timer s' = lost_event_timer s \<and>
     lost_event_telemetry s' = lost_event_telemetry s \<and> output_queue s' = output_queue s)"

lemma put_event_plain:
  assumes "plain_items e"
  shows "\<exists>line. dumps fr (PDict e) = Inr line \<and>
    put_event fr e s = (Inr (), s\<lparr>output_queue := output_queue s @ [line]\<rparr>)"
proof -
  obtain line where "dumps fr (PDict e) = Inr line"
    using dumps_total(1) [of "PDict e" fr] assms by auto
  then show ?thesis by (simp add: put_event_def bindE_def del: dumps.simps)
qed

lemma poll_step:
  assumes "poll_ok poll" and "0 < lost_event_timer s"
  shows "\<exists>s'. poll_and_check_lost fr now poll s = (Inr (), s') \<and>
     lost_event_telemetry s' = lost_event_telemetry s \<and>
     (if lost_event_timer s = 1
      then lost_event_timer s' = lost_event_telemetry s \<and> length (output_queue s') = Suc (length (output_queue s))
      else lost_event_timer s' = lost_event_timer s - 1 \<and> output_queue s' = output_queue s)"
proof -
  obtain s1 where s1: "poll s = (Inr (), s1)" "lost_event_timer s1 = lost_event_timer s"
      "lost_event_telemetry s1 = lost_event_telemetry s" "output_queue s1 = output_queue s"
    using assms(1) by (auto simp: poll_ok_def)
  let ?s2 = "s1\<lparr>lost_event_timer := lost_event_telemetry s1\<rparr>"
  let ?e = "add_event_metadata ?s2 now
    [(''type'', PStr ''lost_event_telemetry''), (''count'', PInt (lost_event_count ?s2))]"
  have "plain_items ?e" by (simp add: add_event_metadata_def)
  from put_event_plain [OF this, of fr ?s2] s1 assms(2) show ?thesis
    by (auto simp: poll_and_check_lost_def bindE_def Let_def)
qed

lemma poll_rounds_telemetry:
  "list_all (\<lambda>r. poll_ok (snd r)) rounds \<Longrightarrow> 0 < lost_event_timer s \<Longrightarrow>
     lost_event_timer s \<le> lost_event_telemetry s \<Longrightarrow>
     \<exists>s'. poll_rounds fr rounds s = (Inr (), s') \<and>
       0 < lost_event_timer s' \<and> lost_event_telemetry s' = lost_event_telemetry s \<and>
       (lost_event_telemetry s - lost_event_timer s) + int (length rounds) =
         lost_event_telemetry s * int (length (output_queue s') - length (output_queue s))
           + (lost_event_telemetry s - lost_event_timer s') \<and>
       length (output_queue s) \<le> length (output_queue s') \<and> lost_event_timer s' \<le> lost_event_telemetry s"
proof (induction rounds arbitrary: s)
  case Nil
  then show ?case by simp
next
  case (Cons r rounds)
  obtain now poll where r: "r = (now, poll)" by (cases r)
  let ?N = "lost_event_telemetry s"
  from Cons.prems r obtain s1 where s1: "poll_and_check_lost fr now poll s = (Inr (), s1)"
      "lost_event_telemetry s1 = ?N" and c: "if lost_event_timer s = 1
        then lost_event_timer s1 = ?N \<and> length (output_queue s1) = Suc (length (output_queue s))
        else lost_event_timer s1 = lost_event_timer s - 1 \<and> output_queue s1 = output_queue s"
    using poll_step [of poll s fr now] by auto
  have "0 < lost_event_timer s1" "lost_event_timer s1 \<le> lost_event_telemetry s1"
    using c Cons.prems(2,3) s1(2) by (auto split: if_splits)
  with Cons.IH [of s1] Cons.prems(1) obtain s' where s': "poll_rounds fr rounds s1 = (Inr (), s')"
      "0 < lost_event_timer s'" "lost_event_telemetry s' = ?N" "lost_event_timer s' \<le> ?N"
      "length (output_queue s1) \<le> length (output_queue s')"
      and e: "(?N - lost_event_timer s1) + int (length rounds) =
         ?N * int (length (output_queue s') - length (output_queue s1)) + (?N - lost_event_timer s')"
    by (auto simp: s1(2))
  have "(?N - lost_event_timer s) + int (length (r # rounds)) =
      ?N * int (length (output_queue s') - length (output_queue s)) + (?N - lost_event_timer s')"
  proof (cases "lost_event_timer s = 1")
    case True
    with c s'(5) have "int (length (output_queue s') - length (output_queue s)) =
        int (length (output_queue s') - length (output_queue s1)) + 1" by auto
    with True c e show ?thesis by (simp add: algebra_simps)
  next
    case False
    with c e show ?thesis by simp
  qed
  with s' s1(1) c show ?case
    by (auto simp: r bindE_def split: if_splits)
qed

text \<open>
  Telemetry enabled with a period of \<open>N\<close> rounds outputs exactly one line in
  every \<open>N\<close> rounds of the polling loop, starting from a new probe.
\<close>

theorem telemetry_every_period:
  assumes "list_all (\<lambda>r. poll_ok (snd r)) rounds"
    and "0 < lost_event_telemetry s" and "lost_event_timer s = lost_event_telemetry s"
  shows "\<exists>s'. poll_rounds fr rounds s = (Inr (), s') \<and>
    int (length (output_queue s')) - int (length (output_queue s)) =
      int (length rounds) div lost_event_telemetry s"
proof -
  let ?N = "lost_event_telemetry s"
  obtain s' where s': "poll_rounds fr rounds s = (Inr (), s')" "0 < lost_event_timer s'"
      "lost_event_timer s' \<le> ?N" "length (output_queue s) \<le> length (output_queue s')"
      and e: "int (length rounds) =
        ?N * int (length (output_queue s') - length (output_queue s)) + (?N - lost_event_timer s')"
    using poll_rounds_telemetry [OF assms(1), of s fr] assms(2,3) by auto
  have "int (length rounds) div ?N = int (length (output_queue s') - length (output_queue s))"
    by (rule int_div_pos_eq [of _ _ _ "?N - lost_event_timer s'"]) (use e s' assms(2) in auto)
  with s' show ?thesis by (intro exI [of _ s']) (simp add: of_nat_diff)
qed

definition example_probe :: probe_base where
  "example_probe = \<lparr>probe_name = ''tcp_connect'', plugins = [], net_filters = PList [],
     global_filters = (PList [], mode_exclude), container_labels_filter = PList [],
     container_name_mapping = [], container_idns_mapping = [], lost_event_telemetry = 2,
     lost_event_timer = 2, lost_event_count = 0, output_queue = []\<rparr>"

theorem telemetry_every_period_witness:
  "\<exists>s'. poll_rounds (\<lambda>_. ''0.0'') (replicate 5 (''2024-01-01T00:00:00'', lost_event_callback 3)) example_probe
      = (Inr (), s') \<and> length (output_queue s') = 2"
proof -
  have "poll_ok (lost_event_callback 3 :: (probe_base, unit) eff)"
    by (simp add: poll_ok_def lost_event_callback_def)
  with telemetry_every_period [of "replicate 5 (''2024-01-01T00:00:00'', lost_event_callback 3)"
      example_probe "\<lambda>_. ''0.0''"]
  show ?thesis by (simp add: example_probe_def list_all_iff)
qed

theorem output_lines_printable_witness:
  "\<exists>r s'. forE [(''2024-01-01T00:00:00'', ''odd''), (''2024-01-01T00:00:01'', [CHR 10])]
      (\<lambda>(now, e). process_events (\<lambda>e s. (Inr (Some [(''cmd'', PStr e)]), s)) (\<lambda>_. ''0.0'') now e) example_probe = (r, s') \<and>
    list_all printable (output_queue s')"
proof -
  let ?run = "forE [(''2024-01-01T00:00:00'', ''odd''), (''2024-01-01T00:00:01'', [CHR 10])]
      (\<lambda>(now, e). process_events (\<lambda>e s. (Inr (Some [(''cmd'', PStr e)]), s)) (\<lambda>_. ''0.0'') now e) example_probe"
  obtain r s' where run: "?run = (r, s')" by (cases ?run)
  have "list_all printable (output_queue s')"
    by (rule output_lines_printable [OF _ _ _ run]) (simp_all add: example_probe_def)
  with run show ?thesis by blast
qed

end
