(* ===== verification/Proc_Utils.thy ===== *)
theory Proc_Utils
  imports Prelude
begin

text \<open>
  The rest of \<^verbatim>\<open>pidtree_bcc/utils.py\<close>: the walk up the process tree, the module
  lookup, the retrying decorator of the worker threads, network namespaces and the stop flag.
  \<open>psutil\<close>, \<open>importlib\<close> and the \<open>/proc\<close> file system are arguments.
  Two loops have no bound of their own, the walk and the decorator, and are partial functions:
  \<open>None\<close> is a call that does not return.
\<close>

section \<open>Walking up the process tree\<close>

text \<open>What \<open>psutil.Process\<close> and its methods answer for a process identifier.\<close>

record psutil_ops =
  ps_Process :: "int \<Rightarrow> int res"
  ps_cmdline :: "int \<Rightarrow> string list res"
  ps_username :: "int \<Rightarrow> string res"
  ps_ppid :: "int \<Rightarrow> int res"

record proc_entry =
  entry_pid :: int
  entry_cmdline :: string
  entry_username :: string

definition proc_entry_of :: "psutil_ops \<Rightarrow> int \<Rightarrow> proc_entry res" where
  "proc_entry_of ps pid =
     bindR (ps_Process ps pid) (\<lambda>proc_pid.
     bindR (ps_cmdline ps pid) (\<lambda>cmdline.
     bindR (ps_username ps pid) (\<lambda>username.
     Inr \<lparr>entry_pid = proc_pid, entry_cmdline = py_strip (join '' '' cmdline),
          entry_username = username\<rparr>)))"

text \<open>One round of the loop: the entry to append and the process to go on with.\<close>

definition crawl_step :: "psutil_ops \<Rightarrow> int \<Rightarrow> (proc_entry \<times> int) res" where
  "crawl_step ps pid = bindR (proc_entry_of ps pid) (\<lambda>entry.
     bindR (ps_ppid ps pid) (\<lambda>parent. Inr (entry, parent)))"

partial_function (option) crawl_loop ::
    "psutil_ops \<Rightarrow> int \<Rightarrow> proc_entry list \<Rightarrow> proc_entry list res option" where
  "crawl_loop ps pid result =
     (if pid = 0 then Some (Inr result)
      else (case crawl_step ps pid of
              Inl e \<Rightarrow> Some (Inl e)
            | Inr (entry, parent) \<Rightarrow> crawl_loop ps parent (result @ [entry])))"

definition crawl_process_tree :: "psutil_ops \<Rightarrow> int \<Rightarrow> proc_entry list res option" where
  "crawl_process_tree ps pid = crawl_loop ps pid []"

text \<open>An entry as the dictionary the probes output.\<close>

definition proc_dict :: "proc_entry \<Rightarrow> pyval" where
  "proc_dict e = PDict [(''pid'', PInt (entry_pid e)), (''cmdline'', PStr (entry_cmdline e)),
     (''username'', PStr (entry_username e))]"

text \<open>The walk guarded by \<open>except Exception\<close>: the traceback and an empty tree.\<close>

definition guarded_crawl ::
    "(int \<Rightarrow> proc_entry list res) \<Rightarrow> (exn \<Rightarrow> string) \<Rightarrow> int \<Rightarrow> (string \<times> proc_entry list) res" where
  "guarded_crawl crawl format_exc pid = (case crawl pid of
       Inr proctree \<Rightarrow> Inr ([], proctree)
     | Inl e \<Rightarrow> if is_Exception e then Inr (format_exc e, []) else Inl e)"

text \<open>A walk that fails only in ways the guard catches.\<close>

definition catchable :: "(int \<Rightarrow> proc_entry list res) \<Rightarrow> bool" where
  "catchable crawl = (\<forall>pid x. crawl pid = Inl x \<longrightarrow> is_Exception x)"

section \<open>Files, modules and namespaces\<close>

datatype output_handle = Stdout | File string string

definition smart_open :: "string option \<Rightarrow> string \<Rightarrow> output_handle" where
  "smart_open filename fmode = (case filename of
       Some f \<Rightarrow> if f \<noteq> [] \<and> f \<noteq> ''-'' then File f fmode else Stdout
     | None \<Rightarrow> Stdout)"

text \<open>
  The members of a module, in the order \<open>inspect.getmembers\<close> lists them, and the tests
  on a member: is it a class, does it derive from the base class, is it the base class itself.
\<close>

record 'c member =
  member_object :: 'c
  member_isclass :: bool
  member_issubclass :: bool
  member_is_base :: bool

fun import_first :: "(string \<Rightarrow> 'm res) \<Rightarrow> string list \<Rightarrow> 'm option res" where
  "import_first import_module [] = Inr None"
| "import_first import_module (path # paths) = (case import_module path of
       Inr modl \<Rightarrow> Inr (Some modl)
     | Inl ImportError \<Rightarrow> import_first import_module paths
     | Inl e \<Rightarrow> Inl e)"

definition find_subclass :: "(string \<Rightarrow> 'c member list res) \<Rightarrow> string list \<Rightarrow> 'c res" where
  "find_subclass import_module module_path =
     bindR (import_first import_module module_path) (\<lambda>found. case found of
       None \<Rightarrow> Inl ImportError
     | Some members \<Rightarrow>
        (case filter (\<lambda>m. member_isclass m \<and> member_issubclass m \<and> \<not> member_is_base m) members of
           [] \<Rightarrow> Inl StopIteration
         | m # _ \<Rightarrow> Inr (member_object m)))"

definition get_network_namespace :: "(string \<Rightarrow> string res) \<Rightarrow> int option \<Rightarrow> int option" where
  "get_network_namespace readlink pid =
     (let who = (case pid of Some p \<Rightarrow> if p \<noteq> 0 then show_int p else ''self'' | None \<Rightarrow> ''self'')
      in case bindR (readlink (''/proc/'' @ who @ ''/ns/net''))
                (\<lambda>ns_link. int_of_str (drop 5 (butlast (py_strip ns_link)))) of
           Inl _ \<Rightarrow> None
         | Inr inum \<Rightarrow> Some inum)"

record StopFlagWrapper =
  do_stop :: bool

definition new_StopFlagWrapper :: StopFlagWrapper where
  "new_StopFlagWrapper = \<lparr>do_stop = False\<rparr>"

definition stop :: "StopFlagWrapper \<Rightarrow> StopFlagWrapper" where
  "stop w = w\<lparr>do_stop := True\<rparr>"

section \<open>The decorator of the worker threads\<close>

partial_function (option) never_crash :: "('s, 'a) eff \<Rightarrow> 's \<Rightarrow> ('a res \<times> 's) option" where
  "never_crash func s = (case func s of
       (Inr x, s') \<Rightarrow> Some (Inr x, s')
     | (Inl e, s') \<Rightarrow> if is_Exception e then never_crash func s' else Some (Inl e, s'))"

section \<open>What the walk returns\<close>

text \<open>
  The chain of processes from \<open>pid\<close> up to 0: every element but the last is a process whose
  entry is listed and whose parent is the next element.
\<close>

definition ancestry :: "psutil_ops \<Rightarrow> int \<Rightarrow> int list \<Rightarrow> proc_entry list \<Rightarrow> bool" where
  "ancestry ps pid chain entries =
     (length chain = Suc (length entries) \<and> chain ! 0 = pid \<and> chain ! length entries = 0 \<and>
      (\<forall>i < length entries. chain ! i \<noteq> 0 \<and> crawl_step ps (chain ! i) = Inr (entries ! i, chain ! Suc i)))"

lemma ancestry_Nil: "ancestry ps pid chain [] \<longleftrightarrow> chain = [0] \<and> pid = 0"
  by (auto simp: ancestry_def length_Suc_conv)

lemma ancestry_Cons: "ancestry ps pid chain (e # es) \<longleftrightarrow>
    (\<exists>parent rest. chain = pid # rest \<and> pid \<noteq> 0 \<and> crawl_step ps pid = Inr (e, parent) \<and>
       ancestry ps parent rest es)"
proof
  assume a: "ancestry ps pid chain (e # es)"
  then obtain rest where c: "chain = pid # rest" "length rest = Suc (length es)"
    by (auto simp: ancestry_def length_Suc_conv)
  from a have all: "\<forall>i < Suc (length es). chain ! i \<noteq> 0 \<and>
      crawl_step ps (chain ! i) = Inr ((e # es) ! i, chain ! Suc i)" by (simp add: ancestry_def)
  have "pid \<noteq> 0 \<and> crawl_step ps pid = Inr (e, rest ! 0)" using all [rule_format, of 0] c by simp
  moreover have "ancestry ps (rest ! 0) rest es"
    using a all c by (auto simp: ancestry_def dest: spec [of _ "Suc _"])
  ultimately show "\<exists>parent rest. chain = pid # rest \<and> pid \<noteq> 0 \<and>
      crawl_step ps pid = Inr (e, parent) \<and> ancestry ps parent rest es" using c(1) by blast
next
  assume "\<exists>parent rest. chain = pid # rest \<and> pid \<noteq> 0 \<and> crawl_step ps pid = Inr (e, parent) \<and>
       ancestry ps parent rest es"
  then show "ancestry ps pid chain (e # es)"
    by (auto simp: ancestry_def nth_Cons split: nat.splits)
qed

lemma crawl_loop_complete:
  "ancestry ps pid chain entries \<Longrightarrow> crawl_loop ps pid result = Some (Inr (result @ entries))"
proof (induction entries arbitrary: pid chain result)
  case Nil
  then show ?case by (simp add: ancestry_Nil crawl_loop.simps)
next
  case (Cons e es)
  then obtain parent rest where "pid \<noteq> 0" "crawl_step ps pid = Inr (e, parent)"
    "ancestry ps parent rest es" by (auto simp: ancestry_Cons)
  with Cons.IH show ?case by (subst crawl_loop.simps) simp
qed

lemmas crawl_loop_induct = crawl_loop.raw_induct [rotated, consumes 1, case_names step]

lemma crawl_loop_sound:
  "crawl_loop ps pid result = Some r \<Longrightarrow> r = Inr es \<Longrightarrow>
     \<exists>chain entries. es = result @ entries \<and> ancestry ps pid chain entries"
proof (induction rule: crawl_loop_induct)
  case (step crawl ps pid result r)
  show ?case
  proof (cases "pid = 0")
    case True
    with step have "es = result" by simp
    with True show ?thesis by (auto simp: ancestry_Nil)
  next
    case False
    with step(2,3) obtain e parent where one: "crawl_step ps pid = Inr (e, parent)"
      and "crawl ps parent (result @ [e]) = Some r" by (auto split: sum.splits prod.splits)
    from step(1) [OF this(2) step(3)] obtain chain entries where
      "es = (result @ [e]) @ entries" "ancestry ps parent chain entries" by blast
    with one False show ?thesis
      by (intro exI [of _ "pid # chain"] exI [of _ "e # entries"]) (auto simp: ancestry_Cons)
  qed
qed

lemma crawl_loop_total:
  fixes rank :: "int \<Rightarrow> nat"
  assumes "\<And>p parent. p \<noteq> 0 \<Longrightarrow> ps_ppid ps p = Inr parent \<Longrightarrow> rank parent < rank p"
  shows "\<exists>r. crawl_loop ps pid result = Some r"
proof (induction "rank pid" arbitrary: pid result rule: less_induct)
  case less
  have "rank parent < rank pid" if "pid \<noteq> 0" "crawl_step ps pid = Inr (e, parent)" for e parent
    using that assms by (auto simp: crawl_step_def res_simps)
  with less show ?case by (subst crawl_loop.simps) (auto split: sum.split prod.split)
qed

text \<open>
  The walk returns a list of processes exactly when the parents of \<open>pid\<close>
  lead to process 0, and then it is the list of that chain, child first, each process once for
  each time the chain visits it.
\<close>

theorem crawl_process_tree_ancestry:
  "crawl_process_tree ps pid = Some (Inr entries) \<longleftrightarrow> (\<exists>chain. ancestry ps pid chain entries)"
  using crawl_loop_sound [of ps pid "[]"] crawl_loop_complete [of ps pid _ entries "[]"]
  by (auto simp: crawl_process_tree_def)

text \<open>
  Property C39. Where parents are older than their children, for some measure of age, the walk
  returns, with a list or with the error of a process that is gone.
\<close>

theorem crawl_process_tree_returns:
  fixes rank :: "int \<Rightarrow> nat"
  assumes "\<And>p parent. p \<noteq> 0 \<Longrightarrow> ps_ppid ps p = Inr parent \<Longrightarrow> rank parent < rank p"
  shows "\<exists>r. crawl_process_tree ps pid = Some r"
  unfolding crawl_process_tree_def by (rule crawl_loop_total [of ps rank]) (rule assms)

text \<open>A process table with an init process, a shell and a child whose parent has exited.\<close>

definition example_psutil :: psutil_ops where
  "example_psutil = \<lparr>
     ps_Process = (\<lambda>p. if p \<in> {1, 20, 30} then Inr p else Inl (OtherException ''NoSuchProcess'')),
     ps_cmdline = (\<lambda>p. Inr [''cmd'']),
     ps_username = (\<lambda>p. Inr ''root''),
     ps_ppid = (\<lambda>p. if p = 1 then Inr 0 else if p = 20 then Inr 1 else if p = 30 then Inr 25
                    else Inl (OtherException ''NoSuchProcess'')) \<rparr>"

theorem crawl_process_tree_returns_witness:
  "(\<exists>r. crawl_process_tree example_psutil 20 = Some r) \<and>
   (\<exists>r. crawl_process_tree example_psutil 30 = Some r)"
proof -
  have "nat parent < nat p" if "p \<noteq> 0" "ps_ppid example_psutil p = Inr parent" for p parent
    using that by (auto simp: example_psutil_def split: if_splits)
  from crawl_process_tree_returns [of example_psutil nat, OF this] show ?thesis by blast
qed

section \<open>What the decorator returns\<close>

text \<open>The state after \<open>n\<close> calls in a row that raised an \<open>Exception\<close>.\<close>

fun crashed :: "('s, 'a) eff \<Rightarrow> nat \<Rightarrow> 's \<Rightarrow> 's option" where
  "crashed func 0 s = Some s"
| "crashed func (Suc n) s = (case func s of
       (Inl e, s') \<Rightarrow> if is_Exception e then crashed func n s' else None
     | (Inr _, _) \<Rightarrow> None)"

definition caught :: "'a res \<Rightarrow> bool" where
  "caught r = (case r of Inl e \<Rightarrow> is_Exception e | Inr _ \<Rightarrow> False)"

lemma never_crash_complete:
  "crashed func n s = Some s1 \<Longrightarrow> func s1 = (r, s') \<Longrightarrow> \<not> caught r \<Longrightarrow> never_crash func s = Some (r, s')"
proof (induction n arbitrary: s)
  case 0
  then show ?case by (subst never_crash.simps) (auto simp: caught_def split: sum.splits)
next
  case (Suc n)
  then show ?case by (subst never_crash.simps) (auto split: prod.splits sum.splits if_splits)
qed

lemmas never_crash_induct = never_crash.raw_induct [rotated, consumes 1, case_names step]

lemma never_crash_sound:
  "never_crash func s = Some rs \<Longrightarrow>
     \<exists>n s1. crashed func n s = Some s1 \<and> func s1 = rs \<and> \<not> caught (fst rs)"
proof (induction rule: never_crash_induct)
  case (step again func s rs)
  obtain r s' where f: "func s = (r, s')" by (cases "func s")
  show ?case
  proof (cases "caught r")
    case True
    then obtain e where e: "r = Inl e" "is_Exception e" by (auto simp: caught_def split: sum.splits)
    with step(2) f have "again func s' = Some rs" by simp
    from step(1) [OF this] obtain n s1 where "crashed func n s' = Some s1" "func s1 = rs" "\<not> caught (fst rs)"
      by blast
    with f e show ?thesis by (intro exI [of _ "Suc n"] exI [of _ s1]) simp
  next
    case False
    with step(2) f have "rs = (r, s')" by (auto simp: caught_def split: sum.splits if_splits)
    with False f show ?thesis by (intro exI [of _ 0] exI [of _ s]) simp
  qed
qed

text \<open>
  A decorated worker returns exactly when, after some number of calls that raised an
  \<open>Exception\<close>, a call in the state they left behind does not raise one; what it returns is
  the outcome of that call, so no \<open>Exception\<close> ever escapes and a worker that always fails
  is retried forever.
\<close>

theorem never_crash_outcome:
  "never_crash func s = Some (r, s') \<longleftrightarrow>
     (\<exists>n s1. crashed func n s = Some s1 \<and> func s1 = (r, s') \<and> \<not> caught r)"
  using never_crash_complete [of func _ s _ r s'] never_crash_sound [of func s "(r, s')"] by auto

section \<open>Namespaces\<close>

text \<open>
  The inode number of a namespace link of the form \<open>net:[n]\<close> is read back,
  for the calling process and for any other.
\<close>

theorem get_network_namespace_inum:
  assumes "\<And>path. readlink path = Inr (''net:['' @ show_nat n @ '']'')"
  shows "get_network_namespace readlink pid = Some (int n)"
proof -
  have sp: "\<not> py_space (CHR ''n'')" "\<not> py_space (CHR '']'')" by (simp_all add: py_space_def)
  have "py_strip (''net:['' @ show_nat n @ '']'') = ''net:['' @ show_nat n @ '']''"
    by (simp add: py_strip_def sp)
  moreover have "drop 5 (butlast (''net:['' @ show_nat n @ '']'')) = show_nat n"
    by (simp add: butlast_append)
  ultimately show ?thesis
    by (simp add: get_network_namespace_def Let_def assms int_of_str_show)
qed

theorem get_network_namespace_inum_witness:
  "get_network_namespace (\<lambda>_. Inr (''net:['' @ show_nat 4026531992 @ '']'')) (Some 4242)
     = Some 4026531992"
  using get_network_namespace_inum [of "\<lambda>_. Inr (''net:['' @ show_nat 4026531992 @ '']'')" 4026531992]
  by simp

end
