(* ===== verification/Udp_Session.thy ===== *)
theory Udp_Session
  imports Probes Proc_Utils
begin

text \<open>
  \<^verbatim>\<open>pidtree_bcc/probes/udp_session.py\<close>: the probe that follows UDP sockets and reports
  a session when it ends. Its only state beside the base class is the dictionary of the tracked
  sessions, shared between the polling loop and the thread that expires sessions; both take the
  same lock, so their critical sections are single steps of the model and the relation
  \<open>udp_step\<close> interleaves them. The process tree walk, the text of a traceback and the
  clocks are arguments.
\<close>

section \<open>State and events\<close>

definition SESSION_MAX_DURATION_DEFAULT :: int where "SESSION_MAX_DURATION_DEFAULT = 120"
definition SESSION_START :: u8 where "SESSION_START = 1"
definition SESSION_CONTINUE :: u8 where "SESSION_CONTINUE = 2"
definition SESSION_END :: u8 where "SESSION_END = 3"

type_synonym dest = "u32 \<times> u16"

text \<open>
  An event of the kernel, or the wrapper the expiration thread makes up, which has only the first
  two fields.
\<close>

record udp_event =
  ev_type :: u8
  sock_pointer :: u64
  ev_msg :: "(u32 \<times> u32 \<times> u16) option"
  mntns_id :: "int option"

definition SessionEventWrapper :: "u8 \<Rightarrow> u64 \<Rightarrow> udp_event" where
  "SessionEventWrapper ty sp = \<lparr>ev_type = ty, sock_pointer = sp, ev_msg = None, mntns_id = None\<rparr>"

record session_data =
  sess_pid :: int
  sess_proctree :: "proc_entry list"
  destinations :: "(dest \<times> rat \<times> int) list"
  sess_error :: string
  last_update :: rat

record udp_probe = probe_base +
  session_tracking :: "(u64 \<times> session_data) list"

definition UDPSessionProbe :: probe_class where
  "UDPSessionProbe = \<lparr>CONFIG_DEFAULTS = Some
     [(''ip_to_int'', PFun ''ip_to_int''), (''filters'', PList []), (''container_labels'', PList []),
      (''includeports'', PList []), (''excludeports'', PList [])],
     TEMPLATE_VARS = None, USES_DYNAMIC_FILTERS = True\<rparr>"

text \<open>A sidecar is the argument of the thread it starts: the longest idle time of a session.\<close>

definition udp_build_probe_config ::
    "platform \<Rightarrow> pyval pydict \<Rightarrow> bool \<Rightarrow> (udp_probe \<times> pyval list, pyval pydict) eff" where
  "udp_build_probe_config p probe_config hotswap_only ss =
     (case build_probe_config UDPSessionProbe p probe_config hotswap_only (fst ss) of
        (Inl e, s) \<Rightarrow> (Inl e, (s, snd ss))
      | (Inr config, s) \<Rightarrow>
          if hotswap_only then (Inr config, (s, snd ss))
          else (Inr config, (s\<lparr>session_tracking := []\<rparr>,
            snd ss @ [dict_get config ''session_max_duration'' (PInt SESSION_MAX_DURATION_DEFAULT)])))"

section \<open>Enriching events\<close>

definition start_session :: "rat \<Rightarrow> int \<Rightarrow> string \<Rightarrow> proc_entry list \<Rightarrow> dest \<Rightarrow> session_data" where
  "start_session now pid err proctree d =
     \<lparr>sess_pid = pid, sess_proctree = proctree, destinations = [(d, now, 1)],
      sess_error = err, last_update = now\<rparr>"

definition continue_session :: "rat \<Rightarrow> dest \<Rightarrow> session_data \<Rightarrow> session_data" where
  "continue_session now d sd =
     sd\<lparr>destinations := (case map_of (destinations sd) d of
            None \<Rightarrow> destinations sd @ [(d, now, 1)]
          | Some (begin, count) \<Rightarrow> AList.update d (begin, count + 1) (destinations sd)),
        last_update := now\<rparr>"

definition dest_dict :: "rat \<Rightarrow> dest \<times> rat \<times> int \<Rightarrow> pyval res" where
  "dest_dict now d = (case d of ((addr, port), begin, count) \<Rightarrow>
     bindR (int_to_ip (uint addr)) (\<lambda>daddr.
     Inr (PDict [(''daddr'', PStr daddr), (''port'', PInt (uint port)),
       (''duration'', PFloat (now - begin)), (''msg_count'', PInt count)])))"

definition session_report :: "rat \<Rightarrow> session_data \<Rightarrow> pyval pydict res" where
  "session_report now sd =
     bindR (mapR (dest_dict now) (destinations sd)) (\<lambda>ds.
     Inr [(''pid'', PInt (sess_pid sd)), (''proctree'', PList (map proc_dict (sess_proctree sd))),
          (''destinations'', PList ds), (''error'', PStr (sess_error sd))])"

definition enrich_event_impl ::
    "(int \<Rightarrow> proc_entry list res) \<Rightarrow> (exn \<Rightarrow> string) \<Rightarrow> rat \<Rightarrow> udp_event \<Rightarrow>
       (udp_probe, pyval pydict option) eff" where
  "enrich_event_impl crawl format_exc now event s =
     (let sock_key = sock_pointer event in
      if ev_type event = SESSION_START
      then (case ev_msg event of
          None \<Rightarrow> (Inl (AttributeError ''pid''), s)
        | Some (pid, daddr, dport) \<Rightarrow>
           (case guarded_crawl crawl format_exc (uint pid) of
              Inl e \<Rightarrow> (Inl e, s)
            | Inr (err, proctree) \<Rightarrow>
                (Inr None, s\<lparr>session_tracking := AList.update sock_key
                   (start_session now (uint pid) err proctree (daddr, dport)) (session_tracking s)\<rparr>)))
      else (case map_of (session_tracking s) sock_key of
          None \<Rightarrow> (Inr None, s)
        | Some sd \<Rightarrow>
           if ev_type event = SESSION_CONTINUE
           then (case ev_msg event of
               None \<Rightarrow> (Inl (AttributeError ''daddr''), s)
             | Some (pid, daddr, dport) \<Rightarrow>
                 (Inr None, s\<lparr>session_tracking := AList.update sock_key
                    (continue_session now (daddr, dport) sd) (session_tracking s)\<rparr>))
           else let s' = s\<lparr>session_tracking := AList.delete sock_key (session_tracking s)\<rparr>
                in (bindR (session_report now sd) (\<lambda>d.
                      bindR (enrich_container_name s' (mntns_id event) d) (\<lambda>d'. Inr (Some d'))), s')))"

section \<open>Expiring sessions\<close>

definition session_expired :: "rat \<Rightarrow> rat \<Rightarrow> session_data \<Rightarrow> bool" where
  "session_expired max_duration now sd = (max_duration < now - last_update sd)"

definition mark_expired ::
    "rat \<Rightarrow> rat \<Rightarrow> (u64 \<times> session_data) list \<Rightarrow> (u64 \<times> session_data) list" where
  "mark_expired max_duration now tracking =
     map (\<lambda>(sp, sd). (sp, if session_expired max_duration now sd
                           then sd\<lparr>sess_error := ''session_max_duration_exceeded''\<rparr> else sd)) tracking"

definition expired_sessions :: "rat \<Rightarrow> rat \<Rightarrow> (u64 \<times> session_data) list \<Rightarrow> u64 list" where
  "expired_sessions max_duration now tracking =
     map fst (filter (\<lambda>(sp, sd). session_expired max_duration now sd) tracking)"

text \<open>
  One round of the worker: the scan under the lock, then an event made up for each of the expired
  sessions. \<open>clock\<close> gives the time of the event at each position.
\<close>

fun end_sessions ::
    "(int \<Rightarrow> proc_entry list res) \<Rightarrow> (exn \<Rightarrow> string) \<Rightarrow> (rat \<Rightarrow> string) \<Rightarrow> (nat \<Rightarrow> rat \<times> string) \<Rightarrow>
       u64 list \<Rightarrow> (udp_probe, unit) eff" where
  "end_sessions crawl format_exc fr clock [] = retE ()"
| "end_sessions crawl format_exc fr clock (sp # sps) =
     bindE (process_events (enrich_event_impl crawl format_exc (fst (clock 0))) fr (snd (clock 0))
              (SessionEventWrapper SESSION_END sp))
       (\<lambda>_. end_sessions crawl format_exc fr (\<lambda>n. clock (Suc n)) sps)"

definition expiration_round ::
    "(int \<Rightarrow> proc_entry list res) \<Rightarrow> (exn \<Rightarrow> string) \<Rightarrow> (rat \<Rightarrow> string) \<Rightarrow> (nat \<Rightarrow> rat \<times> string) \<Rightarrow>
       rat \<Rightarrow> rat \<Rightarrow> (udp_probe, unit) eff" where
  "expiration_round crawl format_exc fr clock max_duration now s =
     end_sessions crawl format_exc fr clock
       (expired_sessions max_duration now (session_tracking s))
       (s\<lparr>session_tracking := mark_expired max_duration now (session_tracking s)\<rparr>)"

section \<open>Sessions as message logs\<close>

text \<open>
  What a session should be: the process that opened it and the messages sent so far, each with
  its destination and time. \<open>tally\<close> is the account of the messages a report gives, one
  entry per destination in the order of their first message.
\<close>

record session_log =
  log_pid :: int
  log_error :: string
  log_proctree :: "proc_entry list"
  log_messages :: "(dest \<times> rat) list"

definition seen :: "(dest \<times> rat) list \<Rightarrow> dest list" where
  "seen ms = rev (remdups (rev (map fst ms)))"

definition tally :: "(dest \<times> rat) list \<Rightarrow> (dest \<times> rat \<times> int) list" where
  "tally ms = map (\<lambda>d. (d, the (map_of ms d), int (count_list (map fst ms) d))) (seen ms)"

definition session_of :: "session_log \<Rightarrow> session_data" where
  "session_of l = \<lparr>sess_pid = log_pid l, sess_proctree = log_proctree l,
     destinations = tally (log_messages l), sess_error = log_error l,
     last_update = snd (last (log_messages l))\<rparr>"

lemma seen_snoc: "seen (ms @ [(d, t)]) = (if d \<in> fst ` set ms then seen ms else seen ms @ [d])"
  by (simp add: seen_def)

lemma set_seen [simp]: "set (seen ms) = fst ` set ms"
  and distinct_seen [simp]: "distinct (seen ms)"
  by (simp_all add: seen_def)

lemma map_of_tally: "map_of (tally ms) d = (if d \<in> fst ` set ms
    then Some (the (map_of ms d), int (count_list (map fst ms) d)) else None)"
  unfolding tally_def map_of_map_restrict set_seen [symmetric] by (simp add: restrict_map_def)

lemma update_map_key:
  "distinct xs \<Longrightarrow> d \<in> set xs \<Longrightarrow>
     AList.update d v (map (\<lambda>x. (x, f x)) xs) = map (\<lambda>x. (x, if x = d then v else f x)) xs"
  by (induction xs) auto

lemma tally_snoc: "tally (ms @ [(d, t)]) = (case map_of (tally ms) d of
    None \<Rightarrow> tally ms @ [(d, t, 1)] | Some (b, c) \<Rightarrow> AList.update d (b, c + 1) (tally ms))"
proof (cases "d \<in> fst ` set ms")
  case True
  then have "map_of ms d \<noteq> None" by (simp add: map_of_eq_None_iff)
  with True have "tally (ms @ [(d, t)]) = map (\<lambda>x. (x, if x = d
      then (the (map_of ms d), int (count_list (map fst ms) d) + 1)
      else (the (map_of ms x), int (count_list (map fst ms) x)))) (seen ms)"
    by (auto simp: tally_def seen_snoc map_add_def split: option.splits)
  also have "\<dots> = AList.update d (the (map_of ms d), int (count_list (map fst ms) d) + 1) (tally ms)"
    unfolding tally_def using True by (subst update_map_key) simp_all
  finally show ?thesis using True by (simp add: map_of_tally)
next
  case False
  then have new: "map_of ms d = None" "count_list (map fst ms) d = 0"
    by (simp_all add: map_of_eq_None_iff count_list_0_iff)
  have old: "map_of (ms @ [(d, t)]) x = map_of ms x" if "x \<in> fst ` set ms" for x
    using that by (auto simp: map_add_def map_of_eq_None_iff split: option.splits)
  have cur: "map_of (ms @ [(d, t)]) d = Some t" using new(1) by (simp add: map_add_def)
  have "tally (ms @ [(d, t)]) = tally ms @ [(d, t, 1)]"
    using False new(2) old cur by (auto simp: tally_def seen_snoc map_add_def simp del: map_of_append)
  moreover have "map_of (tally ms) d = None" using False by (simp add: map_of_tally)
  ultimately show ?thesis by simp
qed

lemma session_of_start:
  "start_session now pid err tree d = session_of \<lparr>log_pid = pid, log_error = err,
     log_proctree = tree, log_messages = [(d, now)]\<rparr>"
  by (simp add: start_session_def session_of_def tally_def seen_def)

lemma session_of_continue:
  "continue_session now d (session_of l) = session_of (l\<lparr>log_messages := log_messages l @ [(d, now)]\<rparr>)"
  by (simp add: continue_session_def session_of_def tally_snoc split: option.split)

text \<open>The account is complete: every message is counted once, at exactly one destination.\<close>

lemma tally_total: "sum_list (map (\<lambda>e. snd (snd e)) (tally ms)) = int (length ms)"
proof -
  have "sum_list (map (\<lambda>e. snd (snd e)) (tally ms)) =
      int (\<Sum>d \<in> set (seen ms). count_list (map fst ms) d)"
    by (simp add: tally_def o_def sum_list_distinct_conv_sum_set)
  also have "(\<Sum>d \<in> set (seen ms). count_list (map fst ms) d) = length (map fst ms)"
    using sum_count_set [of "map fst ms" "set (seen ms)"] by simp
  finally show ?thesis by simp
qed

section \<open>The tracked sessions refine the message logs\<close>

type_synonym logs = "u64 \<Rightarrow> session_log option"

text \<open>An event that has the fields its type promises.\<close>

definition event_ok :: "udp_event \<Rightarrow> bool" where
  "event_ok e = (ev_type e = SESSION_END \<or>
     (ev_type e = SESSION_START \<or> ev_type e = SESSION_CONTINUE) \<and> ev_msg e \<noteq> None)"

definition log_event ::
    "(int \<Rightarrow> proc_entry list res) \<Rightarrow> (exn \<Rightarrow> string) \<Rightarrow> rat \<Rightarrow> udp_event \<Rightarrow> logs \<Rightarrow> logs" where
  "log_event crawl format_exc now e a =
     (case ev_msg e of
        Some (pid, daddr, dport) \<Rightarrow>
          if ev_type e = SESSION_START
          then a(sock_pointer e \<mapsto> \<lparr>log_pid = uint pid,
                   log_error = (case crawl (uint pid) of Inl x \<Rightarrow> format_exc x | Inr _ \<Rightarrow> []),
                   log_proctree = (case crawl (uint pid) of Inl _ \<Rightarrow> [] | Inr t \<Rightarrow> t),
                   log_messages = [((daddr, dport), now)]\<rparr>)
          else if ev_type e = SESSION_CONTINUE
          then a(sock_pointer e := map_option
                   (\<lambda>l. l\<lparr>log_messages := log_messages l @ [((daddr, dport), now)]\<rparr>) (a (sock_pointer e)))
          else a(sock_pointer e := None)
      | None \<Rightarrow> a(sock_pointer e := None))"

text \<open>The report of an ended session, from its log.\<close>

definition log_report :: "rat \<Rightarrow> session_log \<Rightarrow> pyval pydict" where
  "log_report now l =
     [(''pid'', PInt (log_pid l)), (''proctree'', PList (map proc_dict (log_proctree l))),
      (''destinations'', PList (map (\<lambda>((addr, port), begin, count).
         PDict [(''daddr'', PStr (inet_ntoa (le_bytes (uint addr)))), (''port'', PInt (uint port)),
           (''duration'', PFloat (now - begin)), (''msg_count'', PInt count)]) (tally (log_messages l)))),
      (''error'', PStr (log_error l))]"

lemma session_report_log: "session_report now (session_of l) = Inr (log_report now l)"
proof -
  have "dest_dict now x = Inr ((\<lambda>((addr, port), begin, count).
      PDict [(''daddr'', PStr (inet_ntoa (le_bytes (uint addr)))), (''port'', PInt (uint port)),
        (''duration'', PFloat (now - begin)), (''msg_count'', PInt count)]) x)" for x
  proof -
    obtain addr port t0 n where x: "x = ((addr, port), t0, n)" by (metis surj_pair)
    show ?thesis by (simp add: x dest_dict_def int_to_ip_u32)
  qed
  then show ?thesis
    by (simp add: session_report_def mapR_total [of _ "dest_dict now"] session_of_def log_report_def)
qed

definition tracks :: "udp_probe \<Rightarrow> logs \<Rightarrow> bool" where
  "tracks s a = (distinct (map fst (session_tracking s)) \<and>
     map_of (session_tracking s) = map_option session_of \<circ> a)"

lemma tracks_update:
  "tracks s a \<Longrightarrow> tracks (s\<lparr>session_tracking := AList.update k (session_of l) (session_tracking s)\<rparr>)
     (a(k \<mapsto> l))"
  by (auto simp: tracks_def distinct_update update_conv')

lemma tracks_delete:
  "tracks s a \<Longrightarrow> tracks (s\<lparr>session_tracking := AList.delete k (session_tracking s)\<rparr>) (a(k := None))"
  by (auto simp: tracks_def distinct_delete delete_conv')

lemma event_types [simp]:
  "SESSION_START \<noteq> SESSION_CONTINUE" "SESSION_CONTINUE \<noteq> SESSION_START" "SESSION_START \<noteq> SESSION_END"
  "SESSION_END \<noteq> SESSION_START" "SESSION_END \<noteq> SESSION_CONTINUE" "SESSION_CONTINUE \<noteq> SESSION_END"
  by (simp_all add: SESSION_START_def SESSION_CONTINUE_def SESSION_END_def)

text \<open>One event keeps the two in step, and an end event reports the log that is closed.\<close>

lemma enrich_event_refines:
  assumes "tracks s a" and "event_ok e" and "catchable crawl"
    and "\<not> truthy (container_labels_filter s)"
  shows "\<exists>s'. enrich_event_impl crawl format_exc now e s =
      (Inr (if ev_type e = SESSION_END then map_option (log_report now) (a (sock_pointer e)) else None), s') \<and>
     tracks s' (log_event crawl format_exc now e a) \<and>
     container_labels_filter s' = container_labels_filter s"
proof -
  have mo: "map_of (session_tracking s) k = map_option session_of (a k)" for k
    using assms(1) by (simp add: tracks_def)
  consider (st) pid daddr dport where "ev_type e = SESSION_START" "ev_msg e = Some (pid, daddr, dport)"
    | (ct) pid daddr dport where "ev_type e = SESSION_CONTINUE" "ev_msg e = Some (pid, daddr, dport)"
    | (en) "ev_type e = SESSION_END"
    using assms(2) by (auto simp: event_ok_def)
  then show ?thesis
  proof cases
    case st
    then show ?thesis
      using assms(1,3) tracks_update [OF assms(1)]
      by (cases "crawl (uint pid)")
         (auto simp: enrich_event_impl_def Let_def guarded_crawl_def log_event_def session_of_start catchable_def)
  next
    case ct
    show ?thesis
    proof (cases "a (sock_pointer e)")
      case None
      with ct assms(1) show ?thesis
        by (simp add: enrich_event_impl_def Let_def log_event_def mo fun_upd_idem)
    next
      case (Some l)
      with ct tracks_update [OF assms(1)] show ?thesis
        by (simp add: enrich_event_impl_def Let_def log_event_def mo session_of_continue)
    qed
  next
    case en
    have le: "log_event crawl format_exc now e a = a(sock_pointer e := None)"
      using en by (auto simp: log_event_def split: option.splits)
    show ?thesis
    proof (cases "a (sock_pointer e)")
      case None
      with en assms(1) show ?thesis
        by (simp add: enrich_event_impl_def Let_def le mo fun_upd_idem)
    next
      case (Some l)
      with en tracks_delete [OF assms(1)] assms(4) show ?thesis
        by (simp add: enrich_event_impl_def Let_def le mo session_report_log enrich_container_name_def)
    qed
  qed
qed

text \<open>A sequence of events through the probe, with the report, if any, of each.\<close>

fun udp_run ::
    "(int \<Rightarrow> proc_entry list res) \<Rightarrow> (exn \<Rightarrow> string) \<Rightarrow> (rat \<times> udp_event) list \<Rightarrow>
       (udp_probe, pyval pydict option list) eff" where
  "udp_run crawl format_exc [] = retE []"
| "udp_run crawl format_exc ((now, e) # evs) =
     bindE (enrich_event_impl crawl format_exc now e) (\<lambda>r.
     bindE (udp_run crawl format_exc evs) (\<lambda>rs. retE (r # rs)))"

fun log_run ::
    "(int \<Rightarrow> proc_entry list res) \<Rightarrow> (exn \<Rightarrow> string) \<Rightarrow> (rat \<times> udp_event) list \<Rightarrow> logs \<Rightarrow>
       pyval pydict option list" where
  "log_run crawl format_exc [] a = []"
| "log_run crawl format_exc ((now, e) # evs) a =
     (if ev_type e = SESSION_END then map_option (log_report now) (a (sock_pointer e)) else None)
       # log_run crawl format_exc evs (log_event crawl format_exc now e a)"

lemma udp_run_refines:
  assumes "catchable crawl"
  shows "tracks s a \<Longrightarrow> list_all (\<lambda>te. event_ok (snd te)) evs \<Longrightarrow>
     \<not> truthy (container_labels_filter s) \<Longrightarrow>
     \<exists>s'. udp_run crawl format_exc evs s = (Inr (log_run crawl format_exc evs a), s')"
proof (induction evs arbitrary: s a)
  case Nil
  then show ?case by simp
next
  case (Cons te evs)
  obtain now e where te: "te = (now, e)" by (cases te)
  from enrich_event_refines [OF Cons.prems(1) _ assms Cons.prems(3), of e format_exc now] Cons.prems(2) te
  obtain s1 where s1: "enrich_event_impl crawl format_exc now e s =
      (Inr (if ev_type e = SESSION_END then map_option (log_report now) (a (sock_pointer e)) else None), s1)"
      "tracks s1 (log_event crawl format_exc now e a)"
      "container_labels_filter s1 = container_labels_filter s" by auto
  from Cons.IH [OF s1(2)] Cons.prems(2,3) s1(3) obtain s' where
    "udp_run crawl format_exc evs s1 = (Inr (log_run crawl format_exc evs (log_event crawl format_exc now e a)), s')"
    by auto
  with s1(1) show ?case by (auto simp: te bindE_def)
qed

text \<open>
  Property C5. Whatever the events of the kernel and however those of different sockets are
  interleaved, the probe reports a session exactly at its end event, and the report accounts for
  every message of the session since it started: each destination once, in the order of the first
  message to it, with the time since that message and the number of messages. Container labels are
  off here; with them the container's name is added to the report.
\<close>

theorem udp_run_reports:
  assumes "session_tracking s = []" and "list_all (\<lambda>te. event_ok (snd te)) evs"
    and "catchable crawl"
    and "\<not> truthy (container_labels_filter s)"
  shows "\<exists>s'. udp_run crawl format_exc evs s = (Inr (log_run crawl format_exc evs (\<lambda>_. None)), s')"
proof -
  have "tracks s (\<lambda>_. None)" using assms(1) by (simp add: tracks_def fun_eq_iff)
  from udp_run_refines [OF assms(3) this assms(2,4)] show ?thesis by blast
qed

definition example_udp_probe :: udp_probe where
  "example_udp_probe = probe_base.extend example_probe (udp_probe.fields [])"

definition example_event :: "u8 \<Rightarrow> u64 \<Rightarrow> u32 \<Rightarrow> udp_event" where
  "example_event ty sp addr =
     \<lparr>ev_type = ty, sock_pointer = sp, ev_msg = Some (123, addr, 1337), mntns_id = None\<rparr>"

theorem udp_run_reports_witness:
  "\<exists>s'. udp_run (\<lambda>_. Inr []) (\<lambda>_. []) [(0, example_event 1 7 168430090), (1, example_event 1 8 1),
        (1, example_event 2 7 16777343), (2, example_event 2 7 168430090), (2, example_event 3 7 0)]
        example_udp_probe =
     (Inr [None, None, None, None, Some [(''pid'', PInt 123), (''proctree'', PList []),
        (''destinations'', PList
          [PDict [(''daddr'', PStr ''10.10.10.10''), (''port'', PInt 1337), (''duration'', PFloat 2),
                  (''msg_count'', PInt 2)],
           PDict [(''daddr'', PStr ''127.0.0.1''), (''port'', PInt 1337), (''duration'', PFloat 1),
                  (''msg_count'', PInt 1)]]),
        (''error'', PStr [])]], s')"
proof -
  let ?evs = "[(0, example_event 1 7 168430090), (1, example_event 1 8 1),
        (1, example_event 2 7 16777343), (2, example_event 2 7 168430090), (2, example_event 3 7 0)]"
  have ip: "inet_ntoa (le_bytes 168430090) = ''10.10.10.10''" "inet_ntoa (le_bytes 16777343) = ''127.0.0.1''"
    by code_simp+
  have "\<exists>s'. udp_run (\<lambda>_. Inr []) (\<lambda>_. []) ?evs example_udp_probe =
      (Inr (log_run (\<lambda>_. Inr []) (\<lambda>_. []) ?evs (\<lambda>_. None)), s')"
    by (rule udp_run_reports)
       (auto simp: example_udp_probe_def example_probe_def probe_base.defs udp_probe.defs truthy_def
         event_ok_def catchable_def example_event_def SESSION_START_def SESSION_CONTINUE_def SESSION_END_def)
  moreover have "log_run (\<lambda>_. Inr []) (\<lambda>_. []) ?evs (\<lambda>_. None) =
      [None, None, None, None, Some [(''pid'', PInt 123), (''proctree'', PList []),
        (''destinations'', PList
          [PDict [(''daddr'', PStr ''10.10.10.10''), (''port'', PInt 1337), (''duration'', PFloat 2),
                  (''msg_count'', PInt 2)],
           PDict [(''daddr'', PStr ''127.0.0.1''), (''port'', PInt 1337), (''duration'', PFloat 1),
                  (''msg_count'', PInt 1)]]),
        (''error'', PStr [])]]"
    by (simp add: example_event_def log_event_def log_report_def tally_def seen_def ip
        SESSION_START_def SESSION_CONTINUE_def SESSION_END_def)
  ultimately show ?thesis by simp
qed

section \<open>The probe as an event enricher\<close>

lemma dest_dict_plain: "dest_dict now d = Inr x \<Longrightarrow> plain_data x"
  by (auto simp: dest_dict_def res_simps split: prod.splits)

lemma session_report_plain:
  assumes "session_report now sd = Inr d"
  shows "d \<noteq> [] \<and> plain_items d"
proof -
  obtain ds where ds: "mapR (dest_dict now) (destinations sd) = Inr ds"
      and d: "d = [(''pid'', PInt (sess_pid sd)), (''proctree'', PList (map proc_dict (sess_proctree sd))),
        (''destinations'', PList ds), (''error'', PStr (sess_error sd))]"
    using assms by (auto simp: session_report_def res_simps)
  have "plain_data x" if "x \<in> set ds" for x
    using mapR_Inr_mem [OF ds that] dest_dict_plain by blast
  then show ?thesis by (auto simp: d plain_list_iff proc_dict_def)
qed

lemma enrich_event_impl_frame:
  "enrich_event_impl crawl format_exc now e s = (r, s') \<Longrightarrow>
     \<exists>tr. s' = s\<lparr>session_tracking := tr\<rparr>"
  by (auto simp: enrich_event_impl_def Let_def split: if_splits option.splits sum.splits prod.splits
      intro: exI [of _ "session_tracking s"])

lemma enrich_event_impl_plain:
  assumes "enrich_event_impl crawl format_exc now e s = (Inr (Some d), s')"
  shows "d \<noteq> [] \<and> plain_items d"
proof -
  obtain sd rep and s1 :: udp_probe where "session_report now sd = Inr rep" "enrich_container_name s1 (mntns_id e) rep = Inr d"
    using assms by (auto simp: enrich_event_impl_def Let_def res_simps
        split: if_splits option.splits sum.splits prod.splits)
  then show ?thesis using session_report_plain plain_update_name by blast
qed

text \<open>
  A session worth reporting at a given time: it has destinations, each listed once and counted,
  and no time in it is in the future.
\<close>

definition session_ok :: "rat \<Rightarrow> session_data \<Rightarrow> bool" where
  "session_ok clock sd = (destinations sd \<noteq> [] \<and> distinct (map fst (destinations sd)) \<and>
     last_update sd \<le> clock \<and>
     list_all (\<lambda>(d, begin, count). begin \<le> last_update sd \<and> 1 \<le> count) (destinations sd))"

definition udp_inv :: "rat \<Rightarrow> udp_probe \<Rightarrow> bool" where
  "udp_inv clock s = (distinct (map fst (session_tracking s)) \<and>
     list_all (\<lambda>(sp, sd). session_ok clock sd) (session_tracking s))"

lemma session_ok_start: "session_ok now (start_session now pid err tree d)"
  by (simp add: session_ok_def start_session_def)

lemma session_ok_later: "session_ok clock sd \<Longrightarrow> clock \<le> now \<Longrightarrow> session_ok now sd"
  by (auto simp: session_ok_def)

lemma set_update_subset: "set (AList.update k v al) \<subseteq> insert (k, v) (set al)"
  by (induction al) auto

lemma set_delete_subset: "set (AList.delete k al) \<subseteq> set al"
  by (auto simp: AList.delete_eq)

lemma session_ok_continue:
  assumes "session_ok clock sd" and "clock \<le> now"
  shows "session_ok now (continue_session now d sd)"
proof (cases "map_of (destinations sd) d")
  case None
  have "\<forall>(d, begin, count) \<in> set (destinations sd). begin \<le> now \<and> 1 \<le> count"
    using assms by (fastforce simp: session_ok_def list_all_iff)
  moreover have "d \<notin> fst ` set (destinations sd)" using None by (simp add: map_of_eq_None_iff)
  ultimately show ?thesis
    using None assms(1) by (simp add: session_ok_def continue_session_def list_all_iff)
next
  case (Some bc)
  obtain t0 n where bc: "bc = (t0, n)" by (cases bc)
  have "(d, t0, n) \<in> set (destinations sd)" using Some bc by (auto dest: map_of_SomeD)
  with assms have tn: "t0 \<le> now" "1 \<le> n" by (auto simp: session_ok_def list_all_iff)
  have "destinations sd \<noteq> []" using Some by auto
  then have "AList.update d (t0, n + 1) (destinations sd) \<noteq> []" by (cases "destinations sd") auto
  moreover have "\<forall>(d, begin, count) \<in> set (AList.update d (t0, n + 1) (destinations sd)).
      begin \<le> now \<and> 1 \<le> count"
    using set_update_subset [of d "(t0, n + 1)" "destinations sd"] assms tn
    by (fastforce simp: session_ok_def list_all_iff)
  ultimately show ?thesis
    using assms(1) Some bc by (simp add: session_ok_def continue_session_def distinct_update list_all_iff)
qed

lemma udp_inv_update:
  assumes "udp_inv now s" and "session_ok now sd"
  shows "udp_inv now (s\<lparr>session_tracking := AList.update k sd (session_tracking s)\<rparr>)"
  using assms set_update_subset [of k sd "session_tracking s"]
  by (force simp: udp_inv_def distinct_update list_all_iff)

lemma udp_inv_delete:
  "udp_inv now s \<Longrightarrow> udp_inv now (s\<lparr>session_tracking := AList.delete k (session_tracking s)\<rparr>)"
  using set_delete_subset [of k "session_tracking s"]
  by (auto simp: udp_inv_def distinct_delete list_all_iff)

lemma udp_inv_later: "udp_inv clock s \<Longrightarrow> clock \<le> now \<Longrightarrow> udp_inv now s"
  by (auto simp: udp_inv_def list_all_iff session_ok_later)

lemma udp_inv_lookup: "udp_inv clock s \<Longrightarrow> map_of (session_tracking s) k = Some sd \<Longrightarrow> session_ok clock sd"
  by (force simp: udp_inv_def list_all_iff dest: map_of_SomeD)

lemma enrich_event_impl_inv:
  assumes "udp_inv now s" and "enrich_event_impl crawl format_exc now e s = (r, s')"
  shows "udp_inv now s'"
  using assms udp_inv_update [OF assms(1) session_ok_start] udp_inv_delete [OF assms(1)]
    udp_inv_update [OF assms(1) session_ok_continue [OF udp_inv_lookup [OF assms(1)]]]
  by (auto simp: enrich_event_impl_def Let_def split: if_splits option.splits sum.splits prod.splits)

interpretation udp: event_enricher "enrich_event_impl crawl format_exc now" "udp_inv now"
proof unfold_locales
  fix s e r s'
  show "udp_inv now s \<Longrightarrow> enrich_event_impl crawl format_exc now e s = (r, s') \<Longrightarrow> udp_inv now s'"
    by (rule enrich_event_impl_inv)
  show "enrich_event_impl crawl format_exc now e s = (r, s') \<Longrightarrow>
      output_queue s' = output_queue s \<and> plugins s' = plugins s"
    using enrich_event_impl_frame by fastforce
next
  fix s e d s'
  show "enrich_event_impl crawl format_exc now e s = (Inr (Some d), s') \<Longrightarrow> d \<noteq> [] \<and> plain_items d"
    by (rule enrich_event_impl_plain)
qed (simp add: udp_inv_def)

section \<open>Polling and expiring interleaved\<close>

text \<open>
  The states of the two threads together: the probe, the sockets the worker has still to end
  after its scan, and the clock. The worker reads the time of its scan before it takes the lock, so
  the scan may use an earlier time than the clock.
\<close>

inductive udp_step ::
    "(int \<Rightarrow> proc_entry list res) \<Rightarrow> (exn \<Rightarrow> string) \<Rightarrow> (rat \<Rightarrow> string) \<Rightarrow> rat \<Rightarrow>
       udp_probe \<times> u64 list \<times> rat \<Rightarrow> udp_probe \<times> u64 list \<times> rat \<Rightarrow> bool"
  for crawl format_exc fr max_duration where
  polled: "clock \<le> now \<Longrightarrow>
      process_events (enrich_event_impl crawl format_exc now) fr utcnow e s = (r, s') \<Longrightarrow>
      udp_step crawl format_exc fr max_duration (s, pending, clock) (s', pending, now)"
| scanned: "clock \<le> clock' \<Longrightarrow> now \<le> clock' \<Longrightarrow>
      udp_step crawl format_exc fr max_duration (s, [], clock)
        (s\<lparr>session_tracking := mark_expired max_duration now (session_tracking s)\<rparr>,
         expired_sessions max_duration now (session_tracking s), clock')"
| ended: "clock \<le> now \<Longrightarrow>
      process_events (enrich_event_impl crawl format_exc now) fr utcnow
        (SessionEventWrapper SESSION_END sp) s = (Inr u, s') \<Longrightarrow>
      udp_step crawl format_exc fr max_duration (s, sp # pending, clock) (s', pending, now)"
| restarted: "clock \<le> now \<Longrightarrow>
      process_events (enrich_event_impl crawl format_exc now) fr utcnow
        (SessionEventWrapper SESSION_END sp) s = (Inl x, s') \<Longrightarrow>
      udp_step crawl format_exc fr max_duration (s, sp # pending, clock) (s', [], now)"

lemma udp_inv_mark:
  "udp_inv clock s \<Longrightarrow>
     udp_inv clock (s\<lparr>session_tracking := mark_expired max_duration now (session_tracking s)\<rparr>)"
  by (auto simp: udp_inv_def mark_expired_def list_all_iff session_ok_def o_def case_prod_unfold)

lemma udp_step_inv:
  "udp_step crawl format_exc fr max_duration st st' \<Longrightarrow>
     udp_inv (snd (snd st)) (fst st) \<Longrightarrow> udp_inv (snd (snd st')) (fst st')"
  by (induction rule: udp_step.induct)
     (auto dest: udp_inv_later intro: udp_inv_mark udp.process_events_inv)

text \<open>
  Property C14. In every state the two threads can reach together, every tracked session has at
  least one destination, none twice, with at least one message each, and every time it holds is at
  most the last update and that at most the present: no report has a negative duration.
\<close>

theorem udp_step_reachable_ok:
  assumes "(udp_step crawl format_exc fr max_duration)\<^sup>*\<^sup>* (s, pending, clock) (s', pending', clock')"
    and "session_tracking s = []"
  shows "distinct (map fst (session_tracking s')) \<and>
    (\<forall>(sp, sd) \<in> set (session_tracking s'). session_ok clock' sd)"
proof -
  have "udp_inv (snd (snd st')) (fst st')"
    if "(udp_step crawl format_exc fr max_duration)\<^sup>*\<^sup>* st st'" "udp_inv (snd (snd st)) (fst st)" for st st'
    using that by (induction rule: rtranclp_induct) (auto intro: udp_step_inv)
  from this [OF assms(1)] assms(2) show ?thesis by (simp add: udp_inv_def list_all_iff)
qed

theorem udp_step_reachable_ok_witness:
  "\<exists>s'. (udp_step (\<lambda>_. Inr []) (\<lambda>_. []) (\<lambda>_. []) 120)\<^sup>*\<^sup>* (example_udp_probe, [], 0) (s', [], 5) \<and>
     (\<exists>sd. session_tracking s' = [(7, sd)] \<and> session_ok 5 sd)"
proof -
  let ?s' = "example_udp_probe\<lparr>session_tracking := [(7, start_session 5 123 [] [] (1, 1337))]\<rparr>"
  have "process_events (enrich_event_impl (\<lambda>_. Inr []) (\<lambda>_. []) 5) (\<lambda>_. []) [] (example_event 1 7 1)
      example_udp_probe = (Inr (), ?s')"
    by (simp add: process_events_def bindE_def enrich_event_impl_def example_event_def guarded_crawl_def
        SESSION_START_def example_udp_probe_def example_probe_def probe_base.defs udp_probe.defs)
  then have "udp_step (\<lambda>_. Inr []) (\<lambda>_. []) (\<lambda>_. []) 120 (example_udp_probe, [], 0) (?s', [], 5)"
    by (intro udp_step.polled) auto
  then have st: "(udp_step (\<lambda>_. Inr []) (\<lambda>_. []) (\<lambda>_. []) 120)\<^sup>*\<^sup>* (example_udp_probe, [], 0) (?s', [], 5)"
    by blast
  moreover have "session_tracking example_udp_probe = []"
    by (simp add: example_udp_probe_def example_probe_def probe_base.defs udp_probe.defs)
  ultimately show ?thesis using udp_step_reachable_ok [OF st] by (intro exI [of _ ?s']) auto
qed

section \<open>A round of the expiration worker\<close>

lemma session_report_total: "\<exists>d. session_report now sd = Inr d"
proof -
  have "\<exists>x. dest_dict now e = Inr x" for e
  proof -
    obtain addr port t0 n where e: "e = ((addr, port), t0, n)" by (metis surj_pair)
    show ?thesis by (simp add: e dest_dict_def int_to_ip_u32)
  qed
  then obtain f where "\<And>e. dest_dict now e = Inr (f e)" by metis
  then show ?thesis by (simp add: session_report_def mapR_total [of _ "dest_dict now" f])
qed

text \<open>The line that ends a session at a given time.\<close>

definition end_line :: "(rat \<Rightarrow> string) \<Rightarrow> udp_probe \<Rightarrow> rat \<times> string \<Rightarrow> session_data \<Rightarrow> string res" where
  "end_line fr s time sd = bindR (session_report (fst time) sd) (output_line fr s (snd time))"

lemma output_line_tracking [simp]:
  "output_line fr (s\<lparr>session_tracking := tr\<rparr>) = output_line fr s"
  by (intro ext) (simp add: output_line_def add_event_metadata_def)

lemma end_line_state [simp]:
  "end_line fr (s\<lparr>session_tracking := tr\<rparr>) = end_line fr s"
  "end_line fr (s\<lparr>output_queue := q\<rparr>) = end_line fr s"
  by (intro ext; simp add: end_line_def)+

lemma plugins_total_tracking [simp]: "plugins_total (s\<lparr>session_tracking := tr\<rparr>) = plugins_total s"
  by (simp add: plugins_total_def)

interpretation udp_reports: event_enricher "enrich_event_impl crawl format_exc now" "\<lambda>_. True"
  using udp.enrich_frame by unfold_locales (auto dest: enrich_event_impl_plain)

lemma end_session_event:
  assumes "map_of (session_tracking s) sp = Some sd" and "plugins_total s"
    and "\<not> truthy (container_labels_filter s)"
  shows "\<exists>line. end_line fr s time sd = Inr line \<and>
    process_events (enrich_event_impl crawl format_exc (fst time)) fr (snd time)
      (SessionEventWrapper SESSION_END sp) s =
      (Inr (), s\<lparr>session_tracking := AList.delete sp (session_tracking s),
                 output_queue := output_queue s @ [line]\<rparr>)"
proof -
  let ?s1 = "s\<lparr>session_tracking := AList.delete sp (session_tracking s)\<rparr>"
  obtain d where d: "session_report (fst time) sd = Inr d" using session_report_total by blast
  have e: "enrich_event_impl crawl format_exc (fst time) (SessionEventWrapper SESSION_END sp) s
      = (Inr (Some d), ?s1)"
    using assms(1,3) d
    by (simp add: enrich_event_impl_def SessionEventWrapper_def enrich_container_name_def)
  from udp_reports.process_events_reports [OF TrueI assms(2) e, of fr "snd time"] show ?thesis
    by (simp add: end_line_def d)
qed

lemma end_sessions_effect:
  "distinct sps \<Longrightarrow> (\<forall>sp \<in> set sps. sp \<in> fst ` set (session_tracking s)) \<Longrightarrow> plugins_total s \<Longrightarrow>
     \<not> truthy (container_labels_filter s) \<Longrightarrow>
     \<exists>s' lines. end_sessions crawl format_exc fr clock sps s = (Inr (), s') \<and>
       session_tracking s' = filter (\<lambda>(sp, sd). sp \<notin> set sps) (session_tracking s) \<and>
       output_queue s' = output_queue s @ lines \<and> length lines = length sps \<and>
       (\<forall>i < length sps. end_line fr s (clock i) (the (map_of (session_tracking s) (sps ! i))) = Inr (lines ! i))"
proof (induction sps arbitrary: s clock)
  case Nil
  then show ?case by (simp add: case_prod_unfold)
next
  case (Cons sp sps)
  then obtain sd where sd: "map_of (session_tracking s) sp = Some sd"
    by (metis list.set_intros(1) map_of_eq_None_iff not_Some_eq)
  from end_session_event [OF this Cons.prems(3,4)] obtain line where
    line: "end_line fr s (clock 0) sd = Inr line" and
    run: "process_events (enrich_event_impl crawl format_exc (fst (clock 0))) fr (snd (clock 0))
      (SessionEventWrapper SESSION_END sp) s =
      (Inr (), s\<lparr>session_tracking := AList.delete sp (session_tracking s),
                 output_queue := output_queue s @ [line]\<rparr>)" by blast
  let ?s1 = "s\<lparr>session_tracking := AList.delete sp (session_tracking s),
                 output_queue := output_queue s @ [line]\<rparr>"
  have "\<forall>x \<in> set sps. x \<in> fst ` set (session_tracking ?s1)"
    using Cons.prems(1,2) by (fastforce simp: AList.delete_eq image_iff)
  with Cons.IH [of ?s1 "\<lambda>n. clock (Suc n)"] Cons.prems obtain s' lines where
    s': "end_sessions crawl format_exc fr (\<lambda>n. clock (Suc n)) sps ?s1 = (Inr (), s')"
      "session_tracking s' = filter (\<lambda>(sp, sd). sp \<notin> set sps) (session_tracking ?s1)"
      "output_queue s' = output_queue ?s1 @ lines" "length lines = length sps" and
    ls: "\<forall>i < length sps. end_line fr ?s1 (clock (Suc i)) (the (map_of (session_tracking ?s1) (sps ! i)))
      = Inr (lines ! i)" by auto
  have "end_line fr s (clock i) (the (map_of (session_tracking s) ((sp # sps) ! i))) = Inr ((line # lines) ! i)"
    if "i < length (sp # sps)" for i
  proof (cases i)
    case 0
    then show ?thesis using line sd by simp
  next
    case (Suc j)
    with that have "sps ! j \<noteq> sp" "j < length sps" using Cons.prems(1) by auto
    with ls [rule_format, of j] Suc show ?thesis
      by (simp add: delete_conv')
  qed
  moreover have "end_sessions crawl format_exc fr clock (sp # sps) s = (Inr (), s')"
    using run s'(1) by (simp add: bindE_def)
  moreover have "session_tracking s' = filter (\<lambda>(x, sd). x \<notin> set (sp # sps)) (session_tracking s)"
    by (simp add: s'(2) AList.delete_eq case_prod_unfold) (metis (mono_tags, lifting))
  ultimately show ?case
    using s'(3,4) by (intro exI [of _ s'] exI [of _ "line # lines"]) simp
qed

lemma mark_expired_keys: "map fst (mark_expired max_duration now tr) = map fst tr"
  by (simp add: mark_expired_def case_prod_unfold)

lemma expired_sessions_iff:
  assumes "distinct (map fst tr)" and "(sp, sd) \<in> set tr"
  shows "sp \<in> set (expired_sessions max_duration now tr) \<longleftrightarrow> session_expired max_duration now sd"
proof -
  have "sd' = sd" if "(sp, sd') \<in> set tr" for sd'
    using assms that by (metis eq_key_imp_eq_value)
  moreover have "sp \<in> set (expired_sessions max_duration now tr) \<longleftrightarrow>
      (\<exists>sd'. (sp, sd') \<in> set tr \<and> session_expired max_duration now sd')"
    by (auto simp: expired_sessions_def image_iff)
  ultimately show ?thesis using assms(2) by blast
qed

lemma mark_expired_lookup:
  assumes "distinct (map fst tr)" and "(sp, sd) \<in> set tr" and "session_expired max_duration now sd"
  shows "map_of (mark_expired max_duration now tr) sp =
    Some (sd\<lparr>sess_error := ''session_max_duration_exceeded''\<rparr>)"
proof -
  have "(sp, sd\<lparr>sess_error := ''session_max_duration_exceeded''\<rparr>) \<in> set (mark_expired max_duration now tr)"
    using assms(2,3) by (force simp: mark_expired_def)
  then show ?thesis using assms(1) by (simp add: mark_expired_keys)
qed

lemma mark_expired_others:
  assumes "distinct (map fst tr)"
  shows "filter (\<lambda>(sp, sd). sp \<notin> set (expired_sessions max_duration now tr)) (mark_expired max_duration now tr) =
    filter (\<lambda>(sp, sd). \<not> session_expired max_duration now sd) tr"
proof -
  let ?f = "\<lambda>(sp, sd). (sp, if session_expired max_duration now sd
    then sd\<lparr>sess_error := ''session_max_duration_exceeded''\<rparr> else sd)"
  let ?P = "\<lambda>(sp, sd). sp \<notin> set (expired_sessions max_duration now tr)"
  have "filter ?P (map ?f tr) = map ?f (filter (?P \<circ> ?f) tr)" by (rule filter_map)
  also have "filter (?P \<circ> ?f) tr = filter (\<lambda>(sp, sd). \<not> session_expired max_duration now sd) tr"
    by (rule filter_cong) (auto simp: expired_sessions_iff [OF assms])
  also have "map ?f \<dots> = \<dots>" by (rule map_idI) auto
  finally show ?thesis by (simp only: mark_expired_def)
qed

text \<open>
  Property C15. With container labels off (C37 says what they do to the worker) and no plugin that
  raises, a round of the expiration worker that nothing interrupts ends exactly the sessions that were
  idle, that is had no message, for longer than the maximum, however long ago they began: each
  gives one line, in the order they were opened, whose report says that the duration was exceeded,
  and the other sessions stay as they are.
\<close>

theorem expiration_round_ends_idle:
  assumes "distinct (map fst (session_tracking s))" and "plugins_total s"
    and "\<not> truthy (container_labels_filter s)"
  shows "\<exists>s' lines. expiration_round crawl format_exc fr clock max_duration now s = (Inr (), s') \<and>
    session_tracking s' = filter (\<lambda>(sp, sd). \<not> session_expired max_duration now sd) (session_tracking s) \<and>
    output_queue s' = output_queue s @ lines \<and>
    (let idle = filter (\<lambda>(sp, sd). session_expired max_duration now sd) (session_tracking s) in
      length lines = length idle \<and>
      (\<forall>i < length idle. end_line fr s (clock i)
         ((snd (idle ! i))\<lparr>sess_error := ''session_max_duration_exceeded''\<rparr>) = Inr (lines ! i)))"
proof -
  let ?tr = "session_tracking s"
  let ?s1 = "s\<lparr>session_tracking := mark_expired max_duration now ?tr\<rparr>"
  define idle where "idle = filter (\<lambda>(sp, sd). session_expired max_duration now sd) ?tr"
  define sps where "sps = expired_sessions max_duration now ?tr"
  have sps: "sps = map fst idle" by (simp add: expired_sessions_def sps_def idle_def)
  have idle: "(sp, sd) \<in> set ?tr \<and> session_expired max_duration now sd" if "(sp, sd) \<in> set idle" for sp sd
    using that by (simp add: idle_def)
  have "distinct sps" using assms(1) unfolding sps idle_def by (rule distinct_map_filter)
  moreover have "\<forall>sp \<in> set sps. sp \<in> fst ` set (session_tracking ?s1)"
  proof -
    have "fst ` set (mark_expired max_duration now ?tr) = fst ` set ?tr"
      by (metis list.set_map mark_expired_keys)
    then show ?thesis using idle by (force simp: sps)
  qed
  ultimately obtain s' lines where run: "end_sessions crawl format_exc fr clock sps ?s1 = (Inr (), s')"
      and tr: "session_tracking s' = filter (\<lambda>(sp, sd). sp \<notin> set sps) (mark_expired max_duration now ?tr)"
      and q: "output_queue s' = output_queue s @ lines" "length lines = length sps"
      and ls: "\<forall>i < length sps. end_line fr ?s1 (clock i)
        (the (map_of (mark_expired max_duration now ?tr) (sps ! i))) = Inr (lines ! i)"
    using end_sessions_effect [of sps ?s1 crawl format_exc fr clock] assms(2,3) by auto
  have "end_line fr s (clock i) ((snd (idle ! i))\<lparr>sess_error := ''session_max_duration_exceeded''\<rparr>)
      = Inr (lines ! i)" if i: "i < length idle" for i
  proof -
    have "(fst (idle ! i), snd (idle ! i)) \<in> set idle" using i by simp
    from mark_expired_lookup [OF assms(1)] idle [OF this]
    have "map_of (mark_expired max_duration now ?tr) (sps ! i) =
        Some ((snd (idle ! i))\<lparr>sess_error := ''session_max_duration_exceeded''\<rparr>)"
      using i by (simp add: sps)
    with ls [rule_format, of i] i show ?thesis
      by (simp add: sps)
  qed
  moreover have "expiration_round crawl format_exc fr clock max_duration now s = (Inr (), s')"
    using run by (simp add: expiration_round_def sps_def)
  moreover have "session_tracking s' = filter (\<lambda>(sp, sd). \<not> session_expired max_duration now sd) ?tr"
    unfolding tr sps_def by (rule mark_expired_others [OF assms(1)])
  ultimately show ?thesis
    using q by (intro exI [of _ s'] exI [of _ lines]) (simp add: sps Let_def flip: idle_def)
qed

theorem expiration_round_ends_idle_witness:
  "\<exists>s' line. expiration_round (\<lambda>_. Inr []) (\<lambda>_. []) (\<lambda>_. ''0.5'') (\<lambda>_. (200, ''t'')) 120 200
      (example_udp_probe\<lparr>session_tracking := [(1, start_session 180 5 [] [] (1, 53)),
         (2, start_session 0 6 [] [] (1, 53))]\<rparr>) = (Inr (), s') \<and>
     map fst (session_tracking s') = [1] \<and> output_queue s' = [line]"
proof -
  let ?s = "example_udp_probe\<lparr>session_tracking := [(1, start_session 180 5 [] [] (1, 53)),
         (2, start_session 0 6 [] [] (1, 53))]\<rparr>"
  have s: "distinct (map fst (session_tracking ?s))" "plugins ?s = []" "output_queue ?s = []"
    "\<not> truthy (container_labels_filter ?s)"
    by (simp_all add: example_udp_probe_def example_probe_def probe_base.defs udp_probe.defs truthy_def)
  from expiration_round_ends_idle [OF s(1) plugins_total_none [OF s(2)] s(4), of "\<lambda>_. Inr []" "\<lambda>_. []" "\<lambda>_. ''0.5''" "\<lambda>_. (200, ''t'')" 120 200]
  show ?thesis using s(3)
    by (auto simp: session_expired_def start_session_def Let_def length_Suc_conv)
qed

text \<open>
  Property C37. When the probe filters on container labels, an expired session is lost: the event
  the worker makes up has no mount namespace, so naming its container raises after the session has
  left the dictionary, and nothing is output.
\<close>

theorem expired_session_lost_with_labels:
  assumes "truthy (container_labels_filter s)" and "map_of (session_tracking s) sp = Some sd"
  shows "process_events (enrich_event_impl crawl format_exc now) fr utcnow (SessionEventWrapper SESSION_END sp) s =
    (Inl (AttributeError ''mntns_id''), s\<lparr>session_tracking := AList.delete sp (session_tracking s)\<rparr>)"
proof -
  obtain d where "session_report now sd = Inr d" using session_report_total by blast
  with assms show ?thesis
    by (simp add: process_events_def bindE_def enrich_event_impl_def SessionEventWrapper_def
        enrich_container_name_def)
qed

theorem expired_session_lost_with_labels_witness:
  "process_events (enrich_event_impl (\<lambda>_. Inr []) (\<lambda>_. []) 200) (\<lambda>_. []) [] (SessionEventWrapper SESSION_END 2)
     (example_udp_probe\<lparr>container_labels_filter := PList [PStr ''a=b''],
        session_tracking := [(2, start_session 0 6 [] [] (1, 53))]\<rparr>) =
   (Inl (AttributeError ''mntns_id''), example_udp_probe\<lparr>container_labels_filter := PList [PStr ''a=b''],
        session_tracking := []\<rparr>)"
  using expired_session_lost_with_labels [of "example_udp_probe\<lparr>container_labels_filter := PList [PStr ''a=b''],
        session_tracking := [(2, start_session 0 6 [] [] (1, 53))]\<rparr>" 2 "start_session 0 6 [] [] (1, 53)"]
  by (simp add: truthy_def)

end
