(* ===== verification/Kernel_Filter.thy ===== *)
theory Kernel_Filter
  imports Filtering
begin

text \<open>
  The filtering half of \<^verbatim>\<open>pidtree_bcc/probes/utils.j2\<close> that runs in the kernel:
  \<open>is_addr_port_filtered\<close>, \<open>is_port_globally_filtered\<close> and
  \<open>is_mntns_included\<close>. The prefix table is a longest-prefix-match trie of the kernel, so its lookup is an argument; \<open>lpm_trie\<close> states
  what the kernel documents of it. The results connect the two halves of the program: the tables
  that \<^verbatim>\<open>filtering.py\<close> writes and what the eBPF code answers from them.
\<close>

section \<open>The eBPF functions\<close>

text \<open>
  The loop over the ranges of a value, from index \<open>i\<close> with \<open>fuel\<close> rounds left of
  the \<open>NET_FILTER_MAX_PORT_RANGES\<close> the loop may make.
\<close>

fun scan_ranges :: "cfilter_value \<Rightarrow> u16 \<Rightarrow> nat \<Rightarrow> nat \<Rightarrow> bool" where
  "scan_ranges v port i 0 = (mode v = 1)"
| "scan_ranges v port i (Suc fuel) =
     (if unat (range_size v) \<le> i then mode v = 1
      else if lower (ranges v ! i) \<le> port \<and> port \<le> upper (ranges v ! i) then mode v = 2
      else scan_ranges v port (Suc i) fuel)"

definition value_filters :: "cfilter_value \<Rightarrow> u16 \<Rightarrow> bool" where
  "value_filters v port = (if mode v = 0 then True
     else scan_ranges v port 0 NET_FILTER_MAX_PORT_RANGES)"

definition is_addr_port_filtered ::
    "(cfilter_key \<Rightarrow> cfilter_value option) \<Rightarrow> u32 \<Rightarrow> u16 \<Rightarrow> bool" where
  "is_addr_port_filtered lookup addr port =
     (case lookup \<lparr>prefixlen = 32, data = addr\<rparr> of
        Some filter_val \<Rightarrow> value_filters filter_val port
      | None \<Rightarrow> False)"

definition is_port_globally_filtered :: "(i32 \<Rightarrow> u8 option) \<Rightarrow> u16 \<Rightarrow> bool" where
  "is_port_globally_filtered lookup port =
     (case (lookup 0, lookup (ucast port)) of
        (Some md, Some match) \<Rightarrow> md = 1 \<and> match \<noteq> 0 \<or> md = 2 \<and> match = 0
      | _ \<Rightarrow> False)"

definition is_mntns_included :: "(u64 \<Rightarrow> u8 option) \<Rightarrow> u64 \<Rightarrow> bool" where
  "is_mntns_included lookup mntns_id = (lookup mntns_id \<noteq> None)"

text \<open>
  A trie key matches an address when the first \<open>prefixlen\<close> bits of the two agree, in the
  order of their bytes in memory.
\<close>

definition key_matches :: "byteorder \<Rightarrow> cfilter_key \<Rightarrow> u32 \<Rightarrow> bool" where
  "key_matches bo k addr =
     list_all (\<lambda>i. msb_bit (mem_bytes bo (uint (data k))) i = msb_bit (mem_bytes bo (uint addr)) i)
       [0..<unat (prefixlen k)]"

section \<open>The trie's contract\<close>

locale lpm_trie = filter_table T inv fits
  for T :: "('m, cfilter_key, cfilter_value) table_ops" and inv :: "'m \<Rightarrow> bool"
    and fits :: "cfilter_key set \<Rightarrow> bool" +
  fixes bo :: byteorder and lpm :: "'m \<Rightarrow> cfilter_key \<Rightarrow> cfilter_value option"
  assumes lpm_none: "inv m \<Longrightarrow> lpm m \<lparr>prefixlen = 32, data = addr\<rparr> = None \<longleftrightarrow>
      (\<forall>k \<in> dom (tbl_get T m). \<not> key_matches bo k addr)"
    and lpm_some: "inv m \<Longrightarrow> lpm m \<lparr>prefixlen = 32, data = addr\<rparr> = Some v \<Longrightarrow>
      \<exists>k. tbl_get T m k = Some v \<and> key_matches bo k addr \<and>
        (\<forall>k' \<in> dom (tbl_get T m). key_matches bo k' addr \<longrightarrow> prefixlen k' \<le> prefixlen k)"

text \<open>A trie kept as a list of entries: among the matching ones the longest prefix wins.\<close>

fun longest :: "(cfilter_key \<times> cfilter_value) list \<Rightarrow> (cfilter_key \<times> cfilter_value) option" where
  "longest [] = None"
| "longest (kv # kvs) = (case longest kvs of None \<Rightarrow> Some kv
     | Some kv' \<Rightarrow> if prefixlen (fst kv) \<le> prefixlen (fst kv') then Some kv' else Some kv)"

definition list_lpm ::
    "byteorder \<Rightarrow> (cfilter_key \<times> cfilter_value) list \<Rightarrow> cfilter_key \<Rightarrow> cfilter_value option" where
  "list_lpm bo m q = map_option snd (longest (filter (\<lambda>kv. key_matches bo (fst kv) (data q)) m))"

lemma longest_None: "longest kvs = None \<longleftrightarrow> kvs = []"
  by (cases kvs) (auto split: option.splits)

lemma longest_Some:
  "longest kvs = Some kv \<Longrightarrow> kv \<in> set kvs \<and> (\<forall>kv' \<in> set kvs. prefixlen (fst kv') \<le> prefixlen (fst kv))"
  by (induction kvs arbitrary: kv) (fastforce simp: longest_None split: option.splits if_splits)+

interpretation list_trie:
  lpm_trie "bounded_table max_entries" table_inv "table_fits max_entries" bo "list_lpm bo"
proof unfold_locales
  fix m :: "(cfilter_key \<times> cfilter_value) list" and addr v
  assume i: "table_inv m"
  have get: "tbl_get (bounded_table max_entries) m = map_of m" by (simp add: bounded_table_def)
  show "list_lpm bo m \<lparr>prefixlen = 32, data = addr\<rparr> = None \<longleftrightarrow>
      (\<forall>k \<in> dom (tbl_get (bounded_table max_entries) m). \<not> key_matches bo k addr)"
    by (auto simp: get list_lpm_def longest_None filter_empty_conv dom_map_of_conv_image_fst)
  assume "list_lpm bo m \<lparr>prefixlen = 32, data = addr\<rparr> = Some v"
  then obtain k where "longest (filter (\<lambda>kv. key_matches bo (fst kv) addr) m) = Some (k, v)"
    by (auto simp: list_lpm_def)
  from longest_Some [OF this] i
  show "\<exists>k. tbl_get (bounded_table max_entries) m k = Some v \<and> key_matches bo k addr \<and>
      (\<forall>k' \<in> dom (tbl_get (bounded_table max_entries) m). key_matches bo k' addr \<longrightarrow>
         prefixlen k' \<le> prefixlen k)"
    by (intro exI [of _ k])
       (auto simp: get table_inv_def dom_map_of_conv_image_fst)
qed

section \<open>Answers from the loaded values\<close>

definition range_match :: "cport_range \<Rightarrow> u16 \<Rightarrow> bool" where
  "range_match r port = (lower r \<le> port \<and> port \<le> upper r)"

lemma scan_ranges_iff:
  "ranges v = rs @ pad \<Longrightarrow> unat (range_size v) = length rs \<Longrightarrow> length rs \<le> i + fuel \<Longrightarrow>
     scan_ranges v port i fuel =
       (if \<exists>r \<in> set (drop i rs). range_match r port then mode v = 2 else mode v = 1)"
proof (induction fuel arbitrary: i)
  case 0
  then show ?case by simp
next
  case (Suc fuel)
  show ?case
  proof (cases "length rs \<le> i")
    case True
    with Suc.prems show ?thesis by simp
  next
    case False
    then have "drop i rs = rs ! i # drop (Suc i) rs" by (simp add: Cons_nth_drop_Suc)
    with Suc.IH [of "Suc i"] Suc.prems False show ?thesis
      by (auto simp: nth_append range_match_def)
  qed
qed

lemma value_filters_CFilterValue:
  assumes "CFilterValue md rs = Inr v"
  shows "value_filters v port = (case md of mode_all \<Rightarrow> True
     | mode_exclude \<Rightarrow> \<not> (\<exists>r \<in> set rs. range_match r port)
     | mode_include \<Rightarrow> \<exists>r \<in> set rs. range_match r port)"
proof -
  have len: "length rs \<le> 8"
    and v: "mode v = of_int (mode_value md)" "range_size v = of_nat (length rs)"
      "ranges v = rs @ replicate (8 - length rs) zero_range"
    using assms by (auto simp: CFilterValue_def range_array_def res_simps
        NET_FILTER_MAX_PORT_RANGES_def split: if_splits)
  have "unat (range_size v) = length rs" using len by (simp add: v(2) unat_of_nat take_bit_nat_eq_self)
  from scan_ranges_iff [OF v(3) this, of 0 8 port] len v(1) show ?thesis
    by (cases md) (simp_all add: value_filters_def NET_FILTER_MAX_PORT_RANGES_def)
qed

section \<open>Keys and subnets\<close>

text \<open>A netmask in dotted form made of leading ones, the form the documentation asks for.\<close>

definition dotted_netmask :: "string \<Rightarrow> bool" where
  "dotted_netmask s = (case ip_int_from_string s of Inl _ \<Rightarrow> False
     | Inr n \<Rightarrow> (case prefix_from_ip_int n of Inl _ \<Rightarrow> False | Inr _ \<Rightarrow> True))"

definition dotted_filter :: "pyval \<Rightarrow> bool" where
  "dotted_filter entry = (case py_index entry ''network_mask'' of
     Inr (PStr s) \<Rightarrow> dotted_netmask s | _ \<Rightarrow> False)"

lemma dotted_netmaskE:
  assumes "dotted_netmask s"
  obtains ms p where "length ms = 4" "prefix_from_ip_int (be_int ms) = Inr p"
    "netmask_to_prefixlen s = Inr p" "\<And>bo. ip_to_int bo s = Inr (unpack_native bo ms)"
proof -
  obtain n p where n: "ip_int_from_string s = Inr n" "prefix_from_ip_int n = Inr p"
    using assms by (auto simp: dotted_netmask_def split: sum.splits)
  obtain ms where ms: "length ms = 4" "be_int ms = n" "inet_aton s = Inr ms"
    using n(1) by (rule dotted_agrees)
  moreover have "netmask_to_prefixlen s = Inr p" using netmask_dotted [OF n(1)] n(2) by simp
  moreover have "\<And>bo. ip_to_int bo s = Inr (unpack_native bo ms)" by (simp add: ip_to_int_def ms(3))
  ultimately show ?thesis using that n(2) by blast
qed

lemma key_matches_alt:
  "key_matches bo k addr \<longleftrightarrow> (\<forall>i < unat (prefixlen k).
     msb_bit (mem_bytes bo (uint (data k))) i = msb_bit (mem_bytes bo (uint addr)) i)"
  by (auto simp: key_matches_def list_all_iff)

lemma uint_u32: "0 \<le> uint (w :: u32) \<and> uint w < 2 ^ 32"
  using uint_lt2p [of w] by simp

lemma key_of_dotted:
  assumes "filter_key_of bo entry = Inr k" and "dotted_filter entry"
  obtains ms p nv mv net where "length ms = 4" and "prefix_from_ip_int (be_int ms) = Inr p"
    and "py_index entry ''network'' = Inr nv" and "py_ip_to_int bo nv = Inr net"
    and "py_index entry ''network_mask'' = Inr mv"
    and "py_ip_to_int bo mv = Inr (unpack_native bo ms)"
    and "unat (prefixlen k) = p" and "uint (data k) = net AND unpack_native bo ms"
proof -
  obtain s where s: "py_index entry ''network_mask'' = Inr (PStr s)" "dotted_netmask s"
    using assms(2) by (auto simp: dotted_filter_def split: sum.splits pyval.splits)
  obtain ms p where ms: "length ms = 4" "prefix_from_ip_int (be_int ms) = Inr p"
      "netmask_to_prefixlen s = Inr p" "ip_to_int bo s = Inr (unpack_native bo ms)"
    using dotted_netmaskE [OF s(2)] by metis
  have mask: "py_ip_to_int bo (PStr s) = Inr (unpack_native bo ms)"
    by (simp add: py_ip_to_int_def as_str_def ms(4))
  from assms(1) obtain nv net where net: "py_index entry ''network'' = Inr nv"
      "py_ip_to_int bo nv = Inr net"
      and k: "prefixlen k = of_nat p" "data k = of_int (net AND unpack_native bo ms)"
    by (auto simp: filter_key_of_def res_simps s mask from_network_definition_def as_str_Inr ms(3))
  have p: "p \<le> 32" using ms(2) by (simp add: prefix_from_ip_int_iff)
  have "0 \<le> net" "net < 2 ^ 32"
    using net(2) ip_to_int_bounds by (auto simp: py_ip_to_int_def res_simps)
  then have "0 \<le> net AND unpack_native bo ms" "net AND unpack_native bo ms < 2 ^ 32"
    using AND_upper1 [of net "unpack_native bo ms"] by auto
  then have "uint (data k) = net AND unpack_native bo ms"
    unfolding k by (subst uint_word_of_int_eq, subst take_bit_int_eq_self) simp_all
  moreover have "unat (prefixlen k) = p" using p by (simp add: k unat_of_nat take_bit_nat_eq_self)
  ultimately show ?thesis using that ms(1,2) net s(1) mask by blast
qed

lemma key_matches_subnet:
  assumes "filter_key_of bo entry = Inr k" and "ip_port_filter_of bo entry = Inr f"
    and "dotted_filter entry"
  shows "key_matches bo k addr \<longleftrightarrow> netmask f AND uint addr = subnet f"
proof -
  from assms(1,3) obtain ms p nv mv net
    where ms: "length ms = 4" "prefix_from_ip_int (be_int ms) = Inr p"
      and ix: "py_index entry ''network'' = Inr nv" "py_ip_to_int bo nv = Inr net"
      "py_index entry ''network_mask'' = Inr mv" "py_ip_to_int bo mv = Inr (unpack_native bo ms)"
      and k: "unat (prefixlen k) = p" "uint (data k) = net AND unpack_native bo ms"
    by (rule key_of_dotted)
  from assms(2) ix have f: "netmask f = unpack_native bo ms" "subnet f = net AND unpack_native bo ms"
    by (auto simp: ip_port_filter_of_def res_simps)
  have un: "unpack_native bo (mem_bytes bo (uint w)) = uint w" for w :: u32
    using uint_u32 [of w] by (simp add: unpack_mem_bytes)
  have "key_matches bo k addr \<longleftrightarrow> uint (data k) AND netmask f = uint addr AND netmask f"
    using masked_eq_prefix_eq [OF ms(2,1), of "mem_bytes bo (uint (data k))" "mem_bytes bo (uint addr)" bo]
    by (simp add: key_matches_alt un f(1) k(1))
  also have "\<dots> \<longleftrightarrow> netmask f AND uint addr = subnet f"
    by (simp add: f k(2) and.assoc) (auto simp: and.commute)
  finally show ?thesis .
qed

text \<open>A normalised key has only zeros after its prefix.\<close>

definition key_normal :: "byteorder \<Rightarrow> cfilter_key \<Rightarrow> bool" where
  "key_normal bo k =
     list_all (\<lambda>i. \<not> msb_bit (mem_bytes bo (uint (data k))) i) [unat (prefixlen k)..<32]"

lemma dotted_key_normal:
  assumes "filter_key_of bo entry = Inr k" and "dotted_filter entry"
  shows "key_normal bo k"
proof -
  from assms obtain ms p nv mv net
    where ms: "length ms = 4" "prefix_from_ip_int (be_int ms) = Inr p"
      and ix: "py_index entry ''network'' = Inr nv" "py_ip_to_int bo nv = Inr net"
      and k: "unat (prefixlen k) = p" "uint (data k) = net AND unpack_native bo ms"
    by (rule key_of_dotted)
  have net: "0 \<le> net \<and> net < 2 ^ 32"
    using ix(2) ip_to_int_bounds by (auto simp: py_ip_to_int_def res_simps)
  have "uint (data k) = unpack_native bo (map2 (AND) (mem_bytes bo net) ms)"
    unfolding k(2) using unpack_and [of "mem_bytes bo net" ms bo] unpack_mem_bytes [of net bo] net ms(1)
    by simp
  then have "mem_bytes bo (uint (data k)) = map2 (AND) (mem_bytes bo net) ms"
    using ms(1) by simp
  then show ?thesis
    using ms msb_bit_netmask [OF ms(2,1)]
    by (auto simp: key_normal_def list_all_iff k(1) msb_bit_and)
qed

lemma normal_keys_unique:
  assumes "key_normal bo k" "key_normal bo k'" "prefixlen k = prefixlen k'"
    "key_matches bo k addr" "key_matches bo k' addr"
  shows "k = k'"
proof -
  have "msb_bit (mem_bytes bo (uint (data k))) i = msb_bit (mem_bytes bo (uint (data k'))) i"
    if "i < 32" for i
  proof (cases "i < unat (prefixlen k)")
    case True
    then show ?thesis using assms(3-5) by (simp add: key_matches_alt)
  next
    case False
    then show ?thesis using assms(1-3) that by (simp add: key_normal_def list_all_iff)
  qed
  then have "mem_bytes bo (uint (data k)) = mem_bytes bo (uint (data k'))"
    by (simp add: bytes_eq_msb)
  then have "uint (data k) = uint (data k')"
    using uint_u32 [of "data k"] uint_u32 [of "data k'"] by (metis unpack_mem_bytes)
  with assms(3) show ?thesis by (simp add: word_uint_eq_iff)
qed

section \<open>The most specific filter decides\<close>

lemma longest_latest: "longest kvs = Some (k, v) \<Longrightarrow> map_of (rev kvs) k = Some v"
proof (induction kvs arbitrary: k v)
  case Nil
  then show ?case by simp
next
  case (Cons kv kvs)
  show ?case
  proof (cases "longest kvs")
    case None
    with Cons.prems show ?thesis by (auto simp: longest_None)
  next
    case (Some kv')
    obtain k0 v0 where kv: "kv = (k0, v0)" by (cases kv)
    show ?thesis
    proof (cases "prefixlen (fst kv) \<le> prefixlen (fst kv')")
      case True
      with Some Cons show ?thesis by (simp add: map_add_def)
    next
      case False
      with longest_Some [OF Some] have "map_of (rev kvs) k0 = None"
        by (fastforce simp: kv map_of_eq_None_iff)
      with False Some Cons.prems show ?thesis by (simp add: kv map_add_def)
    qed
  qed
qed

lemma map_of_filter_keys: "P k \<Longrightarrow> map_of (filter (\<lambda>kv. P (fst kv)) kvs) k = map_of kvs k"
  by (induction kvs) auto

text \<open>
  The abstract answer: among the loaded entries whose key matches the address, the one with the
  longest prefix, the last of them when there are several.
\<close>

definition deciding_entry ::
    "byteorder \<Rightarrow> (cfilter_key \<times> cfilter_value) list \<Rightarrow> u32 \<Rightarrow> (cfilter_key \<times> cfilter_value) option" where
  "deciding_entry bo kvs addr = longest (filter (\<lambda>kv. key_matches bo (fst kv) addr) kvs)"

lemma deciding_entry_None:
  "deciding_entry bo kvs addr = None \<longleftrightarrow> (\<forall>k \<in> fst ` set kvs. \<not> key_matches bo k addr)"
  by (auto simp: deciding_entry_def longest_None filter_empty_conv)

lemma deciding_entry_Some:
  assumes "deciding_entry bo kvs addr = Some (k, v)"
  shows "(k, v) \<in> set kvs" and "key_matches bo k addr" and "map_of (rev kvs) k = Some v"
    and "\<And>k'. k' \<in> fst ` set kvs \<Longrightarrow> key_matches bo k' addr \<Longrightarrow> prefixlen k' \<le> prefixlen k"
proof -
  let ?l = "filter (\<lambda>kv. key_matches bo (fst kv) addr) kvs"
  have l: "longest ?l = Some (k, v)" using assms by (simp add: deciding_entry_def)
  from longest_Some [OF l] show "(k, v) \<in> set kvs" and m: "key_matches bo k addr"
    and "\<And>k'. k' \<in> fst ` set kvs \<Longrightarrow> key_matches bo k' addr \<Longrightarrow> prefixlen k' \<le> prefixlen k"
    by auto
  from longest_latest [OF l] m show "map_of (rev kvs) k = Some v"
    using map_of_filter_keys [of "\<lambda>k. key_matches bo k addr" k "rev kvs"] by (simp add: rev_filter)
qed

context lpm_trie
begin

lemma lpm_deciding:
  assumes "inv m" and "tbl_get T m = map_of (rev kvs)" and "\<forall>k \<in> fst ` set kvs. key_normal bo k"
  shows "lpm m \<lparr>prefixlen = 32, data = addr\<rparr> = map_option snd (deciding_entry bo kvs addr)"
proof (cases "lpm m \<lparr>prefixlen = 32, data = addr\<rparr>")
  case None
  with lpm_none [OF assms(1), of addr] assms(2) have "deciding_entry bo kvs addr = None"
    by (simp add: deciding_entry_None dom_map_of_conv_image_fst)
  with None show ?thesis by simp
next
  case (Some v)
  from lpm_some [OF assms(1) Some] obtain k where k: "map_of (rev kvs) k = Some v"
      "key_matches bo k addr" and k_max: "\<And>k'. k' \<in> fst ` set kvs \<Longrightarrow> key_matches bo k' addr
        \<Longrightarrow> prefixlen k' \<le> prefixlen k"
    unfolding assms(2) by (auto simp: dom_map_of_conv_image_fst)
  have k_in: "k \<in> fst ` set kvs" using k(1) by (metis map_of_eq_None_iff option.distinct(1) set_rev list.set_map)
  with k(2) obtain kv' where "deciding_entry bo kvs addr = Some kv'"
    by (metis deciding_entry_None option.exhaust)
  then obtain k' v' where d: "deciding_entry bo kvs addr = Some (k', v')" by (cases kv') simp
  note e = deciding_entry_Some [OF d]
  have k'_in: "k' \<in> fst ` set kvs" using e(1) by force
  have "prefixlen k' = prefixlen k"
    using e(4) [OF k_in k(2)] k_max [OF k'_in e(2)] by simp
  then have "k' = k" using normal_keys_unique [OF _ _ _ e(2) k(2)] assms(3) k_in k'_in by blast
  with e(3) k(1) d Some show ?thesis by simp
qed

lemma loaded_answer:
  assumes "inv m" and "set_order ord" and kvs: "mapR (filter_entry_of bo) filters = Inr kvs"
    and "fits (dom (tbl_get T m) \<union> fst ` set kvs)" and "\<forall>e \<in> set filters. dotted_filter e"
  shows "\<exists>m'. load_filters_into_map bo ord T filters True m = (Inr (), m') \<and>
     (\<forall>addr port. is_addr_port_filtered (lpm m') addr port =
        (case deciding_entry bo kvs addr of None \<Rightarrow> False | Some (k, v) \<Rightarrow> value_filters v port))"
proof -
  obtain m' where m': "load_filters_into_map bo ord T filters True m = (Inr (), m')" "inv m'"
      "tbl_get T m' = map_of (rev kvs)"
    using load_filters_content [OF assms(1-4), of True] by auto
  have "key_normal bo k" if k: "k \<in> fst ` set kvs" for k
  proof -
    from k kvs obtain e where "e \<in> set filters" "filter_key_of bo e = Inr k"
      by (fastforce simp: mapR_Inr_iff list_all2_conv_all_nth in_set_conv_nth filter_entry_of_def
          res_simps)
    then show ?thesis using dotted_key_normal assms(5) by blast
  qed
  with lpm_deciding [OF m'(2,3)] have "lpm m' \<lparr>prefixlen = 32, data = addr\<rparr>
      = map_option snd (deciding_entry bo kvs addr)" for addr by blast
  with m'(1) show ?thesis
    by (auto simp: is_addr_port_filtered_def split: option.splits)
qed

end

section \<open>What the kernel answers\<close>

text \<open>
  Property C2. For well-formed filters with dotted masks, which the table has room for, after a load
  that diffs, whatever the tables held before, the eBPF code answers for
  an address and a port by the most specific filter that contains the address, the last one listed
  when a network is listed twice; an address no filter contains is not filtered.
\<close>

theorem kernel_answer_most_specific:
  assumes "lpm_trie T I fits bo lpm" and "I m" and "set_order ord"
    and "mapR (filter_entry_of bo) filters = Inr kvs"
    and "fits (dom (tbl_get T m) \<union> fst ` set kvs)" and "\<forall>e \<in> set filters. dotted_filter e"
  shows "\<exists>m'. load_filters_into_map bo ord T filters True m = (Inr (), m') \<and>
     (\<forall>addr port. is_addr_port_filtered (lpm m') addr port =
        (case deciding_entry bo kvs addr of None \<Rightarrow> False | Some (k, v) \<Rightarrow> value_filters v port))"
  by (rule lpm_trie.loaded_answer [OF assms])

lemma example_dotted: "\<forall>e \<in> set example_filters. dotted_filter e"
proof -
  have "dotted_netmask ''255.0.0.0''"
  proof -
    have "ip_int_from_string ''255.0.0.0'' = Inr (2 ^ 32 - 2 ^ (32 - 8))"
      by (simp add: ip_int_from_string_def octet_simps be_int_def)
    moreover have "prefix_from_ip_int (2 ^ 32 - 2 ^ (32 - 8)) = Inr 8"
      by (subst prefix_from_ip_int_iff) simp
    ultimately show ?thesis by (simp add: dotted_netmask_def)
  qed
  then show ?thesis by (simp add: example_filters_def dotted_filter_def py_index_def)
qed

lemma example_deciding:
  "deciding_entry LittleEndian example_entries 0x0302010A = Some (example_entries ! 1)"
  "deciding_entry LittleEndian example_entries 0x08080808 = None"
  by code_simp+

theorem kernel_answer_most_specific_witness:
  "\<exists>m'. load_filters_into_map LittleEndian (\<lambda>xs. xs) (bounded_table (Some 512)) example_filters True []
       = (Inr (), m') \<and>
     is_addr_port_filtered (list_lpm LittleEndian m') 0x0302010A 80 \<and>
     \<not> is_addr_port_filtered (list_lpm LittleEndian m') 0x0302010A 450 \<and>
     \<not> is_addr_port_filtered (list_lpm LittleEndian m') 0x08080808 80"
proof -
  have ports: "value_filters (snd (example_entries ! 1)) 80" "\<not> value_filters (snd (example_entries ! 1)) 450"
    by code_simp+
  have "table_inv ([] :: (cfilter_key \<times> cfilter_value) list)"
    "table_fits (Some 512) (dom (tbl_get (bounded_table (Some 512)) ([] :: (cfilter_key \<times> cfilter_value) list))
       \<union> fst ` set example_entries)"
    by (simp_all add: table_inv_def table_fits_def bounded_table_def example_entries_def)
  from kernel_answer_most_specific [OF list_trie.lpm_trie_axioms this(1) set_order_id
      example_entries_of this(2) example_dotted]
  obtain m' where "load_filters_into_map LittleEndian (\<lambda>xs. xs) (bounded_table (Some 512))
      example_filters True [] = (Inr (), m')"
    and "\<forall>addr port. is_addr_port_filtered (list_lpm LittleEndian m') addr port =
        (case deciding_entry LittleEndian example_entries addr of None \<Rightarrow> False
         | Some (k, v) \<Rightarrow> value_filters v port)" by blast
  then show ?thesis using ports by (intro exI [of _ m']) (simp add: example_deciding case_prod_unfold)
qed

section \<open>The two halves agree\<close>

text \<open>
  Filters on which the user-space and the kernel filter mean the same: a dotted netmask, ports
  given as numbers, and at most one of the two port lists.
\<close>

definition port_number :: "pyval \<Rightarrow> int option" where
  "port_number v = (case v of PInt p \<Rightarrow> if 0 \<le> p \<and> p \<le> 65535 then Some p else None | _ \<Rightarrow> None)"

definition port_list :: "pyval \<Rightarrow> string \<Rightarrow> int list option" where
  "port_list entry key = (case py_get entry key (PList []) of
       Inr (PList vs) \<Rightarrow> those (map port_number vs) | _ \<Rightarrow> None)"

definition plain_filter :: "pyval \<Rightarrow> bool" where
  "plain_filter entry = (dotted_filter entry \<and>
     (case (port_list entry ''except_ports'', port_list entry ''include_ports'') of
        (Some es, Some ins) \<Rightarrow> es = [] \<or> ins = [] | _ \<Rightarrow> False))"

lemma port_number_Some: "port_number v = Some p \<Longrightarrow> v = PInt p \<and> 0 \<le> p \<and> p \<le> 65535"
  by (cases v) (auto simp: port_number_def split: if_splits)

lemma port_numbers: "those (map port_number vs) = Some ps \<Longrightarrow>
    vs = map PInt ps \<and> (\<forall>p \<in> set ps. 0 \<le> p \<and> p \<le> 65535)"
  by (induction vs arbitrary: ps) (auto split: option.splits dest: port_number_Some)

lemma port_list_Some:
  assumes "port_list entry key = Some ps"
  shows "py_get entry key (PList []) = Inr (PList (map PInt ps))" and "\<forall>p \<in> set ps. 0 \<le> p \<and> p \<le> 65535"
  using assms port_numbers
  by (auto simp: port_list_def split: sum.splits pyval.splits)

lemma int_set_ints: "int_set (PList (map PInt ps)) = Inr (set ps)"
proof -
  have "mapR py_int (map PInt ps) = Inr ps" by (induction ps) (simp_all add: py_int_def)
  then show ?thesis by (simp add: int_set_def py_iter_def)
qed

lemma range_of_int:
  assumes "0 \<le> p" "p \<le> 65535"
  shows "range_match \<lparr>lower = of_int p, upper = of_int p\<rparr> port \<longleftrightarrow> uint port = p"
proof -
  have "uint (word_of_int p :: u16) = p"
    using assms by (subst uint_word_of_int_eq, subst take_bit_int_eq_self) simp_all
  then show ?thesis by (auto simp: range_match_def word_le_def)
qed

lemma ranges_of_ints: "mapR from_conf_value (map PInt ps) =
    Inr (map (\<lambda>p. \<lparr>lower = of_int p, upper = of_int p\<rparr>) ps)"
  by (induction ps) (simp_all add: from_conf_value_def is_range_str_def CPortRange_def ct_uint_def)

lemma port_ranges_ints:
  "port_list entry key = Some ps \<Longrightarrow> ps \<noteq> [] \<Longrightarrow>
     py_get entry key PNone = Inr (PList (map PInt ps)) \<and>
     port_ranges entry key = Inr (map (\<lambda>p. \<lparr>lower = of_int p, upper = of_int p\<rparr>) ps)"
  using port_list_Some(1) [of entry key ps]
  by (cases entry) (auto simp: py_get_def port_ranges_def py_index_def py_iter_def ranges_of_ints
      split: option.splits)

lemma port_list_Nil: "port_list entry key = Some [] \<Longrightarrow>
    \<exists>v. py_get entry key PNone = Inr v \<and> \<not> truthy v"
  using port_list_Some(1) [of entry key "[]"]
  by (cases entry) (auto simp: py_get_def truthy_def split: option.splits)

lemma plain_filter_value:
  assumes "plain_filter entry" and "filter_value_of entry = Inr v" and "ip_port_filter_of bo entry = Inr f"
  shows "value_filters v port \<longleftrightarrow> uint port \<notin> except_ports f \<and>
     (include_ports f = {} \<or> uint port \<in> include_ports f)"
proof -
  obtain es ins where l: "port_list entry ''except_ports'' = Some es"
      "port_list entry ''include_ports'' = Some ins" and one: "es = [] \<or> ins = []"
    using assms(1) by (auto simp: plain_filter_def split: option.splits)
  have f: "except_ports f = set es" "include_ports f = set ins"
    using assms(3) port_list_Some(1) [OF l(1)] port_list_Some(1) [OF l(2)]
    by (auto simp: ip_port_filter_of_def res_simps int_set_ints)
  have rm: "(\<exists>r \<in> set (map (\<lambda>p. \<lparr>lower = of_int p, upper = of_int p\<rparr>) ps). range_match r port)
      \<longleftrightarrow> uint port \<in> set ps" if "port_list entry key = Some ps" for key ps
    using port_list_Some(2) [OF that] by (auto simp: range_of_int)
  show ?thesis
  proof (cases "es = []")
    case False
    with one port_ranges_ints [OF l(1)] assms(2) have
      "CFilterValue mode_exclude (map (\<lambda>p. \<lparr>lower = of_int p, upper = of_int p\<rparr>) es) = Inr v" "ins = []"
      by (auto simp: filter_value_of_def truthy_def)
    from value_filters_CFilterValue [OF this(1)] this(2) show ?thesis by (simp only: rm [OF l(1)] f) simp
  next
    case True
    note es = port_list_Nil [OF l(1) [unfolded True]]
    show ?thesis
    proof (cases "ins = []")
      case False
      with es port_ranges_ints [OF l(2)] assms(2) have
        "CFilterValue mode_include (map (\<lambda>p. \<lparr>lower = of_int p, upper = of_int p\<rparr>) ins) = Inr v"
        by (auto simp: filter_value_of_def truthy_def)
      from value_filters_CFilterValue [OF this] False True show ?thesis
        by (simp only: rm [OF l(2)] f) simp
    next
      case False': True
      from es port_list_Nil [OF l(2) [unfolded False']] assms(2) have "CFilterValue mode_all [] = Inr v"
        by (auto simp: filter_value_of_def)
      from value_filters_CFilterValue [OF this] show ?thesis by (simp add: f True False')
    qed
  qed
qed

text \<open>An address that at most one filter contains, as the user-space filter sees it.\<close>

definition one_filter_at :: "ip_port_filter list \<Rightarrow> int \<Rightarrow> bool" where
  "one_filter_at fs ip = (length (filter (\<lambda>f. netmask f AND ip = subnet f) fs) \<le> 1)"

lemma one_filter_unique:
  assumes "one_filter_at fs ip" and "i < length fs" "j < length fs"
    and "netmask (fs ! i) AND ip = subnet (fs ! i)" "netmask (fs ! j) AND ip = subnet (fs ! j)"
  shows "i = j"
proof (rule ccontr)
  assume "i \<noteq> j"
  then have "card {i, j} = 2" by simp
  moreover have "{i, j} \<subseteq> {n. n < length fs \<and> netmask (fs ! n) AND ip = subnet (fs ! n)}"
    using assms by auto
  then have "card {i, j} \<le> length (filter (\<lambda>f. netmask f AND ip = subnet f) fs)"
    unfolding length_filter_conv_card by (intro card_mono) auto
  ultimately show False using assms(1) by (simp add: one_filter_at_def)
qed

lemma deciding_user_space:
  assumes kvs: "mapR (filter_entry_of bo) filters = Inr kvs"
    and fs: "mapR (ip_port_filter_of bo) filters = Inr fs"
    and plain: "\<forall>e \<in> set filters. plain_filter e" and one: "one_filter_at fs (uint addr)"
  shows "(case deciding_entry bo kvs addr of None \<Rightarrow> False | Some (k, v) \<Rightarrow> value_filters v port) =
    is_filtered_int fs (uint addr) (uint port)"
proof -
  have len: "length kvs = length filters" "length fs = length filters"
    using mapR_Inr_length kvs fs by blast+
  have matches: "key_matches bo (fst (kvs ! i)) addr \<longleftrightarrow>
      netmask (fs ! i) AND uint addr = subnet (fs ! i)"
    and ports: "value_filters (snd (kvs ! i)) port \<longleftrightarrow> uint port \<notin> except_ports (fs ! i) \<and>
      (include_ports (fs ! i) = {} \<or> uint port \<in> include_ports (fs ! i))" if "i < length filters" for i
  proof -
    from that kvs fs have e: "filter_key_of bo (filters ! i) = Inr (fst (kvs ! i))"
        "filter_value_of (filters ! i) = Inr (snd (kvs ! i))"
        "ip_port_filter_of bo (filters ! i) = Inr (fs ! i)"
      by (auto simp: mapR_Inr_iff list_all2_conv_all_nth filter_entry_of_def res_simps)
        (metis fst_conv snd_conv)+
    have p: "plain_filter (filters ! i)" using plain that by simp
    then show "key_matches bo (fst (kvs ! i)) addr \<longleftrightarrow>
        netmask (fs ! i) AND uint addr = subnet (fs ! i)"
      using key_matches_subnet [OF e(1,3)] by (simp add: plain_filter_def)
    show "value_filters (snd (kvs ! i)) port \<longleftrightarrow> uint port \<notin> except_ports (fs ! i) \<and>
        (include_ports (fs ! i) = {} \<or> uint port \<in> include_ports (fs ! i))"
      by (rule plain_filter_value [OF p e(2,3)])
  qed
  show ?thesis
  proof (cases "deciding_entry bo kvs addr")
    case None
    then have "\<forall>i < length fs. \<not> netmask (fs ! i) AND uint addr = subnet (fs ! i)"
      using matches len by (auto simp: deciding_entry_None)
    then have "\<not> is_filtered_int fs (uint addr) (uint port)"
      by (auto simp: is_filtered_int_iff ip_port_match_def in_set_conv_nth)
    with None show ?thesis by simp
  next
    case (Some kv)
    then obtain k v where d: "deciding_entry bo kvs addr = Some (k, v)" by (cases kv) simp
    note e = deciding_entry_Some [OF d]
    from e(1) obtain i where i: "i < length kvs" "kvs ! i = (k, v)" by (auto simp: in_set_conv_nth)
    have mi: "netmask (fs ! i) AND uint addr = subnet (fs ! i)"
      using matches [of i] e(2) i len by simp
    have "is_filtered_int fs (uint addr) (uint port) = ip_port_match (fs ! i) (uint addr) (uint port)"
    proof
      assume "is_filtered_int fs (uint addr) (uint port)"
      then obtain j where "j < length fs" "ip_port_match (fs ! j) (uint addr) (uint port)"
        by (auto simp: is_filtered_int_iff in_set_conv_nth)
      moreover from this have "j = i" using mi i len one
        by (intro one_filter_unique [OF one]) (auto simp: ip_port_match_def)
      ultimately show "ip_port_match (fs ! i) (uint addr) (uint port)" by simp
    next
      assume "ip_port_match (fs ! i) (uint addr) (uint port)"
      then show "is_filtered_int fs (uint addr) (uint port)"
        using i(1) len by (auto simp: is_filtered_int_iff)
    qed
    with ports [of i] d mi i len show ?thesis by (simp add: ip_port_match_def)
  qed
qed

text \<open>
  Property C12. At an address that at most one filter contains, the eBPF code answers from the loaded
  table exactly what the user-space \<open>NetFilter\<close> answers from the same filters, for every
  port, when the netmasks are dotted and contiguous, the ports are numbers and no filter has both
  port lists.
\<close>

theorem kernel_agrees_with_NetFilter:
  assumes "lpm_trie T I fits bo lpm" and "I m" and "set_order ord"
    and "mapR (filter_entry_of bo) filters = Inr kvs"
    and "fits (dom (tbl_get T m) \<union> fst ` set kvs)" and "\<forall>e \<in> set filters. plain_filter e"
    and "NetFilter bo (PList filters) = Inr fs" and "one_filter_at fs (uint addr)"
  shows "\<exists>m'. load_filters_into_map bo ord T filters True m = (Inr (), m') \<and>
     (\<forall>port. is_addr_port_filtered (lpm m') addr port = is_filtered_int fs (uint addr) (uint port))"
proof -
  have "\<forall>e \<in> set filters. dotted_filter e" using assms(6) by (simp add: plain_filter_def)
  moreover have "mapR (ip_port_filter_of bo) filters = Inr fs"
    using assms(7) by (simp add: NetFilter_def py_iter_def)
  ultimately show ?thesis
    using lpm_trie.loaded_answer [OF assms(1-5)] deciding_user_space [OF assms(4) _ assms(6,8)]
    by auto
qed

text \<open>
  Two filters on nested networks: everything in 10.0.0.0/8, and in 10.1.0.0/16 all but port 443.
\<close>

definition nested_filters :: "pyval list" where
  "nested_filters =
    [PDict [(''network'', PStr ''10.0.0.0''), (''network_mask'', PStr ''255.0.0.0'')],
     PDict [(''network'', PStr ''10.1.0.0''), (''network_mask'', PStr ''255.255.0.0''),
            (''except_ports'', PList [PInt 443])]]"

definition nested_entries :: "(cfilter_key \<times> cfilter_value) list" where
  "nested_entries =
    [(\<lparr>prefixlen = 8, data = 10\<rparr>,
      \<lparr>mode = 0, range_size = 0, ranges = replicate 8 zero_range\<rparr>),
     (\<lparr>prefixlen = 16, data = 266\<rparr>,
      \<lparr>mode = 1, range_size = 1, ranges = \<lparr>lower = 443, upper = 443\<rparr> # replicate 7 zero_range\<rparr>)]"

definition nested_fs :: "ip_port_filter list" where
  "nested_fs =
    [\<lparr>subnet = 10, netmask = 255, except_ports = {}, include_ports = {}\<rparr>,
     \<lparr>subnet = 266, netmask = 65535, except_ports = {443}, include_ports = {}\<rparr>]"

lemma nested_addresses:
  "ip_to_int LittleEndian ''10.0.0.0'' = Inr 10"
  "ip_to_int LittleEndian ''10.1.0.0'' = Inr 266"
  "ip_to_int LittleEndian ''255.255.0.0'' = Inr 65535"
  by (simp_all add: ip_to_int_eval octet_simps unpack_native_def)

lemma nested_netmask: "netmask_to_prefixlen ''255.255.0.0'' = Inr 16"
  by (rule netmask_eval) (simp_all add: ip_int_from_string_def octet_simps be_int_def)

lemma nested_entries_of: "mapR (filter_entry_of LittleEndian) nested_filters = Inr nested_entries"
  by (simp add: nested_filters_def nested_entries_def filter_entry_of_def filter_key_of_def
      filter_value_of_def from_network_definition_def py_ip_to_int_def port_ranges_def
      CFilterValue_def range_array_def NET_FILTER_MAX_PORT_RANGES_def conf_simps octet_simps
      example_addresses example_netmask nested_addresses nested_netmask)

lemma nested_fs_of: "NetFilter LittleEndian (PList nested_filters) = Inr nested_fs"
  by (simp add: nested_filters_def nested_fs_def NetFilter_def py_iter_def ip_port_filter_of_def
      py_ip_to_int_def int_set_def py_int_def as_str_def py_index_def py_get_def
      example_addresses nested_addresses)

lemma nested_plain: "\<forall>e \<in> set nested_filters. plain_filter e"
proof -
  have n: "ip_int_from_string ''255.0.0.0'' = Inr 4278190080"
    "ip_int_from_string ''255.255.0.0'' = Inr 4294901760"
    by (simp_all add: ip_int_from_string_def octet_simps be_int_def)
  have "prefix_from_ip_int 4278190080 = Inr 8" "prefix_from_ip_int 4294901760 = Inr 16"
    by (simp_all add: prefix_from_ip_int_iff)
  with n have "dotted_netmask ''255.0.0.0''" "dotted_netmask ''255.255.0.0''"
    by (simp_all add: dotted_netmask_def)
  then show ?thesis
    by (simp add: nested_filters_def plain_filter_def dotted_filter_def py_index_def py_get_def
        port_list_def port_number_def)
qed

lemma nested_table:
  "table_inv ([] :: (cfilter_key \<times> cfilter_value) list)"
  "table_fits (Some 512) (dom (tbl_get (bounded_table (Some 512)) ([] :: (cfilter_key \<times> cfilter_value) list))
     \<union> fst ` set nested_entries)"
  by (simp_all add: table_inv_def table_fits_def bounded_table_def nested_entries_def)

theorem kernel_agrees_with_NetFilter_witness:
  "\<exists>m'. load_filters_into_map LittleEndian (\<lambda>xs. xs) (bounded_table (Some 512)) nested_filters True []
       = (Inr (), m') \<and>
     (\<forall>port. is_addr_port_filtered (list_lpm LittleEndian m') 0x0101020A port)"
proof -
  have "one_filter_at nested_fs (uint (0x0101020A :: u32))"
    "\<And>port :: u16. is_filtered_int nested_fs (uint (0x0101020A :: u32)) (uint port)"
    by (simp_all add: one_filter_at_def nested_fs_def)
  with kernel_agrees_with_NetFilter [OF list_trie.lpm_trie_axioms nested_table(1) set_order_id
      nested_entries_of nested_table(2) nested_plain nested_fs_of this(1)]
  show ?thesis by auto
qed

text \<open>
  Property C36. On nested networks the two halves of the program differ: with everything in
  10.0.0.0/8 filtered and everything but port 443 in 10.1.0.0/16, the user-space filter drops port
  443 at 10.1.2.3 because of the wider network, and the kernel reports it because only the
  narrower one is consulted.
\<close>

theorem nested_filters_diverge:
  "\<exists>m'. load_filters_into_map LittleEndian (\<lambda>xs. xs) (bounded_table (Some 512)) nested_filters True []
       = (Inr (), m') \<and>
     \<not> is_addr_port_filtered (list_lpm LittleEndian m') 0x0302010A 443 \<and>
     (\<exists>fs. NetFilter LittleEndian (PList nested_filters) = Inr fs \<and>
       is_filtered_int fs (uint (0x0302010A :: u32)) 443)"
proof -
  have d: "deciding_entry LittleEndian nested_entries 0x0302010A = Some (nested_entries ! 1)"
    "\<not> value_filters (snd (nested_entries ! 1)) 443"
    by code_simp+
  have "\<forall>e \<in> set nested_filters. dotted_filter e" using nested_plain by (simp add: plain_filter_def)
  from list_trie.loaded_answer [OF nested_table(1) set_order_id nested_entries_of nested_table(2) this]
  obtain m' where m': "load_filters_into_map LittleEndian (\<lambda>xs. xs) (bounded_table (Some 512))
      nested_filters True [] = (Inr (), m')"
    and a: "\<forall>addr port. is_addr_port_filtered (list_lpm LittleEndian m') addr port =
        (case deciding_entry LittleEndian nested_entries addr of None \<Rightarrow> False
         | Some (k, v) \<Rightarrow> value_filters v port)" by blast
  have "\<not> is_addr_port_filtered (list_lpm LittleEndian m') 0x0302010A 443"
    using a d by (simp add: case_prod_unfold)
  moreover have "is_filtered_int nested_fs (uint (0x0302010A :: u32)) 443" by (simp add: nested_fs_def)
  ultimately show ?thesis using m' nested_fs_of by blast
qed

section \<open>Global port filters\<close>

lemma unat_c_int: "0 \<le> p \<Longrightarrow> p \<le> 65535 \<Longrightarrow> unat (c_int p) < 65536"
  unfolding c_int_def unat_eq_nat_uint
  by (subst uint_word_of_int_eq, subst take_bit_int_eq_self) simp_all

lemma global_port_answer:
  assumes "port_table T I fits" and "I m" and "set_order ord" and "md \<noteq> mode_all"
    and "portset_of filters = Inr ports" and "\<forall>p \<in> set ports. 0 \<le> p \<and> p \<le> 65535"
    and "fits (dom (tbl_get T m))" and "\<forall>p. 0 \<le> p \<and> p \<le> 65535 \<longrightarrow> c_int p \<in> dom (tbl_get T m)"
  shows "\<exists>m'. load_port_filters_into_map ord T filters md True m = (Inr (), m') \<and>
     (\<forall>port. 0 < port \<longrightarrow> is_port_globally_filtered (tbl_get T m') port =
        (if md = mode_exclude then uint port \<in> set ports else uint port \<notin> set ports))"
proof -
  obtain m' where m': "load_port_filters_into_map ord T filters md True m = (Inr (), m')"
      "tbl_get T m' (c_int 0) = Some (of_int (mode_value md))"
      "\<And>p. 0 < p \<and> p \<le> 65535 \<Longrightarrow> tbl_get T m' (c_int p) = Some (if p \<in> set ports then 1 else 0)"
    using port_table.load_port_filters_content [OF assms(1,2,7,3-6,8), of True] by auto
  have "is_port_globally_filtered (tbl_get T m') port =
      (if md = mode_exclude then uint port \<in> set ports else uint port \<notin> set ports)"
    if "0 < port" for port :: u16
  proof -
    have p: "0 < uint port" "uint port \<le> 65535"
      using that uint_lt2p [of port] by (simp_all add: word_less_def)
    have "c_int (uint port) = ucast port" "c_int 0 = 0" by (simp_all add: c_int_def)
    with m'(2) m'(3) [of "uint port"] p
    have "tbl_get T m' 0 = Some (of_int (mode_value md))"
      "tbl_get T m' (ucast port) = Some (if uint port \<in> set ports then 1 else 0)" by simp_all
    with assms(4) show ?thesis
      by (cases md) (simp_all add: is_port_globally_filtered_def)
  qed
  with m'(1) show ?thesis by blast
qed

text \<open>
  After the global port filters are loaded into the array of 65536 cells, in either
  mode and whatever the array held, the eBPF code drops in \<open>exclude\<close> mode exactly the
  listed ports and in \<open>include\<close> mode exactly the others, for every port above 0.
\<close>

theorem global_port_filter_answer:
  assumes "port_table T I fits" and "I m" and "set_order ord" and "md \<noteq> mode_all"
    and "portset_of filters = Inr ports" and "\<forall>p \<in> set ports. 0 \<le> p \<and> p \<le> 65535"
    and "fits (dom (tbl_get T m))" and "\<forall>p. 0 \<le> p \<and> p \<le> 65535 \<longrightarrow> c_int p \<in> dom (tbl_get T m)"
  shows "\<exists>m'. load_port_filters_into_map ord T filters md True m = (Inr (), m') \<and>
     (\<forall>port. 0 < port \<longrightarrow> is_port_globally_filtered (tbl_get T m') port =
        (if md = mode_exclude then uint port \<in> set ports else uint port \<notin> set ports))"
  by (rule global_port_answer [OF assms])

lemma full_array:
  fixes m :: "u8 list"
  assumes "length m = 65536"
  shows "array_inv 65536 m" and "array_fits 65536 (dom (tbl_get array_table m))"
    and "\<forall>p. 0 \<le> p \<and> p \<le> 65535 \<longrightarrow> c_int p \<in> dom (tbl_get array_table m)"
  using assms unat_c_int
  by (auto simp: array_inv_def array_fits_def array_table_def dom_def split: if_splits)

theorem global_port_filter_answer_witness:
  "\<exists>m'. load_port_filters_into_map (\<lambda>xs. xs) array_table [PInt 80, PStr ''1000-1001''] mode_include True
       (replicate 65536 7) = (Inr (), m') \<and>
     is_port_globally_filtered (tbl_get array_table m') 443 \<and>
     \<not> is_port_globally_filtered (tbl_get array_table m') 1001"
proof -
  define m :: "u8 list" where "m = replicate 65536 7"
  have len: "length m = 65536" unfolding m_def by (rule length_replicate)
  have "portset_of [PInt 80, PStr ''1000-1001''] = Inr [80, 1000, 1001]"
    by (simp add: portset_of_def port_elements_def port_range_mapper_def conf_simps octet_simps
        py_int_def py_range_def upto_rec1)
  moreover note full_array [OF len]
  ultimately have "\<exists>m'. load_port_filters_into_map (\<lambda>xs. xs) array_table [PInt 80, PStr ''1000-1001'']
       mode_include True m = (Inr (), m') \<and>
     (\<forall>port. 0 < port \<longrightarrow> is_port_globally_filtered (tbl_get array_table m') port =
        (if mode_include = mode_exclude then uint port \<in> set [80, 1000, 1001]
         else uint port \<notin> set [80, 1000, 1001]))"
    by (intro global_port_filter_answer [OF port_filter_map.port_table_axioms]) auto
  then show ?thesis unfolding m_def [symmetric] by auto
qed

end
