(* ===== verification/Udp_Kernel.thy ===== *)
theory Udp_Kernel
  imports Udp_Session Kernel_Filter
begin

text \<open>
  The eBPF program of the UDP probe, \<^verbatim>\<open>pidtree_bcc/probes/udp_session.j2\<close>, and its
  composition with the user-space half: the kernel remembers which sockets it is tracing, the probe
  keeps a session for each. What the kernel functions read of their arguments is the record of the
  call; the filters and the mount namespace test are arguments.
\<close>

section \<open>The probed functions\<close>

text \<open>Swapping the bytes of a port in network order on a little-endian host.\<close>

definition ntohs :: "byteorder \<Rightarrow> u16 \<Rightarrow> u16" where
  "ntohs bo w = (case bo of BigEndian \<Rightarrow> w
     | LittleEndian \<Rightarrow> (push_bit 8 w) OR (drop_bit 8 w))"

record sendmsg_call =
  family_inet :: bool
  sk :: u64
  sk_daddr :: u32
  sk_dport :: u16
  sin_addr :: u32
  sin_port :: u16
  call_pid :: u32
  call_mntns :: int

record release_call =
  is_udp :: bool
  released :: u64
  release_pid :: u32
  release_mntns :: int

text \<open>
  The table of traced sockets: at most \<open>max_entries\<close> of them, and an update that does not
  fit is dropped without notice.
\<close>

definition tracing_update :: "nat \<Rightarrow> u64 \<Rightarrow> u64 list \<Rightarrow> u64 list" where
  "tracing_update max_entries sp tracing =
     (if sp \<in> set tracing then tracing else if length tracing < max_entries then sp # tracing else tracing)"

definition call_daddr :: "sendmsg_call \<Rightarrow> u32" where
  "call_daddr c = (if sin_addr c \<noteq> 0 then sin_addr c else sk_daddr c)"

definition call_dport :: "byteorder \<Rightarrow> sendmsg_call \<Rightarrow> u16" where
  "call_dport bo c = ntohs bo (if sin_port c \<noteq> 0 then sin_port c else sk_dport c)"

definition kprobe__udp_sendmsg ::
    "byteorder \<Rightarrow> nat \<Rightarrow> bool \<Rightarrow> (int \<Rightarrow> bool) \<Rightarrow> (u32 \<Rightarrow> u16 \<Rightarrow> bool) \<Rightarrow> sendmsg_call \<Rightarrow> u64 list \<Rightarrow>
       udp_event option \<times> u64 list" where
  "kprobe__udp_sendmsg bo max_entries container_labels mntns_included filtered c tracing =
     (if \<not> family_inet c then (None, tracing)
      else if container_labels \<and> \<not> mntns_included (call_mntns c) then (None, tracing)
      else if filtered (call_daddr c) (call_dport bo c) then (None, tracing)
      else let trace_flag = (if sk c \<in> set tracing then SESSION_CONTINUE else SESSION_START);
               event = \<lparr>ev_type = trace_flag, sock_pointer = sk c,
                        ev_msg = Some (call_pid c, call_daddr c, call_dport bo c),
                        mntns_id = (if container_labels then Some (call_mntns c) else None)\<rparr>
           in (Some event, if trace_flag = SESSION_START then tracing_update max_entries (sk c) tracing
                           else tracing))"

definition kprobe__inet_release ::
    "bool \<Rightarrow> release_call \<Rightarrow> u64 list \<Rightarrow> udp_event option \<times> u64 list" where
  "kprobe__inet_release container_labels c tracing =
     (if \<not> is_udp c then (None, tracing)
      else if released c \<in> set tracing
      then (Some \<lparr>ev_type = SESSION_END, sock_pointer = released c,
                  ev_msg = Some (release_pid c, 0, 0),
                  mntns_id = (if container_labels then Some (release_mntns c) else None)\<rparr>,
            removeAll (released c) tracing)
      else (None, tracing))"

datatype udp_call = Sendmsg sendmsg_call | Release release_call

definition udp_kernel ::
    "byteorder \<Rightarrow> nat \<Rightarrow> bool \<Rightarrow> (int \<Rightarrow> bool) \<Rightarrow> (u32 \<Rightarrow> u16 \<Rightarrow> bool) \<Rightarrow> udp_call \<Rightarrow> u64 list \<Rightarrow>
       udp_event option \<times> u64 list" where
  "udp_kernel bo max_entries labels included filtered call tracing = (case call of
       Sendmsg c \<Rightarrow> kprobe__udp_sendmsg bo max_entries labels included filtered c tracing
     | Release c \<Rightarrow> kprobe__inet_release labels c tracing)"

section \<open>Kernel and user space in step\<close>

text \<open>
  The kernel and both threads of the probe: the traced sockets, the events submitted and not yet
  polled, and the state of \<open>udp_step\<close>, in which a poll takes the oldest of those events. The
  step is labelled with what happens; a system call also with the size of the table it finds. What
  the filters and the mount namespace test answer may change from call to call, as their tables do.
\<close>

datatype udp_label = Called udp_call nat | Took udp_event | Scanned | Ended u64

type_synonym udp_system = "u64 list \<times> udp_event list \<times> (udp_probe \<times> u64 list \<times> rat)"

inductive udp_system_step ::
    "byteorder \<Rightarrow> nat \<Rightarrow> bool \<Rightarrow> (int \<Rightarrow> proc_entry list res) \<Rightarrow> (exn \<Rightarrow> string) \<Rightarrow> (rat \<Rightarrow> string) \<Rightarrow> rat \<Rightarrow>
       udp_label \<Rightarrow> udp_system \<Rightarrow> udp_system \<Rightarrow> bool"
  for bo max_entries labels crawl format_exc fr max_duration where
  called: "udp_kernel bo max_entries labels included filtered c tracing = (e, tracing') \<Longrightarrow>
      udp_system_step bo max_entries labels crawl format_exc fr max_duration (Called c (length tracing))
        (tracing, flight, u) (tracing', flight @ (case e of None \<Rightarrow> [] | Some x \<Rightarrow> [x]), u)"
| took: "clock \<le> now \<Longrightarrow>
      process_events (enrich_event_impl crawl format_exc now) fr utcnow e s = (r, s') \<Longrightarrow>
      udp_system_step bo max_entries labels crawl format_exc fr max_duration (Took e)
        (tracing, e # flight, (s, pending, clock)) (tracing, flight, (s', pending, now))"
| scanned: "clock \<le> clock' \<Longrightarrow> now \<le> clock' \<Longrightarrow>
      udp_system_step bo max_entries labels crawl format_exc fr max_duration Scanned
        (tracing, flight, (s, [], clock))
        (tracing, flight, (s\<lparr>session_tracking := mark_expired max_duration now (session_tracking s)\<rparr>,
          expired_sessions max_duration now (session_tracking s), clock'))"
| ended: "clock \<le> now \<Longrightarrow>
      process_events (enrich_event_impl crawl format_exc now) fr utcnow
        (SessionEventWrapper SESSION_END sp) s = (r, s') \<Longrightarrow>
      udp_system_step bo max_entries labels crawl format_exc fr max_duration (Ended sp)
        (tracing, flight, (s, sp # pending, clock))
        (tracing, flight, (s', (case r of Inl _ \<Rightarrow> [] | Inr _ \<Rightarrow> pending), now))"

inductive udp_system_run ::
    "byteorder \<Rightarrow> nat \<Rightarrow> bool \<Rightarrow> (int \<Rightarrow> proc_entry list res) \<Rightarrow> (exn \<Rightarrow> string) \<Rightarrow> (rat \<Rightarrow> string) \<Rightarrow> rat \<Rightarrow>
       udp_label list \<Rightarrow> udp_system \<Rightarrow> udp_system \<Rightarrow> bool"
  for bo max_entries labels crawl format_exc fr max_duration where
  here: "udp_system_run bo max_entries labels crawl format_exc fr max_duration [] st st"
| after: "udp_system_run bo max_entries labels crawl format_exc fr max_duration ls st st1 \<Longrightarrow>
      udp_system_step bo max_entries labels crawl format_exc fr max_duration l st1 st2 \<Longrightarrow>
      udp_system_run bo max_entries labels crawl format_exc fr max_duration (ls @ [l]) st st2"

text \<open>The probe's part of a step is a step of its own two threads.\<close>

lemma udp_system_step_user:
  "udp_system_step bo n labels crawl format_exc fr max_duration l (tracing, flight, u) (tracing', flight', u') \<Longrightarrow>
     u' = u \<or> udp_step crawl format_exc fr max_duration u u'"
  by (cases rule: udp_system_step.cases) (auto intro: udp_step.intros split: sum.splits)

text \<open>
  What an event says of the traced sockets, and the sockets whose session the worker has ended
  since it was last opened.
\<close>

definition traced_by :: "u64 set \<Rightarrow> udp_event \<Rightarrow> u64 set" where
  "traced_by V e = (if ev_type e = SESSION_START then insert (sock_pointer e) V
     else if ev_type e = SESSION_END then V - {sock_pointer e} else V)"

definition expired_by :: "u64 set \<Rightarrow> udp_label \<Rightarrow> u64 set" where
  "expired_by X l = (case l of
       Ended sp \<Rightarrow> insert sp X
     | Took e \<Rightarrow> if ev_type e = SESSION_START then X - {sock_pointer e} else X
     | _ \<Rightarrow> X)"

lemma process_events_tracking:
  assumes "process_events (enrich_event_impl crawl format_exc now) fr utcnow e s = (r, s')"
  shows "\<exists>r1 s1. enrich_event_impl crawl format_exc now e s = (r1, s1) \<and> session_tracking s' = session_tracking s1"
proof -
  obtain r1 s1 where en: "enrich_event_impl crawl format_exc now e s = (r1, s1)" by fastforce
  have put: "put_event fr d s1 = (r, s') \<Longrightarrow> session_tracking s' = session_tracking s1" for d
    by (cases "dumps fr (PDict d)") (auto simp: put_event_def bindE_def simp del: dumps.simps)
  have "session_tracking s' = session_tracking s1"
  proof (cases "\<exists>d. r1 = Inr (Some d) \<and> d \<noteq> []")
    case True
    then obtain d where "r1 = Inr (Some d)" "d \<noteq> []" by blast
    with assms en put show ?thesis
      by (cases "run_plugins (plugins s1) (add_event_metadata s1 utcnow d)") (auto simp: process_events_def bindE_def)
  next
    case False
    with assms en show ?thesis
      by (cases r1) (auto simp: process_events_def bindE_def split: option.splits)
  qed
  with en show ?thesis by blast
qed

lemma enrich_event_sessions:
  assumes "enrich_event_impl crawl format_exc now e s = (r, s')" and "event_ok e" and "catchable crawl"
  shows "dom (map_of (session_tracking s')) = traced_by (dom (map_of (session_tracking s))) e"
proof -
  consider (st) pid daddr dport where "ev_type e = SESSION_START" "ev_msg e = Some (pid, daddr, dport)"
    | (ct) pid daddr dport where "ev_type e = SESSION_CONTINUE" "ev_msg e = Some (pid, daddr, dport)"
    | (en) "ev_type e = SESSION_END"
    using assms(2) by (auto simp: event_ok_def)
  then show ?thesis
  proof cases
    case st
    then have "\<exists>sd. s' = s\<lparr>session_tracking := AList.update (sock_pointer e) sd (session_tracking s)\<rparr>"
      using assms(1,3) by (cases "crawl (uint pid)")
        (auto simp: enrich_event_impl_def Let_def guarded_crawl_def catchable_def)
    with st show ?thesis by (auto simp: traced_by_def update_conv')
  next
    case ct
    then have "s' = s \<or> (\<exists>sd. s' = s\<lparr>session_tracking := AList.update (sock_pointer e) sd (session_tracking s)\<rparr>) \<and>
        sock_pointer e \<in> dom (map_of (session_tracking s))"
      using assms(1) by (cases "map_of (session_tracking s) (sock_pointer e)")
        (auto simp: enrich_event_impl_def Let_def)
    with ct show ?thesis by (auto simp: traced_by_def update_conv' split: if_splits)
  next
    case en
    then have "session_tracking s' = AList.delete (sock_pointer e) (session_tracking s)"
      using assms(1) by (cases "map_of (session_tracking s) (sock_pointer e)")
        (auto simp: enrich_event_impl_def Let_def delete_id map_of_eq_None_iff)
    with en show ?thesis by (auto simp: traced_by_def delete_conv')
  qed
qed

lemma process_events_sessions:
  assumes "process_events (enrich_event_impl crawl format_exc now) fr utcnow e s = (r, s')"
    and "event_ok e" and "catchable crawl"
  shows "dom (map_of (session_tracking s')) = traced_by (dom (map_of (session_tracking s))) e"
  using process_events_tracking [OF assms(1)] enrich_event_sessions [OF _ assms(2,3)] by metis

lemma udp_kernel_traces:
  assumes "udp_kernel bo n labels included filtered c tracing = (e, tracing')" and "length tracing < n"
  shows "case e of None \<Rightarrow> tracing' = tracing | Some x \<Rightarrow> event_ok x \<and> set tracing' = traced_by (set tracing) x"
  using assms
  by (auto simp: udp_kernel_def kprobe__udp_sendmsg_def kprobe__inet_release_def tracing_update_def
      traced_by_def event_ok_def Let_def split: udp_call.splits if_splits)

text \<open>
  The invariant: when the events still in flight are taken, what they say completes the probe's
  view of the traced sockets, and the probe has a session for each socket of that view but those
  the worker has ended.
\<close>

definition in_step :: "u64 set \<Rightarrow> udp_system \<Rightarrow> bool" where
  "in_step X st = (case st of (tracing, flight, s, pending, clock) \<Rightarrow>
     list_all event_ok flight \<and>
     (\<exists>V. set tracing = foldl traced_by V flight \<and> dom (map_of (session_tracking s)) = V - X))"

lemma udp_system_step_in_step:
  assumes "udp_system_step bo n labels crawl format_exc fr max_duration l st st'"
    and "in_step X st" and "catchable crawl" and "\<forall>c m. l = Called c m \<longrightarrow> m < n"
  shows "in_step (expired_by X l) st'"
  using assms(1)
proof cases
  case (called included filtered c tracing e tracing' flight u)
  with udp_kernel_traces [of bo n labels included filtered c tracing e tracing'] assms(2,4) show ?thesis
    by (cases u; cases e) (auto simp: in_step_def expired_by_def)
next
  case (took clock now utcnow e s r s' tracing flight pending)
  with assms(2) obtain V where V: "set tracing = foldl traced_by (traced_by V e) flight" "event_ok e"
      "list_all event_ok flight" "dom (map_of (session_tracking s)) = V - X"
    by (auto simp: in_step_def)
  have "dom (map_of (session_tracking s')) = traced_by V e - expired_by X (Took e)"
    using process_events_sessions [OF took(5) V(2) assms(3)] V(4)
    by (auto simp: traced_by_def expired_by_def)
  with V took show ?thesis by (auto simp: in_step_def)
next
  case (scanned clock clock' now tracing flight s)
  have "dom (map_of (mark_expired max_duration now (session_tracking s))) = dom (map_of (session_tracking s))"
    unfolding dom_map_of_conv_image_fst by (metis list.set_map mark_expired_keys)
  with scanned assms(2) show ?thesis by (auto simp: in_step_def expired_by_def)
next
  case (ended clock now utcnow sp s r s' tracing flight pending)
  have "event_ok (SessionEventWrapper SESSION_END sp)" by (simp add: event_ok_def SessionEventWrapper_def)
  from process_events_sessions [OF ended(5) this assms(3)] ended assms(2) show ?thesis
    by (fastforce simp: in_step_def expired_by_def traced_by_def SessionEventWrapper_def)
qed

lemma udp_system_run_in_step:
  "udp_system_run bo n labels crawl format_exc fr max_duration ls st st' \<Longrightarrow> in_step {} st \<Longrightarrow>
     catchable crawl \<Longrightarrow> \<forall>c m. Called c m \<in> set ls \<longrightarrow> m < n \<Longrightarrow> in_step (foldl expired_by {} ls) st'"
  by (induction rule: udp_system_run.induct) (auto intro: udp_system_step_in_step)



end
