(* ===== verification/Sock_Kernel.thy ===== *)
theory Sock_Kernel
  imports Udp_Kernel
begin

text \<open>
  The eBPF programs of the TCP and listen probes, \<^verbatim>\<open>pidtree_bcc/probes/tcp_connect.j2\<close>
  and \<^verbatim>\<open>pidtree_bcc/probes/net_listen.j2\<close>. Both remember on entry of a kernel
  function which socket a thread works on (\<open>currsock\<close>) and report it when the function
  returns. The state of the sockets when they are read, the filters and the mount namespace test
  are arguments; the fields of the template (\<open>container_labels\<close>, \<open>net_namespace\<close>,
  \<open>exclude_random_bind\<close>) are the record of the template's settings.
\<close>

section \<open>State\<close>

record sock_common =
  skc_family_inet :: bool
  skc_daddr :: u32
  skc_dport :: u16
  skc_rcv_saddr :: u32
  skc_num :: u16
  skc_netns :: int
  sk_protocol :: u8

record template_opts =
  container_labels_on :: bool
  net_namespace_opt :: "int option"
  exclude_random_bind :: bool

type_synonym currsock = "(u32 \<times> u64) list"

text \<open>A hash table of bounded size, where an update that does not fit is dropped.\<close>

definition currsock_update :: "nat \<Rightarrow> u32 \<Rightarrow> u64 \<Rightarrow> currsock \<Rightarrow> currsock" where
  "currsock_update max_entries pid skp t =
     (if pid \<in> fst ` set t \<or> length t < max_entries then AList.update pid skp t else t)"

definition currsock_delete :: "u32 \<Rightarrow> currsock \<Rightarrow> currsock" where
  "currsock_delete pid t = AList.delete pid t"

record sock_entry =
  entry_tid :: u32
  entry_sk :: u64
  entry_mntns :: int
  entry_sin_port :: u16

record sock_return =
  return_tid :: u32
  return_rc :: i32
  return_mntns :: int

section \<open>The TCP program\<close>

record connection_t =
  connection_pid :: u32
  conn_daddr :: u32
  conn_saddr :: u32
  conn_dport :: u16
  conn_mntns :: "int option"

definition kprobe__tcp_v4_connect ::
    "template_opts \<Rightarrow> nat \<Rightarrow> (int \<Rightarrow> bool) \<Rightarrow> sock_entry \<Rightarrow> currsock \<Rightarrow> currsock" where
  "kprobe__tcp_v4_connect opts max_entries included c t =
     (if container_labels_on opts \<and> \<not> included (entry_mntns c) then t
      else currsock_update max_entries (entry_tid c) (entry_sk c) t)"

definition kretprobe__tcp_v4_connect ::
    "template_opts \<Rightarrow> byteorder \<Rightarrow> (u32 \<Rightarrow> u16 \<Rightarrow> bool) \<Rightarrow> (u64 \<Rightarrow> sock_common) \<Rightarrow> sock_return \<Rightarrow> currsock \<Rightarrow>
       connection_t option \<times> currsock" where
  "kretprobe__tcp_v4_connect opts bo filtered mem r t =
     (let pid = return_tid r in
      case map_of t pid of
        None \<Rightarrow> (None, t)
      | Some skp \<Rightarrow>
          if return_rc r \<noteq> 0 then (None, currsock_delete pid t)
          else let daddr = skc_daddr (mem skp); dport = ntohs bo (skc_dport (mem skp)) in
               if filtered daddr dport then (None, currsock_delete pid t)
               else (Some \<lparr>connection_pid = pid, conn_daddr = daddr, conn_saddr = skc_rcv_saddr (mem skp), conn_dport = dport,
                          conn_mntns = (if container_labels_on opts then Some (return_mntns r) else None)\<rparr>,
                     currsock_delete pid t))"

section \<open>The listen program\<close>

record listen_bind_t =
  lb_pid :: u32
  lb_laddr :: u32
  lb_port :: u16
  lb_protocol :: u8
  lb_mntns :: "int option"

definition net_listen_event ::
    "template_opts \<Rightarrow> (u32 \<Rightarrow> u16 \<Rightarrow> bool) \<Rightarrow> (u64 \<Rightarrow> sock_common) \<Rightarrow> sock_return \<Rightarrow> currsock \<Rightarrow>
       listen_bind_t option \<times> currsock" where
  "net_listen_event opts filtered mem r t =
     (let pid = return_tid r in
      case map_of t pid of
        None \<Rightarrow> (None, t)
      | Some skp \<Rightarrow>
          if return_rc r \<noteq> 0 then (None, currsock_delete pid t)
          else let laddr = skc_rcv_saddr (mem skp); port = skc_num (mem skp) in
               if filtered laddr port then (None, currsock_delete pid t)
               else if (case net_namespace_opt opts of None \<Rightarrow> False | Some ns \<Rightarrow> skc_netns (mem skp) \<noteq> ns)
               then (None, currsock_delete pid t)
               else (Some \<lparr>lb_pid = pid, lb_laddr = laddr, lb_port = port, lb_protocol = sk_protocol (mem skp),
                          lb_mntns = (if container_labels_on opts then Some (return_mntns r) else None)\<rparr>,
                     currsock_delete pid t))"

definition kprobe__inet_bind ::
    "template_opts \<Rightarrow> nat \<Rightarrow> (int \<Rightarrow> bool) \<Rightarrow> (u64 \<Rightarrow> sock_common) \<Rightarrow> sock_entry \<Rightarrow> currsock \<Rightarrow> currsock" where
  "kprobe__inet_bind opts max_entries included mem c t =
     (if container_labels_on opts \<and> \<not> included (entry_mntns c) then t
      else if exclude_random_bind opts \<and> entry_sin_port c = 0 then t
      else if skc_family_inet (mem (entry_sk c)) \<and> sk_protocol (mem (entry_sk c)) = 17
      then currsock_update max_entries (entry_tid c) (entry_sk c) t else t)"

definition kprobe__inet_listen ::
    "template_opts \<Rightarrow> nat \<Rightarrow> (int \<Rightarrow> bool) \<Rightarrow> (u64 \<Rightarrow> sock_common) \<Rightarrow> sock_entry \<Rightarrow> currsock \<Rightarrow> currsock" where
  "kprobe__inet_listen opts max_entries included mem c t =
     (if container_labels_on opts \<and> \<not> included (entry_mntns c) then t
      else if skc_family_inet (mem (entry_sk c))
      then currsock_update max_entries (entry_tid c) (entry_sk c) t else t)"

section \<open>Threads do not disturb each other\<close>

text \<open>The table after a sequence of entries and returns, by any threads.\<close>

fun sock_run :: "('e \<Rightarrow> currsock \<Rightarrow> currsock) \<Rightarrow> ('r \<Rightarrow> currsock \<Rightarrow> 'x option \<times> currsock) \<Rightarrow>
    ('e + 'r) list \<Rightarrow> currsock \<Rightarrow> currsock" where
  "sock_run enter leave [] t = t"
| "sock_run enter leave (Inl e # ops) t = sock_run enter leave ops (enter e t)"
| "sock_run enter leave (Inr r # ops) t = sock_run enter leave ops (snd (leave r t))"

definition by_others :: "u32 \<Rightarrow> (sock_entry + sock_return) list \<Rightarrow> bool" where
  "by_others tid ops = list_all (\<lambda>op. case op of Inl e \<Rightarrow> entry_tid e \<noteq> tid | Inr r \<Rightarrow> return_tid r \<noteq> tid) ops"

text \<open>
  What the two programs rely on in their table: an entry of a thread is what its last update
  wrote, whatever other threads do, and deleting it removes it.
\<close>

locale pending_sockets =
  fixes enter :: "sock_entry \<Rightarrow> currsock \<Rightarrow> currsock"
    and leave :: "sock_return \<Rightarrow> currsock \<Rightarrow> 'x option \<times> currsock"
  assumes enter_other: "tid \<noteq> entry_tid e \<Longrightarrow> map_of (enter e t) tid = map_of t tid"
    and leave_other: "tid \<noteq> return_tid r \<Longrightarrow> map_of (snd (leave r t)) tid = map_of t tid"
    and leave_gone: "map_of (snd (leave r t)) (return_tid r) = None"
    and leave_local: "map_of t (return_tid r) = map_of t' (return_tid r) \<Longrightarrow> fst (leave r t) = fst (leave r t')"
    and leave_unknown: "map_of t (return_tid r) = None \<Longrightarrow> fst (leave r t) = None"
begin

lemma others_keep:
  "by_others tid ops \<Longrightarrow> map_of (sock_run enter leave ops t) tid = map_of t tid"
proof (induction ops arbitrary: t)
  case (Cons op ops)
  then show ?case by (cases op) (auto simp: by_others_def enter_other leave_other)
qed simp

text \<open>The return of a thread reports from the table as the thread's own entry left it.\<close>

lemma leave_after_others:
  assumes "by_others (return_tid r) ops"
  shows "fst (leave r (sock_run enter leave ops t)) = fst (leave r t)"
    and "map_of (snd (leave r (sock_run enter leave ops t))) (return_tid r) = None"
  by (rule leave_local [OF others_keep [OF assms]], rule leave_gone)

end

lemma update_other: "tid \<noteq> pid \<Longrightarrow> map_of (currsock_update n pid skp t) tid = map_of t tid"
  by (simp add: currsock_update_def update_conv')

lemma update_same:
  "pid \<in> fst ` set t \<or> length t < n \<Longrightarrow> map_of (currsock_update n pid skp t) pid = Some skp"
  by (simp add: currsock_update_def update_conv')

lemma delete_other: "map_of (currsock_delete pid t) tid = (if tid = pid then None else map_of t tid)"
  by (simp add: currsock_delete_def delete_conv')

lemmas currsock_simps = update_other update_same delete_other

interpretation tcp: pending_sockets "kprobe__tcp_v4_connect opts n included"
    "kretprobe__tcp_v4_connect opts bo filtered mem"
  by unfold_locales
     (auto simp: kprobe__tcp_v4_connect_def kretprobe__tcp_v4_connect_def Let_def currsock_simps split: option.split)

interpretation listen: pending_sockets "kprobe__inet_listen opts n included mem"
    "net_listen_event opts filtered mem"
  by unfold_locales
     (auto simp: kprobe__inet_listen_def net_listen_event_def Let_def currsock_simps split: option.split)

interpretation bind_udp: pending_sockets "kprobe__inet_bind opts n included mem"
    "net_listen_event opts filtered mem"
  by unfold_locales
     (auto simp: kprobe__inet_bind_def net_listen_event_def Let_def currsock_simps split: option.split)

lemma connect_event:
  assumes "container_labels_on opts \<longrightarrow> included (entry_mntns c)"
    and "entry_tid c \<in> fst ` set t \<or> length t < n"
    and "by_others (entry_tid c) ops" and "return_tid r = entry_tid c"
  shows "\<exists>t'. kretprobe__tcp_v4_connect opts bo filtered mem r
      (sock_run (kprobe__tcp_v4_connect opts n included) (kretprobe__tcp_v4_connect opts bo filtered mem) ops
        (kprobe__tcp_v4_connect opts n included c t)) =
    (if return_rc r = 0 \<and> \<not> filtered (skc_daddr (mem (entry_sk c))) (ntohs bo (skc_dport (mem (entry_sk c))))
     then Some \<lparr>connection_pid = entry_tid c, conn_daddr = skc_daddr (mem (entry_sk c)),
                conn_saddr = skc_rcv_saddr (mem (entry_sk c)), conn_dport = ntohs bo (skc_dport (mem (entry_sk c))),
                conn_mntns = (if container_labels_on opts then Some (return_mntns r) else None)\<rparr>
     else None, t') \<and> map_of t' (entry_tid c) = None"
proof -
  let ?t1 = "kprobe__tcp_v4_connect opts n included c t"
  let ?t2 = "sock_run (kprobe__tcp_v4_connect opts n included) (kretprobe__tcp_v4_connect opts bo filtered mem) ops ?t1"
  have "map_of ?t1 (entry_tid c) = Some (entry_sk c)"
    using assms(1,2) by (auto simp: kprobe__tcp_v4_connect_def update_same)
  then have e: "map_of ?t2 (return_tid r) = Some (entry_sk c)"
    using tcp.others_keep [OF assms(3)] assms(4) by simp
  show ?thesis
    using e tcp.leave_gone [of opts bo filtered mem r ?t2] assms(4)
    by (auto simp: kretprobe__tcp_v4_connect_def Let_def delete_other)
qed

lemma connect_excluded:
  assumes "container_labels_on opts" and "\<not> included (entry_mntns c)" and "entry_tid c \<notin> fst ` set t"
    and "by_others (entry_tid c) ops" and "return_tid r = entry_tid c"
  shows "fst (kretprobe__tcp_v4_connect opts bo filtered mem r
      (sock_run (kprobe__tcp_v4_connect opts n included) (kretprobe__tcp_v4_connect opts bo filtered mem) ops
        (kprobe__tcp_v4_connect opts n included c t))) = None"
proof -
  have "kprobe__tcp_v4_connect opts n included c t = t" using assms(1,2) by (simp add: kprobe__tcp_v4_connect_def)
  moreover have "map_of t (return_tid r) = None" using assms(3,5) by (simp add: map_of_eq_None_iff)
  ultimately show ?thesis using tcp.leave_unknown tcp.leave_after_others(1) assms(4,5) by metis
qed

text \<open>
  A successful connection is reported exactly as it is, with the addresses of the
  socket its own thread entered with, whatever other threads do between entry and return, unless
  its namespace or destination is filtered; and the thread leaves nothing behind in the table.
\<close>

theorem tcp_connect_reported:
  assumes "container_labels_on opts \<longrightarrow> included (entry_mntns c)"
    and "entry_tid c \<in> fst ` set t \<or> length t < n"
    and "by_others (entry_tid c) ops" and "return_tid r = entry_tid c"
  shows "\<exists>t'. kretprobe__tcp_v4_connect opts bo filtered mem r
      (sock_run (kprobe__tcp_v4_connect opts n included) (kretprobe__tcp_v4_connect opts bo filtered mem) ops
        (kprobe__tcp_v4_connect opts n included c t)) =
    (if return_rc r = 0 \<and> \<not> filtered (skc_daddr (mem (entry_sk c))) (ntohs bo (skc_dport (mem (entry_sk c))))
     then Some \<lparr>connection_pid = entry_tid c, conn_daddr = skc_daddr (mem (entry_sk c)),
                conn_saddr = skc_rcv_saddr (mem (entry_sk c)), conn_dport = ntohs bo (skc_dport (mem (entry_sk c))),
                conn_mntns = (if container_labels_on opts then Some (return_mntns r) else None)\<rparr>
     else None, t') \<and> map_of t' (entry_tid c) = None"
  using assms by (rule connect_event)

definition example_sock :: "u64 \<Rightarrow> sock_common" where
  "example_sock p = \<lparr>skc_family_inet = True, skc_daddr = 16777343, skc_dport = 0x5000, skc_rcv_saddr = 16777343,
     skc_num = 4000, skc_netns = 1, sk_protocol = 6\<rparr>"

definition example_opts :: template_opts where
  "example_opts = \<lparr>container_labels_on = False, net_namespace_opt = None, exclude_random_bind = False\<rparr>"

theorem tcp_connect_reported_witness:
  "\<exists>t'. kretprobe__tcp_v4_connect example_opts LittleEndian (\<lambda>a p. False) example_sock
      \<lparr>return_tid = 7, return_rc = 0, return_mntns = 0\<rparr>
      (kprobe__tcp_v4_connect example_opts 10 (\<lambda>_. True) \<lparr>entry_tid = 8, entry_sk = 99, entry_mntns = 0, entry_sin_port = 0\<rparr>
        (kprobe__tcp_v4_connect example_opts 10 (\<lambda>_. True) \<lparr>entry_tid = 7, entry_sk = 42, entry_mntns = 0, entry_sin_port = 0\<rparr> []))
    = (Some \<lparr>connection_pid = 7, conn_daddr = 16777343, conn_saddr = 16777343, conn_dport = 80, conn_mntns = None\<rparr>, t')"
  using tcp_connect_reported [of example_opts "\<lambda>_. True" "\<lparr>entry_tid = 7, entry_sk = 42, entry_mntns = 0, entry_sin_port = 0\<rparr>"
      "[]" 10 "[Inl \<lparr>entry_tid = 8, entry_sk = 99, entry_mntns = 0, entry_sin_port = 0\<rparr>]"
      "\<lparr>return_tid = 7, return_rc = 0, return_mntns = 0\<rparr>" LittleEndian "\<lambda>a p. False" example_sock]
  by (auto simp: example_opts_def by_others_def example_sock_def ntohs_def)

text \<open>
  The same for a listening socket, with the network namespace as a further filter.
\<close>

theorem listen_reported:
  assumes "container_labels_on opts \<longrightarrow> included (entry_mntns c)" and "skc_family_inet (mem (entry_sk c))"
    and "entry_tid c \<in> fst ` set t \<or> length t < n"
    and "by_others (entry_tid c) ops" and "return_tid r = entry_tid c"
    and "return_rc r = 0" and "\<not> filtered (skc_rcv_saddr (mem (entry_sk c))) (skc_num (mem (entry_sk c)))"
    and "\<forall>ns. net_namespace_opt opts = Some ns \<longrightarrow> skc_netns (mem (entry_sk c)) = ns"
  shows "fst (net_listen_event opts filtered mem r
      (sock_run (kprobe__inet_listen opts n included mem) (net_listen_event opts filtered mem) ops
        (kprobe__inet_listen opts n included mem c t))) =
    Some \<lparr>lb_pid = entry_tid c, lb_laddr = skc_rcv_saddr (mem (entry_sk c)), lb_port = skc_num (mem (entry_sk c)),
          lb_protocol = sk_protocol (mem (entry_sk c)),
          lb_mntns = (if container_labels_on opts then Some (return_mntns r) else None)\<rparr>"
proof -
  let ?t1 = "kprobe__inet_listen opts n included mem c t"
  have "map_of ?t1 (entry_tid c) = Some (entry_sk c)"
    using assms(1,2,3) by (auto simp: kprobe__inet_listen_def update_same)
  then have "map_of (sock_run (kprobe__inet_listen opts n included mem) (net_listen_event opts filtered mem) ops ?t1)
      (return_tid r) = Some (entry_sk c)"
    using listen.others_keep [OF assms(4)] assms(5) by simp
  with assms(5-8) show ?thesis by (auto simp: net_listen_event_def Let_def split: option.split)
qed

end
