(* ===== verification/Plugins.thy ===== *)
theory Plugins
  imports Proc_Utils Probes
begin

text \<open>
  \<^verbatim>\<open>pidtree_bcc/plugins/\<close>: the loader of event plugins and the three plugins that come
  with the program. What a plugin module defines, the files under \<open>/proc\<close>, the password
  database and the configuration namespaces of \<open>staticconf\<close> are arguments.
\<close>

section \<open>Loading\<close>

datatype probe_support = AllProbes | ProbeNames "string list"

record 'p plugin_class =
  PROBE_SUPPORT :: probe_support
  new_plugin :: "pyval \<Rightarrow> 'p res"

definition plugin_package :: string where
  "plugin_package = ''pidtree_bcc.plugins''"

definition supports :: "probe_support \<Rightarrow> string \<Rightarrow> bool" where
  "supports support probe = (case support of AllProbes \<Rightarrow> True | ProbeNames ps \<Rightarrow> probe \<in> set ps)"

definition plugin_packages :: "string option \<Rightarrow> string \<Rightarrow> string list" where
  "plugin_packages extra_plugin_path plugin_name =
     map (\<lambda>p. p @ ''.'' @ plugin_name) (filter (\<lambda>p. p \<noteq> [])
       (plugin_package # (case extra_plugin_path of None \<Rightarrow> [] | Some p \<Rightarrow> [p])))"

text \<open>The guarded part: find the class, check the probe, construct the plugin.\<close>

definition instantiate_plugin ::
    "(string \<Rightarrow> 'p plugin_class member list res) \<Rightarrow> string \<Rightarrow> string list \<Rightarrow> pyval \<Rightarrow> 'p res" where
  "instantiate_plugin import_module calling_probe packages plugin_args =
     bindR (find_subclass import_module packages) (\<lambda>cls.
     if \<not> supports (PROBE_SUPPORT cls) calling_probe
     then Inl (RuntimeError ''not among supported probes'') else new_plugin cls plugin_args)"

definition load_error :: "exn \<Rightarrow> exn" where
  "load_error e = (case e of ImportError \<Rightarrow> RuntimeError ''Could not import''
     | StopIteration \<Rightarrow> RuntimeError ''Could not find plugin class in module'' | _ \<Rightarrow> e)"

text \<open>One plugin of the configuration: none when it is disabled or unloaded after an error.\<close>

definition load_plugin ::
    "(string \<Rightarrow> 'p plugin_class member list res) \<Rightarrow> string \<Rightarrow> string option \<Rightarrow> string \<times> pyval \<Rightarrow> 'p option res" where
  "load_plugin import_module calling_probe extra_plugin_path entry =
     bindR (py_get (snd entry) ''unload_on_init_exception'' (PBool False)) (\<lambda>unload.
     bindR (py_get (snd entry) ''enabled'' (PBool True)) (\<lambda>enabled.
     if \<not> truthy enabled then Inr None
     else (case instantiate_plugin import_module calling_probe
                  (plugin_packages extra_plugin_path (fst entry)) (snd entry) of
             Inr p \<Rightarrow> Inr (Some p)
           | Inl e \<Rightarrow> if \<not> is_Exception e then Inl e
               else if truthy unload then Inr None else Inl (load_error e))))"

fun load_plugins ::
    "(string \<Rightarrow> 'p plugin_class member list res) \<Rightarrow> string \<Rightarrow> string option \<Rightarrow> pyval pydict \<Rightarrow> 'p list res" where
  "load_plugins import_module calling_probe extra [] = Inr []"
| "load_plugins import_module calling_probe extra (entry # entries) =
     bindR (load_plugin import_module calling_probe extra entry) (\<lambda>p.
     bindR (load_plugins import_module calling_probe extra entries) (\<lambda>ps.
     Inr (case p of None \<Rightarrow> ps | Some x \<Rightarrow> x # ps)))"

section \<open>The plugins\<close>

definition identity_process :: "pyval pydict \<Rightarrow> pyval pydict res" where
  "identity_process event = Inr event"

text \<open>The host map files of the source address plugin, given as their lines.\<close>

definition host_lines :: "string list \<Rightarrow> string list" where
  "host_lines file = map py_strip (filter (\<lambda>line. \<not> startswith line ''#'' \<and> py_strip line \<noteq> []) file)"

definition host_entry :: "string \<Rightarrow> string \<times> string" where
  "host_entry line = (hd (split_ws line), join '' '' (tl (split_ws line)))"

definition hosts_loader :: "string list \<Rightarrow> string pydict" where
  "hosts_loader file = dict_merge [] (map host_entry (host_lines file))"

definition sourceipmap_validate_args :: "(pyval \<Rightarrow> bool) \<Rightarrow> pyval \<Rightarrow> unit res" where
  "sourceipmap_validate_args isfile args =
     bindR (py_get args ''hostfiles'' PNone) (\<lambda>hostfiles. case hostfiles of
         PNone \<Rightarrow> Inl (RuntimeError ''hostfiles option not supplied'')
       | PList files \<Rightarrow> if list_all isfile files then Inr () else Inl (RuntimeError ''hostfiles entry does not exist'')
       | _ \<Rightarrow> Inl (RuntimeError ''hostfiles option should be a list''))"

text \<open>
  The namespace of the host maps and the watchers that load files into it are objects of
  \<open>staticconf\<close>: the state \<open>'n\<close> and the operations on it are an argument. A watcher
  is known by what it is built from: the file, the namespace its keys go to, whether nested keys
  are flattened, and the least time between two looks at the file.
\<close>

record host_watcher =
  host_file :: pyval
  host_file_namespace :: string
  host_flatten :: bool
  host_min_interval :: int

definition build_configuration :: "pyval \<Rightarrow> string \<Rightarrow> host_watcher" where
  "build_configuration filename namespace =
     \<lparr>host_file = filename, host_file_namespace = namespace, host_flatten = True, host_min_interval = 2\<rparr>"

definition sourceipmap_module :: string where
  "sourceipmap_module = ''pidtree_bcc.plugins.sourceipmap''"

record 'n host_namespace =
  config_loader :: "host_watcher \<Rightarrow> ('n, unit) eff"
  reload_if_changed :: "host_watcher \<Rightarrow> ('n, unit) eff"
  read_string :: "string \<Rightarrow> string \<Rightarrow> 'n \<Rightarrow> string res"

record sourceipmap =
  attribute_key :: pyval
  config_watchers :: "host_watcher list"

definition new_sourceipmap ::
    "(pyval \<Rightarrow> bool) \<Rightarrow> 'n host_namespace \<Rightarrow> pyval \<Rightarrow> ('n, sourceipmap) eff" where
  "new_sourceipmap isfile ns args =
     bindE (liftR (sourceipmap_validate_args isfile args)) (\<lambda>_.
     bindE (liftR (py_get args ''attribute_key'' (PStr ''source_host''))) (\<lambda>key.
     bindE (liftR (bindR (py_index args ''hostfiles'') py_iter)) (\<lambda>files.
     let watchers = map (\<lambda>hostfile. build_configuration hostfile sourceipmap_module) files in
     bindE (forE watchers (config_loader ns)) (\<lambda>_.
     retE \<lparr>attribute_key = key, config_watchers = watchers\<rparr>))))"

definition sourceipmap_process ::
    "'n host_namespace \<Rightarrow> sourceipmap \<Rightarrow> pyval pydict \<Rightarrow> ('n, pyval pydict) eff" where
  "sourceipmap_process ns p event =
     (let saddr = dict_get event ''saddr'' PNone in
      bindE (forE (config_watchers p) (reload_if_changed ns)) (\<lambda>_.
      if saddr = PNone then retE event
      else bindE (liftR (as_str saddr)) (\<lambda>a. bindE (\<lambda>n. (read_string ns a [] n, n)) (\<lambda>host.
        bindE (liftR (as_str (attribute_key p))) (\<lambda>key.
        retE (AList.update key (PStr host) event))))))"

definition NO_LOGINUID :: int where "NO_LOGINUID = 4294967295"

record login_ops =
  read_loginuid :: "pyval \<Rightarrow> string res"
  getpwuid :: "int \<Rightarrow> string res"

definition get_loginuid :: "login_ops \<Rightarrow> pyval \<Rightarrow> (int \<times> string) option res" where
  "get_loginuid ops pid =
     (case bindR (read_loginuid ops pid) (\<lambda>txt. bindR (int_of_str (py_strip txt)) (\<lambda>uid.
        if uid = NO_LOGINUID then Inr None
        else bindR (getpwuid ops uid) (\<lambda>name. Inr (Some (uid, name))))) of
        Inl e \<Rightarrow> if is_Exception e then Inr None else Inl e
      | r \<Rightarrow> r)"

definition add_login :: "(int \<times> string) option \<Rightarrow> pyval pydict \<Rightarrow> pyval pydict" where
  "add_login l d = (case l of None \<Rightarrow> d
     | Some (uid, name) \<Rightarrow> AList.update ''loginname'' (PStr name) (AList.update ''loginuid'' (PInt uid) d))"

definition process_tl :: "login_ops \<Rightarrow> pyval pydict \<Rightarrow> pyval pydict res" where
  "process_tl ops event = bindR (dict_index event ''pid'') (\<lambda>pid.
     bindR (get_loginuid ops pid) (\<lambda>l. Inr (add_login l event)))"

definition is_one :: "pyval \<Rightarrow> bool" where
  "is_one v = (case v of PInt i \<Rightarrow> i = 1 | PBool b \<Rightarrow> b | PFloat q \<Rightarrow> q = 1 | _ \<Rightarrow> False)"

text \<open>The processes of the tree from the leaf up to, not including, process 1.\<close>

fun login_tree :: "login_ops \<Rightarrow> pyval list \<Rightarrow> pyval list res" where
  "login_tree ops [] = Inr []"
| "login_tree ops (proc # procs) = bindR (py_index proc ''pid'') (\<lambda>pid.
     if is_one pid then Inr (proc # procs)
     else bindR (get_loginuid ops pid) (\<lambda>l.
          bindR (case proc of PDict d \<Rightarrow> Inr (PDict (add_login l d)) | _ \<Rightarrow> Inl TypeError) (\<lambda>proc'.
          bindR (login_tree ops procs) (\<lambda>procs'. Inr (proc' # procs')))))"

definition process_pt :: "login_ops \<Rightarrow> pyval pydict \<Rightarrow> pyval pydict res" where
  "process_pt ops event = bindR (dict_index event ''proctree'') (\<lambda>tree.
     bindR (py_iter tree) (\<lambda>procs. bindR (login_tree ops procs) (\<lambda>procs'.
     Inr (AList.update ''proctree'' (PList procs') event))))"

definition loginuid_process :: "login_ops \<Rightarrow> pyval \<Rightarrow> pyval pydict \<Rightarrow> pyval pydict res" where
  "loginuid_process ops args event =
     bindR (py_get args ''top_level'' (PBool False)) (\<lambda>tl.
     if truthy tl then process_tl ops event else process_pt ops event)"

text \<open>
  The base class: a plugin that does not override \<open>process\<close> fails on the message of the
  error it means to raise, since an instance has no \<open>__name__\<close>. Then the classes the
  loader finds: the probes they support and what constructing them gives.
\<close>

definition base_validate_args :: "pyval \<Rightarrow> unit res" where
  "base_validate_args args = Inr ()"

definition base_process :: "pyval pydict \<Rightarrow> pyval pydict res" where
  "base_process event = Inl (AttributeError ''__name__'')"

definition Identityplugin :: "(pyval pydict \<Rightarrow> pyval pydict res) plugin_class" where
  "Identityplugin = \<lparr>PROBE_SUPPORT = AllProbes,
     new_plugin = (\<lambda>args. bindR (base_validate_args args) (\<lambda>_. Inr identity_process))\<rparr>"

definition LoginuidMap :: "login_ops \<Rightarrow> (pyval pydict \<Rightarrow> pyval pydict res) plugin_class" where
  "LoginuidMap ops = \<lparr>PROBE_SUPPORT = ProbeNames [''tcp_connect'', ''net_listen''],
     new_plugin = (\<lambda>args. bindR (base_validate_args args) (\<lambda>_. Inr (loginuid_process ops args)))\<rparr>"

definition Sourceipmap ::
    "(pyval \<Rightarrow> bool) \<Rightarrow> 'n host_namespace \<Rightarrow> 'n \<Rightarrow> (sourceipmap \<times> 'n) plugin_class" where
  "Sourceipmap isfile ns n0 = \<lparr>PROBE_SUPPORT = ProbeNames [''tcp_connect''],
     new_plugin = (\<lambda>args. case new_sourceipmap isfile ns args n0 of
       (Inl e, _) \<Rightarrow> Inl e | (Inr p, n) \<Rightarrow> Inr (p, n))\<rparr>"

section \<open>What the loader returns\<close>

text \<open>
  The arguments of a plugin as the loader reads them, and what the entry contributes when the
  error of a plugin that asks for it is swallowed.
\<close>

definition arg_on :: "string \<Rightarrow> pyval \<Rightarrow> pyval pydict \<Rightarrow> bool" where
  "arg_on k dflt args = truthy (dict_get args k dflt)"

definition entry_plugin ::
    "(string \<Rightarrow> 'p plugin_class member list res) \<Rightarrow> string \<Rightarrow> string option \<Rightarrow> string \<times> pyval pydict \<Rightarrow> 'p option" where
  "entry_plugin im probe extra e =
     (if arg_on ''enabled'' (PBool True) (snd e)
      then (case instantiate_plugin im probe (plugin_packages extra (fst e)) (PDict (snd e)) of
              Inr p \<Rightarrow> Some p | Inl _ \<Rightarrow> None)
      else None)"

definition entry_fails ::
    "(string \<Rightarrow> 'p plugin_class member list res) \<Rightarrow> string \<Rightarrow> string option \<Rightarrow> string \<times> pyval pydict \<Rightarrow> exn \<Rightarrow> bool" where
  "entry_fails im probe extra e x =
     (arg_on ''enabled'' (PBool True) (snd e) \<and>
      instantiate_plugin im probe (plugin_packages extra (fst e)) (PDict (snd e)) = Inl x)"

definition entry_tolerated ::
    "(string \<Rightarrow> 'p plugin_class member list res) \<Rightarrow> string \<Rightarrow> string option \<Rightarrow> string \<times> pyval pydict \<Rightarrow> bool" where
  "entry_tolerated im probe extra e =
     (\<forall>x. entry_fails im probe extra e x \<longrightarrow>
        is_Exception x \<and> arg_on ''unload_on_init_exception'' (PBool False) (snd e))"

lemma load_plugin_tolerated:
  "entry_tolerated im probe extra (n, args) \<Longrightarrow>
     load_plugin im probe extra (n, PDict args) = Inr (entry_plugin im probe extra (n, args))"
  by (auto simp: entry_tolerated_def entry_fails_def load_plugin_def entry_plugin_def arg_on_def
      py_get_def dict_get_def split: sum.split)

lemma load_plugin_fails:
  "entry_fails im probe extra (n, args) x \<Longrightarrow>
     \<not> (is_Exception x \<and> arg_on ''unload_on_init_exception'' (PBool False) args) \<Longrightarrow>
     load_plugin im probe extra (n, PDict args) = Inl (load_error x)"
  by (auto simp: entry_fails_def load_plugin_def arg_on_def py_get_def dict_get_def load_error_def
      is_Exception_def split: exn.splits)

lemma load_plugins_prefix:
  "list_all (entry_tolerated im probe extra) es \<Longrightarrow>
     load_plugins im probe extra (map (apsnd PDict) es @ later) =
       bindR (load_plugins im probe extra later)
         (\<lambda>ps. Inr (List.map_filter (entry_plugin im probe extra) es @ ps))"
proof (induction es)
  case Nil
  then show ?case by (cases "load_plugins im probe extra later") (simp_all add: List.map_filter_def)
next
  case (Cons e es)
  obtain n args where e: "e = (n, args)" by (cases e)
  with Cons show ?case
    by (cases "load_plugins im probe extra later")
       (auto simp: load_plugin_tolerated List.map_filter_def split: option.split)
qed

text \<open>
  Property C30. A configuration loads when every plugin that cannot be loaded asks to be
  unloaded on errors (with \<open>unload_on_init_exception\<close>) or is disabled; what is loaded then
  are the other plugins, in the order of the configuration, as if the failed ones were not
  listed.
\<close>

theorem load_plugins_isolates:
  assumes "list_all (entry_tolerated im probe extra) es"
  shows "load_plugins im probe extra (map (apsnd PDict) es) =
    Inr (List.map_filter (entry_plugin im probe extra) es)"
  using load_plugins_prefix [OF assms, of "[]"] by simp

text \<open>
  The first enabled plugin that fails and does not ask to be unloaded stops the
  load with its error; a plugin that cannot be imported and a module without a plugin class are
  reported as a \<open>RuntimeError\<close>.
\<close>

theorem load_plugins_first_error:
  assumes "list_all (entry_tolerated im probe extra) es"
    and "entry_fails im probe extra (n, args) x"
    and "\<not> arg_on ''unload_on_init_exception'' (PBool False) args"
  shows "load_plugins im probe extra (map (apsnd PDict) es @ (n, PDict args) # later) = Inl (load_error x)
    \<and> (x \<in> {ImportError, StopIteration} \<longrightarrow> (\<exists>what. load_error x = RuntimeError what))"
  using load_plugins_prefix [OF assms(1)] load_plugin_fails [OF assms(2)] assms(3)
  by (auto simp: load_error_def)

text \<open>A package with the identity plugin, a module without a class, and nothing else.\<close>

definition example_import :: "string \<Rightarrow> (pyval pydict \<Rightarrow> pyval pydict res) plugin_class member list res" where
  "example_import path =
     (if path = ''pidtree_bcc.plugins.identityplugin''
      then Inr [\<lparr>member_object = \<lparr>PROBE_SUPPORT = AllProbes, new_plugin = (\<lambda>_. Inr identity_process)\<rparr>,
                  member_isclass = True, member_issubclass = True, member_is_base = False\<rparr>]
      else if path = ''pidtree_bcc.plugins.empty'' then Inr []
      else Inl ImportError)"

lemmas loader_simps = instantiate_plugin_def plugin_packages_def plugin_package_def find_subclass_def
  example_import_def supports_def arg_on_def entry_fails_def dict_get_def

theorem load_plugins_isolates_witness:
  "load_plugins example_import ''tcp_connect'' None
     [(''gone'', PDict [(''unload_on_init_exception'', PBool True)]), (''identityplugin'', PDict [])]
   = Inr [identity_process]"
proof -
  let ?es = "[(''gone'', [(''unload_on_init_exception'', PBool True)]), (''identityplugin'', [])]"
  have "list_all (entry_tolerated example_import ''tcp_connect'' None) ?es"
    by (simp add: entry_tolerated_def loader_simps truthy_def is_Exception_def)
  from load_plugins_isolates [OF this] show ?thesis
    by (simp add: entry_plugin_def loader_simps truthy_def List.map_filter_def)
qed

theorem load_plugins_first_error_witness:
  "load_plugins example_import ''tcp_connect'' None [(''identityplugin'', PDict []), (''gone'', PDict [])]
   = Inl (RuntimeError ''Could not import'')"
proof -
  have "list_all (entry_tolerated example_import ''tcp_connect'' None) [(''identityplugin'', [])]"
    by (simp add: entry_tolerated_def loader_simps truthy_def)
  moreover have "entry_fails example_import ''tcp_connect'' None (''gone'', []) ImportError"
    by (simp add: loader_simps truthy_def)
  ultimately show ?thesis
    using load_plugins_first_error [of example_import "''tcp_connect''" None
        "[(''identityplugin'', [])]" "''gone''" "[]" ImportError "[]"]
    by (simp add: arg_on_def dict_get_def truthy_def load_error_def)
qed

section \<open>Host maps\<close>

lemma split_ws_drop_lead: "split_ws (dropWhile py_space s) = split_ws s"
  unfolding split_ws_def by (induction s) auto

lemma split_ws_aux_trail: "list_all py_space ws \<Longrightarrow> split_ws_aux acc (s @ ws) = split_ws_aux acc s"
proof (induction acc s rule: split_ws_aux.induct)
  case (1 acc)
  have "split_ws_aux [] ws = []" using 1 by (induction ws) auto
  with 1 show ?case by (cases ws) auto
qed auto

lemma split_ws_strip: "split_ws (py_strip s) = split_ws s"
proof -
  let ?u = "dropWhile py_space s"
  have "?u = py_strip s @ rev (takeWhile py_space (rev ?u))"
    unfolding py_strip_def by (metis rev_append rev_rev_ident takeWhile_dropWhile_id)
  moreover have "list_all py_space (rev (takeWhile py_space (rev ?u)))"
    by (auto simp: list_all_iff dest: set_takeWhileD)
  ultimately have "split_ws ?u = split_ws (py_strip s)"
    unfolding split_ws_def by (metis split_ws_aux_trail)
  then show ?thesis by (simp add: split_ws_drop_lead)
qed

lemma split_ws_aux_word:
  "list_all (\<lambda>c. \<not> py_space c) w \<Longrightarrow> split_ws_aux acc (w @ s) = split_ws_aux (rev w @ acc) s"
  by (induction w arbitrary: acc) auto

lemma split_ws_aux_pad: "list_all py_space pad \<Longrightarrow> split_ws_aux [] (pad @ s) = split_ws_aux [] s"
  by (induction pad) auto

text \<open>
  The lines a host map may have: an entry of words, each followed by white space, after optional
  leading white space; a comment; a blank line.
\<close>

datatype host_line = Entry string "(string \<times> string) list" | Comment string | Blank string

fun host_text :: "host_line \<Rightarrow> string" where
  "host_text (Entry lead ws) = lead @ concat (map (\<lambda>(w, pad). w @ pad) ws)"
| "host_text (Comment s) = ''#'' @ s"
| "host_text (Blank s) = s"

definition word_ok :: "string \<times> string \<Rightarrow> bool" where
  "word_ok wp = (fst wp \<noteq> [] \<and> list_all (\<lambda>c. \<not> py_space c) (fst wp) \<and> snd wp \<noteq> [] \<and> list_all py_space (snd wp))"

fun host_line_ok :: "host_line \<Rightarrow> bool" where
  "host_line_ok (Entry lead ws) =
     (list_all py_space lead \<and> ws \<noteq> [] \<and> list_all word_ok ws \<and> (lead = [] \<longrightarrow> hd (fst (hd ws)) \<noteq> CHR ''#''))"
| "host_line_ok (Comment s) = True"
| "host_line_ok (Blank s) = list_all py_space s"

fun host_entries :: "host_line \<Rightarrow> string pydict" where
  "host_entries (Entry lead ws) = [(fst (hd ws), join '' '' (map fst (tl ws)))]"
| "host_entries _ = []"

lemma split_ws_words:
  "list_all word_ok ws \<Longrightarrow> split_ws_aux [] (concat (map (\<lambda>(w, pad). w @ pad) ws)) = map fst ws"
proof (induction ws)
  case Nil
  then show ?case by simp
next
  case (Cons wp ws)
  obtain w pad where wp: "wp = (w, pad)" by (cases wp)
  with Cons obtain c pad' where "pad = c # pad'" "py_space c" "list_all py_space pad'"
    by (cases pad) (auto simp: word_ok_def)
  with Cons wp show ?case by (simp add: word_ok_def split_ws_aux_word split_ws_aux_pad)
qed

lemma strip_blank: "list_all py_space s \<Longrightarrow> py_strip s = []"
proof -
  assume "list_all py_space s"
  then have none: "dropWhile py_space s = []" by (simp add: list_all_iff)
  show ?thesis unfolding py_strip_def none by simp
qed

lemma host_line_entries:
  assumes "host_line_ok l"
  shows "map host_entry (host_lines [host_text l]) = host_entries l"
proof (cases l)
  case (Entry lead ws)
  with assms have ok: "list_all py_space lead" "ws \<noteq> []" "list_all word_ok ws"
    and h: "lead = [] \<longrightarrow> hd (fst (hd ws)) \<noteq> CHR ''#''" by auto
  have words: "split_ws (host_text l) = map fst ws"
    using ok Entry by (simp add: split_ws_def split_ws_aux_pad split_ws_words)
  then have ne: "py_strip (host_text l) \<noteq> []"
    using ok(2) split_ws_strip [of "host_text l"] by (auto simp: split_ws_def)
  have "hd (host_text l) \<noteq> CHR ''#''"
  proof (cases lead)
    case Nil
    with h ok Entry show ?thesis by (cases ws) (auto simp: word_ok_def hd_append)
  next
    case (Cons c cs)
    with ok(1) Entry show ?thesis by (auto simp: py_space_def)
  qed
  then have "\<not> startswith (host_text l) ''#''" by (cases "host_text l") (auto simp: startswith_def)
  with ne words show ?thesis using ok(2) Entry
    by (simp add: host_lines_def host_entry_def split_ws_strip hd_map map_tl)
qed (use assms in \<open>auto simp: host_lines_def startswith_def strip_blank\<close>)

lemma host_file_entries:
  "list_all host_line_ok ls \<Longrightarrow> map host_entry (host_lines (map host_text ls)) = concat (map host_entries ls)"
proof (induction ls)
  case Nil
  then show ?case by (simp add: host_lines_def)
next
  case (Cons l ls)
  have "host_lines (map host_text (l # ls)) = host_lines [host_text l] @ host_lines (map host_text ls)"
    by (simp add: host_lines_def)
  with Cons host_line_entries [of l] show ?case by simp
qed

text \<open>
  A host map file reads back as the entries written to it: every entry maps its
  address to the rest of its words separated by single spaces, however they are spaced in the
  file, the last entry of an address wins, and comments and blank lines are ignored.
\<close>

theorem hosts_loader_reads:
  assumes "list_all host_line_ok ls"
  shows "map_of (hosts_loader (map host_text ls)) = map_of (rev (concat (map host_entries ls)))"
  using assms by (simp add: hosts_loader_def map_of_dict_merge host_file_entries)

theorem hosts_loader_reads_witness:
  "map_of (hosts_loader [''# hosts'', '' '', ''10.0.0.1 a  b '']) ''10.0.0.1'' = Some ''a b''"
  using hosts_loader_reads [of "[Comment '' hosts'', Blank '' '',
    Entry [] [(''10.0.0.1'', '' ''), (''a'', ''  ''), (''b'', '' '')]]"]
  by (simp add: word_ok_def py_space_def)

section \<open>The source host\<close>

text \<open>
  What the plugin relies on in the namespace of \<open>staticconf\<close>: loading a file merges its
  host map, a reload leaves the namespace holding the last loaded maps, and a read returns the
  value of a key or the default. \<open>holds\<close> is the content of a namespace.
\<close>

definition host_namespace_contract ::
    "(pyval \<Rightarrow> string pydict) \<Rightarrow> ('n \<Rightarrow> string \<rightharpoonup> string) \<Rightarrow> 'n host_namespace \<Rightarrow> bool" where
  "host_namespace_contract content holds ns =
     ((\<forall>w n. \<exists>n'. config_loader ns w n = (Inr (), n') \<and> holds n' = holds n ++ map_of (content (host_file w))) \<and>
      (\<forall>w n. \<exists>n'. reload_if_changed ns w n = (Inr (), n') \<and> holds n' = holds n) \<and>
      (\<forall>n k d. read_string ns k d n = Inr (case holds n k of None \<Rightarrow> d | Some v \<Rightarrow> v)))"

lemma load_host_files:
  "host_namespace_contract content holds ns \<Longrightarrow>
     \<exists>n'. forE (map (\<lambda>f. build_configuration f name) files) (config_loader ns) n = (Inr (), n') \<and>
       holds n' = foldl (\<lambda>m f. m ++ map_of (content f)) (holds n) files"
proof (induction files arbitrary: n)
  case Nil
  then show ?case by simp
next
  case (Cons f files)
  from Cons.prems obtain n1 where n1: "config_loader ns (build_configuration f name) n = (Inr (), n1)"
    "holds n1 = holds n ++ map_of (content (host_file (build_configuration f name)))"
    unfolding host_namespace_contract_def by blast
  with Cons.IH [OF Cons.prems, of n1] show ?case by (simp add: bindE_def build_configuration_def)
qed

lemma reload_host_files:
  "host_namespace_contract content holds ns \<Longrightarrow>
     \<exists>n'. forE files (reload_if_changed ns) n = (Inr (), n') \<and> holds n' = holds n"
proof (induction files arbitrary: n)
  case Nil
  then show ?case by simp
next
  case (Cons f files)
  from Cons.prems obtain n1 where n1: "reload_if_changed ns f n = (Inr (), n1)" "holds n1 = holds n"
    unfolding host_namespace_contract_def by blast
  with Cons.IH [OF Cons.prems, of n1] show ?case by (simp add: bindE_def)
qed

definition host_name :: "(string \<rightharpoonup> string) \<Rightarrow> string \<Rightarrow> string" where
  "host_name hosts a = (case hosts a of None \<Rightarrow> [] | Some host \<Rightarrow> host)"

definition last_listed :: "(pyval \<Rightarrow> string pydict) \<Rightarrow> pyval list \<Rightarrow> string \<rightharpoonup> string" where
  "last_listed content files = foldl (\<lambda>m f. m ++ map_of (content f)) Map.empty files"

lemma new_sourceipmap_loads:
  assumes "host_namespace_contract content holds ns" and "holds n0 = Map.empty"
    and "map_of args ''hostfiles'' = Some (PList files)" and "list_all isfile files"
    and "dict_get args ''attribute_key'' (PStr ''source_host'') = PStr key"
  shows "\<exists>n. new_sourceipmap isfile ns (PDict args) n0 =
      (Inr \<lparr>attribute_key = PStr key,
            config_watchers = map (\<lambda>f. build_configuration f sourceipmap_module) files\<rparr>, n) \<and>
    holds n = last_listed content files"
proof -
  obtain n where "forE (map (\<lambda>f. build_configuration f sourceipmap_module) files) (config_loader ns) n0 = (Inr (), n)" "holds n = last_listed content files"
    using load_host_files [OF assms(1), of sourceipmap_module files n0] assms(2) by (auto simp: last_listed_def)
  with assms(3,4,5) show ?thesis
    by (simp add: new_sourceipmap_def sourceipmap_validate_args_def bindE_def py_get_def py_index_def
        py_iter_def dict_get_def Let_def)
qed

lemma sourceipmap_process_names:
  assumes "host_namespace_contract content holds ns" and "attribute_key p = PStr key"
  shows "map_of event ''saddr'' = Some (PStr a) \<Longrightarrow> \<exists>n'. holds n' = holds n \<and>
      sourceipmap_process ns p event n = (Inr (AList.update key (PStr (host_name (holds n) a)) event), n')"
    and "map_of event ''saddr'' \<in> {None, Some PNone} \<Longrightarrow> \<exists>n'. holds n' = holds n \<and>
      sourceipmap_process ns p event n = (Inr event, n')"
proof -
  obtain n' where n': "forE (config_watchers p) (reload_if_changed ns) n = (Inr (), n')" "holds n' = holds n"
    using reload_host_files [OF assms(1)] by blast
  have rd: "read_string ns k [] n' = Inr (host_name (holds n) k)" for k
    using assms(1) n'(2) unfolding host_namespace_contract_def host_name_def by metis
  note simps = sourceipmap_process_def Let_def dict_get_def bindE_def as_str_def assms(2) n' rd
  show "\<exists>n'. holds n' = holds n \<and>
      sourceipmap_process ns p event n = (Inr (AList.update key (PStr (host_name (holds n) a)) event), n')"
    if "map_of event ''saddr'' = Some (PStr a)" using that by (intro exI [of _ n']) (simp add: simps)
  show "\<exists>n'. holds n' = holds n \<and> sourceipmap_process ns p event n = (Inr event, n')"
    if "map_of event ''saddr'' \<in> {None, Some PNone}"
    using that by (intro exI [of _ n']) (auto simp: simps)
qed

text \<open>
  A source address plugin constructed with a list of existing host files names the
  source of events as long as the files do not change: the attribute it adds is the name the last
  of the files that list the address gives it, or the empty string when none does.
\<close>

theorem sourceipmap_names_source:
  assumes "host_namespace_contract content holds ns" and "holds n0 = Map.empty"
    and "map_of args ''hostfiles'' = Some (PList files)" and "list_all isfile files"
    and "dict_get args ''attribute_key'' (PStr ''source_host'') = PStr key"
    and "map_of event ''saddr'' = Some (PStr a)"
  shows "\<exists>p n n'. new_sourceipmap isfile ns (PDict args) n0 = (Inr p, n) \<and>
    sourceipmap_process ns p event n =
      (Inr (AList.update key (PStr (host_name (last_listed content files) a)) event), n')"
proof -
  let ?p = "\<lparr>attribute_key = PStr key, config_watchers = map (\<lambda>f. build_configuration f sourceipmap_module) files\<rparr>"
  obtain n where n: "new_sourceipmap isfile ns (PDict args) n0 = (Inr ?p, n)" "holds n = last_listed content files"
    using new_sourceipmap_loads [OF assms(1-5)] by blast
  obtain n' where "sourceipmap_process ns ?p event n =
      (Inr (AList.update key (PStr (host_name (holds n) a)) event), n')"
    using sourceipmap_process_names(1) [OF assms(1) _ assms(6), of ?p key n] by auto
  with n show ?thesis by metis
qed

text \<open>A namespace kept as a dictionary, two files on disk.\<close>

definition example_hosts :: "pyval \<Rightarrow> string pydict" where
  "example_hosts f = hosts_loader (if f = PStr ''/etc/a'' then [''10.0.0.1 db ''] else [''10.0.0.1 db replica ''])"

definition example_namespace :: "(string pydict) host_namespace" where
  "example_namespace = \<lparr>
     config_loader = (\<lambda>w n. (Inr (), dict_merge n (rev (example_hosts (host_file w))))),
     reload_if_changed = (\<lambda>w n. (Inr (), n)),
     read_string = (\<lambda>k d n. Inr (dict_get n k d))\<rparr>"

theorem sourceipmap_names_source_witness:
  "\<exists>p n n'. new_sourceipmap (\<lambda>_. True) example_namespace
      (PDict [(''hostfiles'', PList [PStr ''/etc/a'', PStr ''/etc/b''])]) [] = (Inr p, n) \<and>
    sourceipmap_process example_namespace p [(''saddr'', PStr ''10.0.0.1'')] n =
      (Inr [(''saddr'', PStr ''10.0.0.1''), (''source_host'', PStr ''db replica'')], n')"
proof -
  have c: "host_namespace_contract example_hosts map_of example_namespace"
    by (simp add: host_namespace_contract_def example_namespace_def map_of_dict_merge dict_get_def)
  have "host_name (last_listed example_hosts [PStr ''/etc/a'', PStr ''/etc/b'']) ''10.0.0.1'' = ''db replica''"
    by (simp add: host_name_def last_listed_def example_hosts_def hosts_loader_def host_lines_def
        startswith_def py_strip_def py_space_def host_entry_def split_ws_def dict_merge_def)
  with sourceipmap_names_source [OF c, of "[]" "[(''hostfiles'', PList [PStr ''/etc/a'', PStr ''/etc/b''])]"
      "[PStr ''/etc/a'', PStr ''/etc/b'']" "\<lambda>_. True" "''source_host''" "[(''saddr'', PStr ''10.0.0.1'')]" "''10.0.0.1''"]
  show ?thesis by (simp add: dict_get_def)
qed

section \<open>Login users\<close>

text \<open>
  The login a process has, as far as it can be read: the number in its file, unless that is the one
  that stands for no login, with the user's name. The process with it written in has two more keys.
\<close>

definition login_of :: "login_ops \<Rightarrow> pyval \<Rightarrow> (int \<times> string) option" where
  "login_of ops pid = (case read_loginuid ops pid of Inl _ \<Rightarrow> None
     | Inr txt \<Rightarrow> (case int_of_str (py_strip txt) of Inl _ \<Rightarrow> None
     | Inr uid \<Rightarrow> if uid = 4294967295 then None
         else (case getpwuid ops uid of Inl _ \<Rightarrow> None | Inr name \<Rightarrow> Some (uid, name))))"

definition login_safe :: "login_ops \<Rightarrow> bool" where
  "login_safe ops = (\<forall>pid e uid. (read_loginuid ops pid = Inl e \<or> getpwuid ops uid = Inl e) \<longrightarrow> is_Exception e)"

lemma get_loginuid_total: "login_safe ops \<Longrightarrow> get_loginuid ops pid = Inr (login_of ops pid)"
proof -
  assume safe: "login_safe ops"
  have int: "is_Exception e" if "int_of_str s = Inl e" for s e
    using that by (auto simp: int_of_str_def is_Exception_def Let_def
        split: list.splits option.splits prod.splits if_splits)
  show ?thesis
  proof (cases "read_loginuid ops pid")
    case (Inr content)
    then show ?thesis using safe int
      by (cases "int_of_str (py_strip content)"; cases "getpwuid ops (projr (int_of_str (py_strip content)))")
         (auto simp: get_loginuid_def login_of_def login_safe_def NO_LOGINUID_def)
  next
    case (Inl e)
    then show ?thesis using safe by (auto simp: get_loginuid_def login_of_def login_safe_def)
  qed
qed

definition annotate :: "login_ops \<Rightarrow> int \<times> pyval pydict \<Rightarrow> pyval" where
  "annotate ops p = PDict (case login_of ops (PInt (fst p)) of
       None \<Rightarrow> snd p
     | Some (uid, name) \<Rightarrow> AList.update ''loginname'' (PStr name) (AList.update ''loginuid'' (PInt uid) (snd p)))"

lemma annotate_add: "annotate ops (pid, d) = PDict (add_login (login_of ops (PInt pid)) d)"
  by (simp add: annotate_def add_login_def split: option.split)

lemma login_tree_prefix:
  "login_safe ops \<Longrightarrow> list_all (\<lambda>(pid, d). map_of d ''pid'' = Some (PInt pid) \<and> pid \<noteq> 1) ps \<Longrightarrow>
   rest = [] \<or> (\<exists>d ds. rest = PDict d # ds \<and> map_of d ''pid'' = Some (PInt 1)) \<Longrightarrow>
     login_tree ops (map (\<lambda>p. PDict (snd p)) ps @ rest) = Inr (map (annotate ops) ps @ rest)"
  by (induction ps)
     (auto simp: py_index_def is_one_def get_loginuid_total annotate_add split: prod.splits)

text \<open>
  Property C31. In its default mode the login plugin annotates the processes of the tree below
  process 1 with the login of each, its number and the user's name, in place and in order; process 1
  and whatever follows it are left as they are, and an unreadable login, the number that stands for
  none or a user without a name leaves its process unchanged.
\<close>

theorem process_pt_annotates:
  assumes "login_safe ops"
    and "list_all (\<lambda>(pid, d). map_of d ''pid'' = Some (PInt pid) \<and> pid \<noteq> 1) ps"
    and "rest = [] \<or> (\<exists>d ds. rest = PDict d # ds \<and> map_of d ''pid'' = Some (PInt 1))"
    and "map_of event ''proctree'' = Some (PList (map (\<lambda>p. PDict (snd p)) ps @ rest))"
  shows "process_pt ops event =
    Inr (AList.update ''proctree'' (PList (map (annotate ops) ps @ rest)) event)"
  using login_tree_prefix [OF assms(1-3)] assms(4) by (simp add: process_pt_def dict_index_def py_iter_def)

definition example_login :: login_ops where
  "example_login = \<lparr>read_loginuid = (\<lambda>pid. if pid = PInt 40 then Inr ''1000 '' else Inl OSError),
     getpwuid = (\<lambda>uid. if uid = 1000 then Inr ''alice'' else Inl (KeyError ''uid''))\<rparr>"

theorem process_pt_annotates_witness:
  "process_pt example_login [(''proctree'', PList [PDict [(''pid'', PInt 40)], PDict [(''pid'', PInt 7)],
     PDict [(''pid'', PInt 1)]])] =
   Inr [(''proctree'', PList [PDict [(''pid'', PInt 40), (''loginuid'', PInt 1000), (''loginname'', PStr ''alice'')],
     PDict [(''pid'', PInt 7)], PDict [(''pid'', PInt 1)]])]"
proof -
  have "login_safe example_login" by (auto simp: login_safe_def example_login_def is_Exception_def split: if_splits)
  moreover have "login_of example_login (PInt 40) = Some (1000, ''alice'')" "login_of example_login (PInt 7) = None"
    by (simp_all add: login_of_def example_login_def py_strip_def py_space_def int_of_str_def
        is_digit_def nat_of_digits_def digit_val_def)
  ultimately show ?thesis
    using process_pt_annotates [of example_login "[(40, [(''pid'', PInt 40)]), (7, [(''pid'', PInt 7)])]"
        "[PDict [(''pid'', PInt 1)]]"
        "[(''proctree'', PList [PDict [(''pid'', PInt 40)], PDict [(''pid'', PInt 7)], PDict [(''pid'', PInt 1)]])]"]
    by (simp add: annotate_def)
qed

end
