(* ===== verification/Config.thy ===== *)
theory Config
  imports Probes Proc_Utils "HOL-Library.Char_ord" "HOL-Library.List_Lexorder"
begin

text \<open>
  \<^verbatim>\<open>pidtree_bcc/config.py\<close>: loading the configuration file, deciding between a hot
  swap and a restart when it changes, and listing the loaded probe configurations. The namespaces
  of \<open>staticconf\<close> are an argument (\<open>staticconf_ops\<close>) with a contract
  (\<open>config_store\<close>); what the YAML loader returns for a file is an argument of
  \<open>parse_config\<close>. A change callback is a \<open>PFun\<close> whose name is the name of the
  queue it forwards to, \<open>sighups\<close> counts the restart signals the process has sent to
  itself.
\<close>

section \<open>Equality of Python values\<close>

text \<open>\<open>==\<close>: numbers are compared by value, dictionaries without regard to order.\<close>

definition py_number :: "pyval \<Rightarrow> rat option" where
  "py_number v = (case v of PInt i \<Rightarrow> Some (of_int i) | PBool b \<Rightarrow> Some (if b then 1 else 0)
     | PFloat q \<Rightarrow> Some q | _ \<Rightarrow> None)"

fun py_eq :: "pyval \<Rightarrow> pyval \<Rightarrow> bool" and py_eq_list :: "pyval list \<Rightarrow> pyval list \<Rightarrow> bool"
  and py_eq_items :: "(string \<times> pyval) list \<Rightarrow> (string \<times> pyval) list \<Rightarrow> bool" where
  "py_eq PNone w = (w = PNone)"
| "py_eq (PBool b) w = (py_number w = py_number (PBool b))"
| "py_eq (PInt i) w = (py_number w = py_number (PInt i))"
| "py_eq (PFloat q) w = (py_number w = py_number (PFloat q))"
| "py_eq (PStr s) w = (w = PStr s)"
| "py_eq (PList xs) w = (case w of PList ys \<Rightarrow> py_eq_list xs ys | _ \<Rightarrow> False)"
| "py_eq (PDict d) w = (case w of PDict e \<Rightarrow> length d = length e \<and> py_eq_items d e | _ \<Rightarrow> False)"
| "py_eq (PFun f) w = (w = PFun f)"
| "py_eq_list [] ys = (ys = [])"
| "py_eq_list (x # xs) ys = (case ys of [] \<Rightarrow> False | y # ys' \<Rightarrow> py_eq x y \<and> py_eq_list xs ys')"
| "py_eq_items [] e = True"
| "py_eq_items ((k, v) # d) e = ((case map_of e k of None \<Rightarrow> False | Some w \<Rightarrow> py_eq v w) \<and> py_eq_items d e)"

text \<open>A value whose dictionaries, at every depth, have no key twice is equal to itself.\<close>

fun py_wf :: "pyval \<Rightarrow> bool" and py_wf_list :: "pyval list \<Rightarrow> bool" and py_wf_items :: "(string \<times> pyval) list \<Rightarrow> bool" where
  "py_wf (PList vs) = py_wf_list vs"
| "py_wf (PDict d) = (distinct (map fst d) \<and> py_wf_items d)"
| "py_wf _ = True"
| "py_wf_list [] = True"
| "py_wf_list (v # vs) = (py_wf v \<and> py_wf_list vs)"
| "py_wf_items [] = True"
| "py_wf_items ((k, v) # d) = (py_wf v \<and> py_wf_items d)"

lemma py_eq_self:
  "py_wf v \<Longrightarrow> py_eq v v"
  "py_wf_list vs \<Longrightarrow> py_eq_list vs vs"
  "py_wf_items d \<Longrightarrow> (\<forall>k v. (k, v) \<in> set d \<longrightarrow> map_of e k = Some v) \<Longrightarrow> py_eq_items d e"
  by (induction v and vs and d arbitrary: and and e rule: py_wf_py_wf_list_py_wf_items.induct) auto

lemma py_wf_items_filter: "py_wf_items d \<Longrightarrow> py_wf_items (filter P d)"
  by (induction d) auto

section \<open>State\<close>

record 'w staticconf_ops =
  all_namespaces :: "'w \<Rightarrow> string list"
  get_config_values :: "string \<Rightarrow> 'w \<Rightarrow> pyval pydict"
  open_namespace :: "string \<Rightarrow> 'w \<Rightarrow> 'w"
  clear_namespace :: "string \<Rightarrow> 'w \<Rightarrow> 'w"
  pop_namespace :: "string \<Rightarrow> 'w \<Rightarrow> 'w"
  DictConfiguration :: "pyval \<Rightarrow> string \<Rightarrow> ('w, unit) eff"

record 'w config_state =
  namespaces :: 'w
  queues :: "(string \<times> pyval list) list"
  sighups :: nat

definition HOTSWAP_CALLBACK_NAMESPACE :: string where
  "HOTSWAP_CALLBACK_NAMESPACE = ''__change_callbacks''"

definition LOADED_CONFIG_FILES_NAMESPACE :: string where
  "LOADED_CONFIG_FILES_NAMESPACE = ''__loaded_configs''"

definition DEFAULT_NAMESPACE :: string where "DEFAULT_NAMESPACE = ''DEFAULT''"

definition HOT_SWAPPABLE_SETTINGS :: "string list" where
  "HOT_SWAPPABLE_SETTINGS = [''filters'', ''excludeports'', ''includeports'', ''container_labels'']"

definition NON_PROBE_NAMESPACES :: "string list" where
  "NON_PROBE_NAMESPACES = [DEFAULT_NAMESPACE, HOTSWAP_CALLBACK_NAMESPACE, LOADED_CONFIG_FILES_NAMESPACE]"

definition on_namespaces :: "('w \<Rightarrow> 'w) \<Rightarrow> ('w config_state, unit) eff" where
  "on_namespaces f s = (Inr (), s\<lparr>namespaces := f (namespaces s)\<rparr>)"

definition dict_configuration :: "'w staticconf_ops \<Rightarrow> pyval \<Rightarrow> string \<Rightarrow> ('w config_state, unit) eff" where
  "dict_configuration C v name s = (case DictConfiguration C v name (namespaces s) of
     (r, w) \<Rightarrow> (r, s\<lparr>namespaces := w\<rparr>))"

section \<open>Operations\<close>

definition forward_config_change :: "string \<Rightarrow> pyval \<Rightarrow> ('w config_state, unit) eff" where
  "forward_config_change queue config_data s =
     (Inr (), s\<lparr>queues := AList.map_entry queue (\<lambda>q. q @ [config_data]) (queues s)\<rparr>)"

text \<open>A new queue, named by its position, and the callback that forwards to it.\<close>

definition new_queue :: "('w config_state, string) eff" where
  "new_queue s = (let q = show_nat (length (queues s)) in (Inr q, s\<lparr>queues := queues s @ [(q, [])]\<rparr>))"

definition call_callback :: "pyval \<Rightarrow> pyval \<Rightarrow> ('w config_state, unit) eff" where
  "call_callback cb config_data = (case cb of PFun q \<Rightarrow> forward_config_change q config_data | _ \<Rightarrow> raiseE TypeError)"

definition non_hotswap_settings :: "pyval \<Rightarrow> pyval res" where
  "non_hotswap_settings config_data = (case config_data of
       PDict d \<Rightarrow> Inr (PDict (filter (\<lambda>kv. fst kv \<notin> set HOT_SWAPPABLE_SETTINGS) d))
     | _ \<Rightarrow> Inl (AttributeError ''items''))"

definition get_probe_namespaces :: "'w staticconf_ops \<Rightarrow> 'w \<Rightarrow> string list" where
  "get_probe_namespaces C w = filter (\<lambda>n. n \<notin> set NON_PROBE_NAMESPACES) (all_namespaces C w)"

definition reset_config_state :: "'w staticconf_ops \<Rightarrow> ('w config_state, unit) eff" where
  "reset_config_state C s = on_namespaces (\<lambda>w. foldl (\<lambda>w n. clear_namespace C n w) w (all_namespaces C w)) s"

definition self_restart :: "('w config_state, unit) eff" where
  "self_restart s = (Inr (), s\<lparr>sighups := sighups s + 1\<rparr>)"

text \<open>
  A signal the process sends to itself: on a thread other than the main one the call returns and
  the main thread is interrupted, on the main thread the handler runs before the call returns and
  its exception comes out of it. \<open>restart\<close> stands for the call as the thread sees it.
\<close>

definition self_restart_main :: "('w config_state, unit) eff" where
  "self_restart_main s = (Inl RestartSignal, s\<lparr>sighups := sighups s + 1\<rparr>)"

definition clear_and_restart :: "('w config_state, unit) eff \<Rightarrow> 'w staticconf_ops \<Rightarrow> ('w config_state, unit) eff" where
  "clear_and_restart restart C = bindE (reset_config_state C) (\<lambda>_. restart)"

definition drop_namespaces :: "'w staticconf_ops \<Rightarrow> string list \<Rightarrow> ('w config_state, unit) eff" where
  "drop_namespaces C names = on_namespaces (\<lambda>w. foldl (\<lambda>w n. pop_namespace C n w) w names)"

text \<open>The change of one probe: whether the loop goes on.\<close>

definition store_probe :: "'w staticconf_ops \<Rightarrow> string \<Rightarrow> pyval \<Rightarrow> ('w config_state, unit) eff" where
  "store_probe C key probe_config =
     bindE (on_namespaces (clear_namespace C key)) (\<lambda>_. dict_configuration C probe_config key)"

definition settings_changed :: "pyval \<Rightarrow> pyval \<Rightarrow> bool res" where
  "settings_changed probe_config current =
     bindR (non_hotswap_settings probe_config) (\<lambda>a.
     bindR (non_hotswap_settings current) (\<lambda>b. Inr (\<not> py_eq a b)))"

definition parse_probe ::
    "('w config_state, unit) eff \<Rightarrow> 'w staticconf_ops \<Rightarrow> bool \<Rightarrow> pyval \<Rightarrow> string \<Rightarrow> ('w config_state, bool) eff" where
  "parse_probe restart C watch_config config_data key =
     bindE (liftR (py_index config_data key)) (\<lambda>probe_config.
     bindE (on_namespaces (open_namespace C key)) (\<lambda>_ s.
       let current_values = PDict (get_config_values C key (namespaces s));
           callbacks = get_config_values C HOTSWAP_CALLBACK_NAMESPACE (namespaces s);
           store = bindE (store_probe C key probe_config) (\<lambda>_. retE True)
       in (case map_of callbacks key of
             None \<Rightarrow>
               bindE (if watch_config then bindE new_queue (\<lambda>q. retE (PFun q)) else retE PNone) (\<lambda>cb.
               bindE (dict_configuration C (PDict [(key, cb)]) HOTSWAP_CALLBACK_NAMESPACE) (\<lambda>_. store))
           | Some cb \<Rightarrow>
               if watch_config \<and> \<not> py_eq probe_config current_values
               then bindE (liftR (settings_changed probe_config current_values)) (\<lambda>changed.
                    if changed then bindE (clear_and_restart restart C) (\<lambda>_. retE False)
                    else bindE (call_callback cb probe_config) (\<lambda>_. store))
               else store) s))"

fun parse_probes ::
    "('w config_state, unit) eff \<Rightarrow> 'w staticconf_ops \<Rightarrow> bool \<Rightarrow> pyval \<Rightarrow> string list \<Rightarrow> ('w config_state, unit) eff" where
  "parse_probes restart C watch_config config_data [] = retE ()"
| "parse_probes restart C watch_config config_data (key # keys) =
     bindE (parse_probe restart C watch_config config_data key) (\<lambda>go_on.
     if go_on then parse_probes restart C watch_config config_data keys else retE ())"

definition probe_keys :: "pyval \<Rightarrow> string list res" where
  "probe_keys config_data = bindR (py_iter config_data) (\<lambda>keys.
     bindR (mapR (\<lambda>k. case k of PStr s \<Rightarrow> Inr s | _ \<Rightarrow> Inl (AttributeError ''startswith'')) keys) (\<lambda>names.
     Inr (remdups (filter (\<lambda>k. \<not> startswith k ''_'') names))))"

definition needs_restart :: "string list \<Rightarrow> string list \<Rightarrow> pyval \<Rightarrow> string list \<Rightarrow> bool" where
  "needs_restart config_names current_names current_files included_files =
     (current_names \<noteq> [] \<and> set config_names \<noteq> set current_names
      \<or> truthy current_files \<and> \<not> py_eq current_files (PList (map PStr included_files)))"

definition parse_config ::
    "('w config_state, unit) eff \<Rightarrow> 'w staticconf_ops \<Rightarrow> (string list \<Rightarrow> string list) \<Rightarrow> (string \<Rightarrow> (pyval \<times> string list) res) \<Rightarrow>
       string \<Rightarrow> bool \<Rightarrow> ('w config_state, string list) eff" where
  "parse_config restart C ord yaml_load config_file watch_config =
     bindE (liftR (yaml_load config_file)) (\<lambda>(config_data, included).
     let included_files = sort (remdups (config_file # included)) in
     bindE (liftR (probe_keys config_data)) (\<lambda>config_names s.
       let current_names = get_probe_namespaces C (namespaces s);
           current_files = dict_get (get_config_values C LOADED_CONFIG_FILES_NAMESPACE (namespaces s)) ''files'' PNone
       in if watch_config \<and> needs_restart config_names current_names current_files included_files
          then bindE (drop_namespaces C (ord (filter (\<lambda>n. n \<notin> set config_names) current_names))) (\<lambda>_.
               bindE (clear_and_restart restart C) (\<lambda>_. retE included_files)) s
          else bindE (parse_probes restart C watch_config config_data (ord config_names)) (\<lambda>_.
               bindE (dict_configuration C (PDict [(''files'', PList (map PStr included_files))])
                        LOADED_CONFIG_FILES_NAMESPACE) (\<lambda>_.
               retE included_files)) s))"

record config_watcher =
  watched_files :: "string list"
  watch_interval :: int

definition setup_config ::
    "('w config_state, unit) eff \<Rightarrow> 'w staticconf_ops \<Rightarrow> (string list \<Rightarrow> string list) \<Rightarrow> (string \<Rightarrow> (pyval \<times> string list) res) \<Rightarrow>
       string \<Rightarrow> bool \<Rightarrow> int \<Rightarrow> ('w config_state, config_watcher option) eff" where
  "setup_config restart C ord yaml_load config_file watch_config min_watch_interval =
     bindE (parse_config restart C ord yaml_load config_file watch_config) (\<lambda>filenames.
     retE (if watch_config then Some \<lparr>watched_files = filenames, watch_interval = min_watch_interval\<rparr> else None))"

definition enumerate_probe_configs ::
    "'w staticconf_ops \<Rightarrow> 'w config_state \<Rightarrow> (string \<times> pyval pydict \<times> string option) list" where
  "enumerate_probe_configs C s = map (\<lambda>n.
     (n, get_config_values C n (namespaces s),
      case dict_get (get_config_values C HOTSWAP_CALLBACK_NAMESPACE (namespaces s)) n PNone of
        PFun q \<Rightarrow> Some q | _ \<Rightarrow> None)) (get_probe_namespaces C (namespaces s))"

section \<open>The same parse on the main thread\<close>

text \<open>
  As long as no restart is asked for, a parse on the main thread and one on another thread are
  the same. \<open>agrees\<close> says so of two programs, together with the fact that restart signals
  are only ever added.
\<close>

definition agrees :: "('w config_state, 'a) eff \<Rightarrow> ('w config_state, 'a) eff \<Rightarrow> bool" where
  "agrees m m' = (\<forall>s r s'. m s = (r, s') \<longrightarrow> sighups s \<le> sighups s' \<and> (sighups s' = sighups s \<longrightarrow> m' s = (r, s')))"

named_theorems agree_rules

lemma agrees_basic [agree_rules]:
  "agrees (retE x) (retE x)" "agrees (liftR r) (liftR r)" "agrees (raiseE e) (raiseE e)"
  "agrees (on_namespaces f) (on_namespaces f)" "agrees (dict_configuration C v n) (dict_configuration C v n)"
  "agrees new_queue new_queue" "agrees (forward_config_change q d) (forward_config_change q d)"
  "agrees self_restart self_restart_main"
  by (auto simp: agrees_def on_namespaces_def dict_configuration_def new_queue_def forward_config_change_def
      self_restart_def Let_def split: prod.splits)

lemma agrees_bindE [agree_rules]:
  assumes "agrees m m'" and "\<And>x. agrees (f x) (f' x)"
  shows "agrees (bindE m f) (bindE m' f')"
proof -
  have "sighups s \<le> sighups s2 \<and> (sighups s2 = sighups s \<longrightarrow> bindE m' f' s = (r, s2))"
    if run: "bindE m f s = (r, s2)" for s r s2
  proof (cases "m s")
    case (Pair r1 s1)
    then have m: "sighups s \<le> sighups s1" "sighups s1 = sighups s \<Longrightarrow> m' s = (r1, s1)"
      using assms(1) by (auto simp: agrees_def)
    show ?thesis
    proof (cases r1)
      case (Inr x)
      then have "f x s1 = (r, s2)" using run Pair by (simp add: bindE_def)
      then have "sighups s1 \<le> sighups s2" "sighups s2 = sighups s1 \<Longrightarrow> f' x s1 = (r, s2)"
        using assms(2) [of x] by (auto simp: agrees_def)
      with m Inr show ?thesis by (auto simp: bindE_def)
    qed (use run Pair m in \<open>auto simp: bindE_def\<close>)
  qed
  then show ?thesis by (auto simp: agrees_def)
qed

lemma agrees_read:
  "(\<And>t. agrees (F t) (F' t)) \<Longrightarrow> agrees (\<lambda>s. F s s) (\<lambda>s. F' s s)"
  by (auto simp: agrees_def)

lemma agrees_cond:
  "(\<And>t. agrees (M t) (M' t)) \<Longrightarrow> (\<And>t. agrees (N t) (N' t)) \<Longrightarrow>
   agrees (\<lambda>s. if b s then M s s else N s s) (\<lambda>s. if b s then M' s s else N' s s)"
  by (auto simp: agrees_def)

lemma agrees_if [agree_rules]:
  "(b \<Longrightarrow> agrees m m') \<Longrightarrow> (\<not> b \<Longrightarrow> agrees n n') \<Longrightarrow> agrees (if b then m else n) (if b then m' else n')"
  by simp

lemma agrees_callback [agree_rules]: "agrees (call_callback cb d) (call_callback cb d)"
  by (cases cb) (auto simp: call_callback_def intro: agree_rules)

lemma agrees_store [agree_rules]: "agrees (store_probe C k d) (store_probe C k d)"
  unfolding store_probe_def by (intro agree_rules)

lemma agrees_restart [agree_rules]: "agrees (clear_and_restart self_restart C) (clear_and_restart self_restart_main C)"
  unfolding clear_and_restart_def reset_config_state_def
  by (intro agree_rules agrees_read [of "\<lambda>s. on_namespaces _"])

lemma agrees_parse_probe [agree_rules]:
  "agrees (parse_probe self_restart C watch d k) (parse_probe self_restart_main C watch d k)"
proof -
  have "agrees
      (case cb of
         None \<Rightarrow> bindE (if watch then bindE new_queue (\<lambda>q. retE (PFun q)) else retE PNone) (\<lambda>cb.
               bindE (dict_configuration C (PDict [(k, cb)]) HOTSWAP_CALLBACK_NAMESPACE) (\<lambda>_. bindE (store_probe C k c) (\<lambda>_. retE True)))
       | Some cb \<Rightarrow> if watch \<and> \<not> py_eq c v
               then bindE (liftR (settings_changed c v)) (\<lambda>changed.
                    if changed then bindE (clear_and_restart self_restart C) (\<lambda>_. retE False)
                    else bindE (call_callback cb c) (\<lambda>_. bindE (store_probe C k c) (\<lambda>_. retE True)))
               else bindE (store_probe C k c) (\<lambda>_. retE True))
      (case cb of
         None \<Rightarrow> bindE (if watch then bindE new_queue (\<lambda>q. retE (PFun q)) else retE PNone) (\<lambda>cb.
               bindE (dict_configuration C (PDict [(k, cb)]) HOTSWAP_CALLBACK_NAMESPACE) (\<lambda>_. bindE (store_probe C k c) (\<lambda>_. retE True)))
       | Some cb \<Rightarrow> if watch \<and> \<not> py_eq c v
               then bindE (liftR (settings_changed c v)) (\<lambda>changed.
                    if changed then bindE (clear_and_restart self_restart_main C) (\<lambda>_. retE False)
                    else bindE (call_callback cb c) (\<lambda>_. bindE (store_probe C k c) (\<lambda>_. retE True)))
               else bindE (store_probe C k c) (\<lambda>_. retE True))" for cb c v
    by (cases cb) (auto intro!: agree_rules)
  then show ?thesis unfolding parse_probe_def Let_def by (intro agree_rules) (auto simp: agrees_def)
qed

lemma agrees_parse_probes [agree_rules]:
  "agrees (parse_probes self_restart C watch d ks) (parse_probes self_restart_main C watch d ks)"
  by (induction ks) (auto simp only: parse_probes.simps intro!: agree_rules)

lemma agrees_parse_config:
  "agrees (parse_config self_restart C ord yaml_load f watch) (parse_config self_restart_main C ord yaml_load f watch)"
proof -
  have r: "agrees (bindE (drop_namespaces C ns) (\<lambda>_. bindE (clear_and_restart self_restart C) (\<lambda>_. retE fs)))
      (bindE (drop_namespaces C ns) (\<lambda>_. bindE (clear_and_restart self_restart_main C) (\<lambda>_. retE fs)))"
    "agrees (bindE (parse_probes self_restart C watch d ks) (\<lambda>_. bindE (dict_configuration C v n) (\<lambda>_. retE fs)))
      (bindE (parse_probes self_restart_main C watch d ks) (\<lambda>_. bindE (dict_configuration C v n) (\<lambda>_. retE fs)))"
    for ns d ks v n fs
    unfolding drop_namespaces_def by (intro agree_rules)+
  show ?thesis unfolding parse_config_def Let_def split_def
    by (intro agrees_bindE agree_rules, rule agrees_cond, rule r(1), rule r(2))
qed

lemma parse_config_main_same:
  assumes "parse_config self_restart C ord yaml_load f watch s = (r, s')" and "sighups s' = sighups s"
  shows "parse_config self_restart_main C ord yaml_load f watch s = (r, s')"
  using agrees_parse_config [of C ord yaml_load f watch] assms unfolding agrees_def by blast

lemma restart_on_main:
  "clear_and_restart self_restart C s = (Inr (), s') \<Longrightarrow> clear_and_restart self_restart_main C s = (Inl RestartSignal, s')"
  by (auto simp: clear_and_restart_def bindE_def self_restart_def self_restart_main_def split: sum.splits prod.splits)

section \<open>Well-formed configurations\<close>

text \<open>
  A configuration file as the parser is meant to get it: a dictionary whose probe entries are
  dictionaries. Entries that start with an underscore are anchors for the YAML and may be
  anything.
\<close>

definition probe_names :: "pyval pydict \<Rightarrow> string list" where
  "probe_names cfg = filter (\<lambda>k. \<not> startswith k ''_'') (map fst cfg)"

definition probe_dict :: "pyval pydict \<Rightarrow> string \<Rightarrow> pyval pydict" where
  "probe_dict cfg k = (case map_of cfg k of Some (PDict d) \<Rightarrow> d | _ \<Rightarrow> [])"

definition dict_config :: "pyval pydict \<Rightarrow> bool" where
  "dict_config cfg = (distinct (map fst cfg) \<and>
     (\<forall>k \<in> set (probe_names cfg). k \<noteq> DEFAULT_NAMESPACE \<and>
        map_of cfg k = Some (PDict (probe_dict cfg k)) \<and> distinct (map fst (probe_dict cfg k))))"

text \<open>Whether a change of a probe's settings needs a restart.\<close>

definition differs :: "pyval pydict \<Rightarrow> pyval pydict \<Rightarrow> bool" where
  "differs d current = (\<not> py_eq (PDict d) (PDict current))"

definition cold :: "pyval pydict \<Rightarrow> pyval pydict" where
  "cold d = filter (\<lambda>kv. fst kv \<notin> set HOT_SWAPPABLE_SETTINGS) d"

definition restart_change :: "pyval pydict \<Rightarrow> pyval pydict \<Rightarrow> bool" where
  "restart_change d current = (differs d current \<and> differs (cold d) (cold current))"

lemma settings_changed_dicts [simp]:
  "settings_changed (PDict d) (PDict e) = Inr (differs (cold d) (cold e))"
  by (simp add: settings_changed_def non_hotswap_settings_def differs_def cold_def del: py_eq.simps)

lemma dict_merge_append: "distinct (map fst (acc @ d)) \<Longrightarrow> dict_merge acc d = acc @ d"
proof (induction d arbitrary: acc)
  case Nil
  then show ?case by (simp add: dict_merge_def)
next
  case (Cons kv d)
  have "AList.update (fst kv) (snd kv) acc = acc @ [kv]"
    using Cons.prems by (induction acc) auto
  with Cons.IH [of "acc @ [kv]"] Cons.prems show ?case by (simp add: dict_merge_def)
qed

lemma special_names:
  assumes "k \<in> set (probe_names cfg)"
  shows "k \<noteq> HOTSWAP_CALLBACK_NAMESPACE" and "k \<noteq> LOADED_CONFIG_FILES_NAMESPACE"
  using assms by (auto simp: probe_names_def HOTSWAP_CALLBACK_NAMESPACE_def
      LOADED_CONFIG_FILES_NAMESPACE_def startswith_def)

lemma special_distinct [simp]:
  "HOTSWAP_CALLBACK_NAMESPACE \<noteq> LOADED_CONFIG_FILES_NAMESPACE"
  "LOADED_CONFIG_FILES_NAMESPACE \<noteq> HOTSWAP_CALLBACK_NAMESPACE"
  by (simp_all add: HOTSWAP_CALLBACK_NAMESPACE_def LOADED_CONFIG_FILES_NAMESPACE_def)

lemma probe_keys_dict: "dict_config cfg \<Longrightarrow> probe_keys (PDict cfg) = Inr (probe_names cfg)"
proof -
  assume "dict_config cfg"
  then have "distinct (probe_names cfg)" by (simp add: dict_config_def probe_names_def)
  moreover have "mapR (\<lambda>k. case k of PStr s \<Rightarrow> Inr s | _ \<Rightarrow> Inl (AttributeError ''startswith''))
      (map (\<lambda>kv. PStr (fst kv)) cfg) = Inr (map fst cfg)"
    by (induction cfg) auto
  ultimately show ?thesis by (simp add: probe_keys_def py_iter_def probe_names_def distinct_remdups_id)
qed

lemma map_of_map_entry:
  "map_of (AList.map_entry q f qs) x = (if x = q then map_option f (map_of qs q) else map_of qs x)"
  by (induction qs) auto

text \<open>
  The state after a configuration was loaded with watching on: a namespace for every probe, a
  queue of its own for each, and the list of files. \<open>ready\<close> is the state a load may
  start from: every namespace is empty, as after a reset or when the process starts, except that
  the same list of files may be recorded.
\<close>

definition callback_of :: "'w staticconf_ops \<Rightarrow> 'w config_state \<Rightarrow> string \<Rightarrow> pyval option" where
  "callback_of C s k = map_of (get_config_values C HOTSWAP_CALLBACK_NAMESPACE (namespaces s)) k"

definition recorded_files :: "'w staticconf_ops \<Rightarrow> 'w config_state \<Rightarrow> pyval option" where
  "recorded_files C s = map_of (get_config_values C LOADED_CONFIG_FILES_NAMESPACE (namespaces s)) ''files''"

definition queues_named :: "'w config_state \<Rightarrow> bool" where
  "queues_named s = (map fst (queues s) = map show_nat [0..<length (queues s)])"

definition loaded_config :: "'w staticconf_ops \<Rightarrow> pyval pydict \<Rightarrow> string list \<Rightarrow> 'w config_state \<Rightarrow> bool" where
  "loaded_config C cfg files s =
     (set (get_probe_namespaces C (namespaces s)) = set (probe_names cfg) \<and>
      (\<forall>k \<in> set (probe_names cfg). get_config_values C k (namespaces s) = probe_dict cfg k \<and>
         (\<exists>q. callback_of C s k = Some (PFun q) \<and> map_of (queues s) q \<noteq> None)) \<and>
      inj_on (callback_of C s) (set (probe_names cfg)) \<and> queues_named s \<and>
      recorded_files C s = Some (PList (map PStr files)))"

definition ready :: "'w staticconf_ops \<Rightarrow> pyval pydict \<Rightarrow> string list \<Rightarrow> 'w config_state \<Rightarrow> bool" where
  "ready C cfg files s =
     ((\<forall>k. callback_of C s k = None) \<and> queues_named s \<and>
      set (get_probe_namespaces C (namespaces s)) \<in> {{}, set (probe_names cfg)} \<and>
      recorded_files C s \<in> {None, Some (PList (map PStr files))})"

text \<open>The sorted list of the files a configuration was read from.\<close>

definition all_files :: "string \<Rightarrow> string list \<Rightarrow> string list" where
  "all_files config_file included = sort (remdups (config_file # included))"

lemma all_files_set: "set (all_files f inc) = insert f (set inc)"
  by (auto simp: all_files_def)

lemma all_files_not_Nil [simp]: "all_files f inc \<noteq> []"
  using all_files_set [of f inc] by auto

lemma show_nat_inj [simp]: "(show_nat m = show_nat n) = (m = n)"
  by (metis nat_of_digits_show)

lemma py_eq_refl_files [simp]: "py_eq_list (map PStr fs) (map PStr fs)"
  by (induction fs) auto

lemma py_eq_files: "py_eq (PList (map PStr fs)) (PList (map PStr gs)) = (fs = gs)"
proof -
  have "py_eq_list (map PStr fs) (map PStr gs) = (fs = gs)"
    by (induction fs arbitrary: gs) (auto split: list.splits)
  then show ?thesis by simp
qed

lemma fresh_queues:
  assumes "map fst qs = map show_nat [0..<length qs]" and "j \<in> {length qs..<length qs + m}"
  shows "map_of (qs @ map (\<lambda>i. (show_nat i, [])) [length qs..<length qs + m]) (show_nat j) = Some []"
proof -
  have "show_nat j \<notin> set (map fst qs)" unfolding assms(1) using assms(2) by auto
  then have "map_of qs (show_nat j) = None" by (simp add: map_of_eq_None_iff)
  moreover have "map_of (map (\<lambda>i. (show_nat i, [])) [length qs..<length qs + m]) (show_nat j) = Some []"
    using assms(2) unfolding map_of_const by auto
  ultimately show ?thesis by (simp only: map_of_append map_add_def option.case)
qed

lemma more_queues_named:
  assumes "map fst qs = map show_nat [0..<length qs]"
  shows "map fst (qs @ map (\<lambda>i. (show_nat i, [])) [length qs..<length qs + m]) =
    map show_nat [0..<length qs + m]"
  using assms upt_add_eq_append [of 0 "length qs" m] by (simp add: comp_def)

lemma filter_only:
  assumes "distinct ks" and "k \<in> set ks" and only: "\<And>x. x \<in> set ks \<Longrightarrow> Q x \<Longrightarrow> x = k"
  shows "filter Q ks = (if Q k then [k] else [])"
proof -
  obtain us vs where ks: "ks = us @ k # vs" using split_list [OF assms(2)] by blast
  have "filter Q us = []" "filter Q vs = []"
    using only assms(1) unfolding ks filter_empty_conv by fastforce+
  then show ?thesis by (simp add: ks)
qed

lemma dict_configD:
  assumes "dict_config cfg" and "k \<in> set (probe_names cfg)"
  shows "map_of cfg k = Some (PDict (probe_dict cfg k))" and "distinct (map fst (probe_dict cfg k))"
    and "k \<notin> set NON_PROBE_NAMESPACES"
  using assms special_names [OF assms(2)] by (auto simp: dict_config_def NON_PROBE_NAMESPACES_def)

lemma map_fst_map_entry: "map fst (AList.map_entry q f qs) = map fst qs"
  by (induction qs) auto

section \<open>The contract of the namespaces\<close>

text \<open>
  \<open>view w\<close> is the content of every namespace that exists. Opening one creates it,
  clearing one empties it and leaves it in place, loading a dictionary updates it.
\<close>

locale config_store =
  fixes C :: "'w staticconf_ops"
    and view :: "'w \<Rightarrow> string \<rightharpoonup> pyval pydict"
  assumes names: "set (all_namespaces C w) = dom (view w)"
    and names_distinct: "distinct (all_namespaces C w)"
    and contents: "get_config_values C n w = (case view w n of None \<Rightarrow> [] | Some d \<Rightarrow> d)"
    and opened: "view (open_namespace C n w) = (view w)(n \<mapsto> get_config_values C n w)"
    and cleared: "view (clear_namespace C n w) = (view w)(n \<mapsto> [])"
    and popped: "view (pop_namespace C n w) = (view w)(n := None)"
    and loaded: "\<exists>w'. DictConfiguration C (PDict d) n w = (Inr (), w') \<and>
      view w' = (view w)(n \<mapsto> dict_merge (get_config_values C n w) d)"
begin

definition V :: "'w config_state \<Rightarrow> string \<rightharpoonup> pyval pydict" where
  "V s = view (namespaces s)"

definition vals :: "'w config_state \<Rightarrow> string \<Rightarrow> pyval pydict" where
  "vals s n = get_config_values C n (namespaces s)"

lemma vals_V: "vals s n = (case V s n of None \<Rightarrow> [] | Some d \<Rightarrow> d)"
  by (simp add: vals_def V_def contents)

lemma reset_view:
  "V s' = (\<lambda>n. if n \<in> dom (V s) then Some [] else None)" "sighups s' = sighups s" "queues s' = queues s"
  if "reset_config_state C s = (r, s')"
proof -
  have "view (foldl (\<lambda>w n. clear_namespace C n w) w ns) = (\<lambda>n. if n \<in> set ns then Some [] else view w n)" for w ns
    by (induction ns arbitrary: w) (auto simp: cleared fun_eq_iff)
  with that show "V s' = (\<lambda>n. if n \<in> dom (V s) then Some [] else None)"
    "sighups s' = sighups s" "queues s' = queues s"
    by (auto simp: reset_config_state_def on_namespaces_def V_def names fun_eq_iff split: if_splits)
qed

lemma restart_view:
  "\<exists>s'. clear_and_restart self_restart C s = (Inr (), s') \<and> V s' = (\<lambda>n. if n \<in> dom (V s) then Some [] else None) \<and>
     sighups s' = Suc (sighups s) \<and> queues s' = queues s"
proof -
  obtain s1 where s1: "reset_config_state C s = (Inr (), s1)"
    by (simp add: reset_config_state_def on_namespaces_def)
  then show ?thesis using reset_view [OF s1]
    by (simp add: clear_and_restart_def bindE_def self_restart_def V_def)
qed

lemma drop_view:
  "\<exists>s'. drop_namespaces C ns s = (Inr (), s') \<and> V s' = (\<lambda>n. if n \<in> set ns then None else V s n) \<and>
     sighups s' = sighups s \<and> queues s' = queues s"
proof -
  have "view (foldl (\<lambda>w n. pop_namespace C n w) w ns) = (\<lambda>n. if n \<in> set ns then None else view w n)" for w
    by (induction ns arbitrary: w) (auto simp: popped fun_eq_iff)
  then show ?thesis by (simp add: drop_namespaces_def on_namespaces_def V_def fun_eq_iff)
qed

lemma load_view:
  "\<exists>s'. dict_configuration C (PDict d) n s = (Inr (), s') \<and> V s' = (V s)(n \<mapsto> dict_merge (vals s n) d) \<and>
     sighups s' = sighups s \<and> queues s' = queues s"
  using loaded [of d n "namespaces s"] by (auto simp: dict_configuration_def V_def vals_def)

lemma store_view:
  assumes "distinct (map fst d)"
  shows "\<exists>s'. store_probe C key (PDict d) s = (Inr (), s') \<and> V s' = (V s)(key \<mapsto> d) \<and>
     sighups s' = sighups s \<and> queues s' = queues s"
proof -
  define s1 where "s1 = s\<lparr>namespaces := clear_namespace C key (namespaces s)\<rparr>"
  have v1: "V s1 = (V s)(key \<mapsto> [])" by (simp add: s1_def V_def cleared)
  obtain s2 where "dict_configuration C (PDict d) key s1 = (Inr (), s2)"
      "V s2 = (V s1)(key \<mapsto> dict_merge (vals s1 key) d)" "sighups s2 = sighups s1" "queues s2 = queues s1"
    using load_view by blast
  with v1 assms show ?thesis
    by (simp add: store_probe_def bindE_def on_namespaces_def s1_def [symmetric] vals_V dict_merge_append)
       (simp add: s1_def)
qed

text \<open>The three outcomes of one probe's entry: first load, hot swap, restart.\<close>

lemma open_view:
  "on_namespaces (open_namespace C key) s = (Inr (), s\<lparr>namespaces := open_namespace C key (namespaces s)\<rparr>)"
  "V (s\<lparr>namespaces := open_namespace C key (namespaces s)\<rparr>) = (V s)(key \<mapsto> vals s key)"
  "vals (s\<lparr>namespaces := open_namespace C key (namespaces s)\<rparr>) n = vals s n"
  by (auto simp: on_namespaces_def V_def vals_def opened contents)

lemma parse_probe_opened:
  assumes "map_of cfg key = Some pc"
  shows "parse_probe self_restart C watch (PDict cfg) key s =
    (let store = bindE (store_probe C key pc) (\<lambda>_. retE True)
     in case map_of (vals s HOTSWAP_CALLBACK_NAMESPACE) key of
          None \<Rightarrow>
            bindE (if watch then bindE new_queue (\<lambda>q. retE (PFun q)) else retE PNone) (\<lambda>cb.
            bindE (dict_configuration C (PDict [(key, cb)]) HOTSWAP_CALLBACK_NAMESPACE) (\<lambda>_. store))
        | Some cb \<Rightarrow>
            if watch \<and> \<not> py_eq pc (PDict (vals s key))
            then bindE (liftR (settings_changed pc (PDict (vals s key)))) (\<lambda>changed.
                 if changed then bindE (clear_and_restart self_restart C) (\<lambda>_. retE False)
                 else bindE (call_callback cb pc) (\<lambda>_. store))
            else store) (s\<lparr>namespaces := open_namespace C key (namespaces s)\<rparr>)"
proof -
  have v: "get_config_values C n (namespaces (s\<lparr>namespaces := open_namespace C key (namespaces s)\<rparr>)) = vals s n" for n
    using open_view(3) [of key s n] by (simp add: vals_def)
  have o: "bindE (liftR (py_index (PDict cfg) key)) f s = f pc s" for f :: "pyval \<Rightarrow> ('w config_state, 'b) eff"
    using assms by (simp add: bindE_def py_index_def)
  have o': "bindE (on_namespaces (open_namespace C key)) f s =
      f () (s\<lparr>namespaces := open_namespace C key (namespaces s)\<rparr>)" for f :: "unit \<Rightarrow> ('w config_state, 'b) eff"
    by (simp add: bindE_def open_view(1))
  show ?thesis unfolding parse_probe_def o o' Let_def v ..
qed

lemma parse_probe_first:
  assumes "map_of cfg key = Some (PDict d)" and "distinct (map fst d)"
    and "map_of (vals s HOTSWAP_CALLBACK_NAMESPACE) key = None" and "key \<noteq> HOTSWAP_CALLBACK_NAMESPACE"
  defines "q \<equiv> show_nat (length (queues s))"
  shows "\<exists>s'. parse_probe self_restart C watch (PDict cfg) key s = (Inr True, s') \<and> sighups s' = sighups s \<and>
    V s' = (V s)(key \<mapsto> d, HOTSWAP_CALLBACK_NAMESPACE \<mapsto>
      dict_merge (vals s HOTSWAP_CALLBACK_NAMESPACE) [(key, if watch then PFun q else PNone)]) \<and>
    queues s' = (if watch then queues s @ [(q, [])] else queues s)"
proof -
  define s1 where "s1 = s\<lparr>namespaces := open_namespace C key (namespaces s)\<rparr>"
  define s2 where "s2 = (if watch then s1\<lparr>queues := queues s1 @ [(q, [])]\<rparr> else s1)"
  let ?cb = "if watch then PFun q else PNone"
  have s1: "V s1 = (V s)(key \<mapsto> vals s key)" "vals s1 n = vals s n" for n
    unfolding s1_def by (rule open_view)+
  have v2: "V s2 = V s1" "vals s2 n = vals s1 n" for n by (simp_all add: s2_def V_def vals_def)
  obtain s3 where s3: "dict_configuration C (PDict [(key, ?cb)]) HOTSWAP_CALLBACK_NAMESPACE s2 = (Inr (), s3)"
      "V s3 = (V s2)(HOTSWAP_CALLBACK_NAMESPACE \<mapsto> dict_merge (vals s2 HOTSWAP_CALLBACK_NAMESPACE) [(key, ?cb)])"
      "sighups s3 = sighups s2" "queues s3 = queues s2"
    using load_view by blast
  obtain s4 where s4: "store_probe C key (PDict d) s3 = (Inr (), s4)" "V s4 = (V s3)(key \<mapsto> d)"
      "sighups s4 = sighups s3" "queues s4 = queues s3"
    using store_view [OF assms(2)] by blast
  have q1: "queues s1 = queues s" by (simp add: s1_def)
  have cb: "(if watch then bindE new_queue (\<lambda>q. retE (PFun q)) else retE PNone) s1 = (Inr ?cb, s2)"
    by (auto simp: new_queue_def Let_def bindE_def s2_def q_def q1)
  have "parse_probe self_restart C watch (PDict cfg) key s = (Inr True, s4)"
    using assms(3) cb s3(1) s4(1)
    by (simp add: parse_probe_opened [OF assms(1)] bindE_def s1_def [symmetric] Let_def)
  moreover have "V s4 = (V s)(key \<mapsto> d, HOTSWAP_CALLBACK_NAMESPACE \<mapsto>
      dict_merge (vals s HOTSWAP_CALLBACK_NAMESPACE) [(key, ?cb)])"
    using assms(4) by (simp add: s4 s3 v2 s1 fun_upd_twist)
  moreover have "sighups s4 = sighups s" "queues s4 = (if watch then queues s @ [(q, [])] else queues s)"
    by (simp_all add: s4 s3 s2_def s1_def)
  ultimately show ?thesis by blast
qed

lemma parse_probe_hotswap:
  assumes "map_of cfg key = Some (PDict d)" and "distinct (map fst d)"
    and "map_of (vals s HOTSWAP_CALLBACK_NAMESPACE) key = Some (PFun q)"
    and "\<not> restart_change d (vals s key)"
  shows "\<exists>s'. parse_probe self_restart C True (PDict cfg) key s = (Inr True, s') \<and> sighups s' = sighups s \<and>
    V s' = (V s)(key \<mapsto> d) \<and>
    queues s' = (if differs d (vals s key) then AList.map_entry q (\<lambda>l. l @ [PDict d]) (queues s) else queues s)"
proof -
  define s1 where "s1 = s\<lparr>namespaces := open_namespace C key (namespaces s)\<rparr>"
  have s1: "V s1 = (V s)(key \<mapsto> vals s key)" "vals s1 n = vals s n" for n
    unfolding s1_def by (rule open_view)+
  define s2 where "s2 = (if differs d (vals s key)
    then s1\<lparr>queues := AList.map_entry q (\<lambda>l. l @ [PDict d]) (queues s1)\<rparr> else s1)"
  have v2: "V s2 = V s1" by (simp add: s2_def V_def)
  obtain s3 where s3: "store_probe C key (PDict d) s2 = (Inr (), s3)" "V s3 = (V s2)(key \<mapsto> d)"
      "sighups s3 = sighups s2" "queues s3 = queues s2"
    using store_view [OF assms(2)] by blast
  have "parse_probe self_restart C True (PDict cfg) key s = (Inr True, s3)"
    using assms(3,4) s3(1)
    by (simp add: parse_probe_opened [OF assms(1)] bindE_def s1_def [symmetric] Let_def
        restart_change_def s2_def differs_def [symmetric] call_callback_def forward_config_change_def
        del: py_eq.simps split: if_splits)
  moreover have "sighups s3 = sighups s" by (simp add: s3 s2_def s1_def)
  moreover have "V s3 = (V s)(key \<mapsto> d)" by (simp add: s3 v2 s1)
  moreover have "queues s3 = (if differs d (vals s key)
      then AList.map_entry q (\<lambda>l. l @ [PDict d]) (queues s) else queues s)"
    by (simp add: s3 s2_def s1_def)
  ultimately show ?thesis by blast
qed

lemma parse_probe_restart:
  assumes "map_of cfg key = Some (PDict d)"
    and "map_of (vals s HOTSWAP_CALLBACK_NAMESPACE) key = Some cb"
    and "restart_change d (vals s key)"
  shows "\<exists>s'. parse_probe self_restart C True (PDict cfg) key s = (Inr False, s') \<and> sighups s' = Suc (sighups s) \<and>
    V s' = (\<lambda>n. if n \<in> insert key (dom (V s)) then Some [] else None) \<and> queues s' = queues s"
proof -
  define s1 where "s1 = s\<lparr>namespaces := open_namespace C key (namespaces s)\<rparr>"
  have s1: "V s1 = (V s)(key \<mapsto> vals s key)" "vals s1 n = vals s n" for n
    unfolding s1_def by (rule open_view)+
  obtain s2 where s2: "clear_and_restart self_restart C s1 = (Inr (), s2)"
      "V s2 = (\<lambda>n. if n \<in> dom (V s1) then Some [] else None)"
      "sighups s2 = Suc (sighups s1)" "queues s2 = queues s1"
    using restart_view by blast
  have "parse_probe self_restart C True (PDict cfg) key s = (Inr False, s2)"
    using assms(2,3) s2(1)
    by (simp add: parse_probe_opened [OF assms(1)] bindE_def s1_def [symmetric] Let_def
        restart_change_def differs_def [symmetric] del: py_eq.simps)
  moreover have "V s2 = (\<lambda>n. if n \<in> insert key (dom (V s)) then Some [] else None)"
    unfolding s2(2) s1(1) by simp
  ultimately show ?thesis using s2 by (auto simp: s1_def)
qed

text \<open>Loading every probe for the first time.\<close>

lemma parse_probes_first:
  assumes "dict_config cfg"
  shows "distinct keys \<Longrightarrow> set keys \<subseteq> set (probe_names cfg) \<Longrightarrow>
    (\<forall>k \<in> set keys. map_of (vals s HOTSWAP_CALLBACK_NAMESPACE) k = None) \<Longrightarrow>
    \<exists>s'. parse_probes self_restart C True (PDict cfg) keys s = (Inr (), s') \<and> sighups s' = sighups s \<and>
      (\<forall>n. n \<noteq> HOTSWAP_CALLBACK_NAMESPACE \<longrightarrow>
         V s' n = (if n \<in> set keys then Some (probe_dict cfg n) else V s n)) \<and>
      map_of (vals s' HOTSWAP_CALLBACK_NAMESPACE) = map_of (vals s HOTSWAP_CALLBACK_NAMESPACE) ++
        map_of (zip keys (map (\<lambda>i. PFun (show_nat i)) [length (queues s)..<length (queues s) + length keys])) \<and>
      queues s' = queues s @ map (\<lambda>i. (show_nat i, [])) [length (queues s)..<length (queues s) + length keys]"
proof (induction keys arbitrary: s)
  case Nil
  then show ?case by simp
next
  case (Cons key keys)
  let ?H = HOTSWAP_CALLBACK_NAMESPACE and ?n = "length (queues s)"
  have k: "key \<in> set (probe_names cfg)" using Cons.prems(2) by simp
  note d = dict_configD [OF assms k]
  obtain s1 where s1: "parse_probe self_restart C True (PDict cfg) key s = (Inr True, s1)" "sighups s1 = sighups s"
      "V s1 = (V s)(key \<mapsto> probe_dict cfg key, ?H \<mapsto> dict_merge (vals s ?H) [(key, PFun (show_nat ?n))])"
      "queues s1 = queues s @ [(show_nat ?n, [])]"
    using parse_probe_first [OF d(1,2), of s True] Cons.prems(3) special_names(1) [OF k] by auto
  have cb1: "map_of (vals s1 ?H) = (map_of (vals s ?H))(key \<mapsto> PFun (show_nat ?n))"
    by (simp add: vals_V s1(3) map_of_dict_merge)
  have "\<forall>k \<in> set keys. map_of (vals s1 ?H) k = None" using Cons.prems(1,3) by (auto simp: cb1)
  with Cons.IH [of s1] Cons.prems obtain s' where s':
      "parse_probes self_restart C True (PDict cfg) keys s1 = (Inr (), s')" "sighups s' = sighups s1"
      "\<forall>n. n \<noteq> ?H \<longrightarrow> V s' n = (if n \<in> set keys then Some (probe_dict cfg n) else V s1 n)"
      "map_of (vals s' ?H) = map_of (vals s1 ?H) ++
        map_of (zip keys (map (\<lambda>i. PFun (show_nat i)) [Suc ?n..<Suc ?n + length keys]))"
      "queues s' = queues s1 @ map (\<lambda>i. (show_nat i, [])) [Suc ?n..<Suc ?n + length keys]"
    by (auto simp: s1(4))
  have up: "[?n..<?n + length (key # keys)] = ?n # [Suc ?n..<Suc ?n + length keys]"
    by (simp add: upt_conv_Cons del: upt_Suc)
  have zip: "key \<notin> dom (map_of (zip keys xs))" for xs :: "pyval list"
    using Cons.prems(1) by (auto dest: map_of_SomeD in_set_zipE)
  have "map_of (vals s' ?H) = map_of (vals s ?H) ++
      map_of (zip (key # keys) (map (\<lambda>i. PFun (show_nat i)) [?n..<?n + length (key # keys)]))"
    unfolding s'(4) cb1 up by (simp add: map_add_upd_left [OF zip])
  moreover have "queues s' = queues s @ map (\<lambda>i. (show_nat i, [])) [?n..<?n + length (key # keys)]"
    unfolding s'(5) s1(4) up by simp
  moreover have "parse_probes self_restart C True (PDict cfg) (key # keys) s = (Inr (), s')"
    by (simp add: bindE_def s1(1) s'(1))
  ultimately show ?case using s'(2,3) s1(2,3) by (intro exI [of _ s']) (auto simp: vals_V)
qed

text \<open>
  Reloading probes that are already loaded: the entries that changed go to their queues, in the
  order of the loop.
\<close>

definition news :: "pyval pydict \<Rightarrow> 'w config_state \<Rightarrow> string list \<Rightarrow> string \<Rightarrow> pyval list" where
  "news cfg s keys q = map (\<lambda>k. PDict (probe_dict cfg k))
     (filter (\<lambda>k. map_of (vals s HOTSWAP_CALLBACK_NAMESPACE) k = Some (PFun q) \<and>
        differs (probe_dict cfg k) (vals s k)) keys)"

lemma vals_other:
  "V s1 = (V s)(key \<mapsto> d) \<Longrightarrow> n \<noteq> key \<Longrightarrow> vals s1 n = vals s n"
  by (simp add: vals_V)

lemma parse_probes_hotswap:
  assumes "dict_config cfg"
  shows "distinct keys \<Longrightarrow> set keys \<subseteq> set (probe_names cfg) \<Longrightarrow>
    (\<forall>k \<in> set keys. (\<exists>q. map_of (vals s HOTSWAP_CALLBACK_NAMESPACE) k = Some (PFun q)) \<and>
       \<not> restart_change (probe_dict cfg k) (vals s k)) \<Longrightarrow>
    \<exists>s'. parse_probes self_restart C True (PDict cfg) keys s = (Inr (), s') \<and> sighups s' = sighups s \<and>
      V s' = (\<lambda>n. if n \<in> set keys then Some (probe_dict cfg n) else V s n) \<and>
      map fst (queues s') = map fst (queues s) \<and>
      (\<forall>q. map_of (queues s') q = map_option (\<lambda>l. l @ news cfg s keys q) (map_of (queues s) q))"
proof (induction keys arbitrary: s)
  case Nil
  then show ?case by (auto simp: news_def fun_eq_iff option.map_ident)
next
  case (Cons key keys)
  let ?H = HOTSWAP_CALLBACK_NAMESPACE and ?d = "probe_dict cfg key"
  have k: "key \<in> set (probe_names cfg)" using Cons.prems(2) by simp
  note d = dict_configD [OF assms k]
  obtain q0 where q0: "map_of (vals s ?H) key = Some (PFun q0)" using Cons.prems(3) by auto
  obtain s1 where s1: "parse_probe self_restart C True (PDict cfg) key s = (Inr True, s1)" "sighups s1 = sighups s"
      "V s1 = (V s)(key \<mapsto> ?d)"
      "queues s1 = (if differs ?d (vals s key) then AList.map_entry q0 (\<lambda>l. l @ [PDict ?d]) (queues s) else queues s)"
    using parse_probe_hotswap [OF d(1,2) q0] Cons.prems(3) by auto
  have same: "vals s1 n = vals s n" if "n \<noteq> key" for n using vals_other [OF s1(3) that] .
  have ne: "k \<noteq> key" if "k \<in> set keys" for k using Cons.prems(1) that by auto
  have H: "vals s1 ?H = vals s ?H" using same special_names(1) [OF k] by metis
  obtain s' where s': "parse_probes self_restart C True (PDict cfg) keys s1 = (Inr (), s')" "sighups s' = sighups s1"
      "V s' = (\<lambda>n. if n \<in> set keys then Some (probe_dict cfg n) else V s1 n)"
      "map fst (queues s') = map fst (queues s1)"
      "\<forall>q. map_of (queues s') q = map_option (\<lambda>l. l @ news cfg s1 keys q) (map_of (queues s1) q)"
    using Cons.IH [of s1] Cons.prems same ne H by auto
  have "news cfg s1 keys q = news cfg s keys q" for q
    unfolding news_def using same ne H by (intro arg_cong [where f = "map _"] filter_cong) auto
  moreover have "map fst (queues s1) = map fst (queues s)" by (simp add: s1(4) map_fst_map_entry)
  moreover have "map_of (queues s1) q = map_option (\<lambda>l. l @ news cfg s [key] q) (map_of (queues s) q)" for q
    using q0 by (auto simp: s1(4) news_def map_of_map_entry option.map_ident intro: option.map_cong)
  moreover have "news cfg s (key # keys) q = news cfg s [key] q @ news cfg s keys q" for q
    by (simp add: news_def)
  ultimately show ?case using s' s1
    by (intro exI [of _ s']) (auto simp: bindE_def fun_eq_iff option.map_comp comp_def)
qed

lemma parse_probes_restart:
  assumes "dict_config cfg"
  shows "distinct keys \<Longrightarrow> set keys \<subseteq> set (probe_names cfg) \<Longrightarrow> set keys \<subseteq> dom (V s) \<Longrightarrow>
    (\<forall>k \<in> set keys. \<exists>q. map_of (vals s HOTSWAP_CALLBACK_NAMESPACE) k = Some (PFun q)) \<Longrightarrow>
    (\<exists>k \<in> set keys. restart_change (probe_dict cfg k) (vals s k)) \<Longrightarrow>
    \<exists>s'. parse_probes self_restart C True (PDict cfg) keys s = (Inr (), s') \<and> sighups s' = Suc (sighups s) \<and>
      V s' = (\<lambda>n. if n \<in> dom (V s) then Some [] else None) \<and> map fst (queues s') = map fst (queues s)"
proof (induction keys arbitrary: s)
  case Nil
  then show ?case by simp
next
  case (Cons key keys)
  let ?H = HOTSWAP_CALLBACK_NAMESPACE and ?d = "probe_dict cfg key"
  have k: "key \<in> set (probe_names cfg)" using Cons.prems(2) by simp
  note d = dict_configD [OF assms k]
  obtain q0 where q0: "map_of (vals s ?H) key = Some (PFun q0)" using Cons.prems(4) by auto
  show ?case
  proof (cases "restart_change ?d (vals s key)")
    case True
    have "insert key (dom (V s)) = dom (V s)" using Cons.prems(3) by (simp add: insert_absorb)
    with parse_probe_restart [OF d(1) q0 True] show ?thesis by (fastforce simp: bindE_def)
  next
    case False
    obtain s1 where s1: "parse_probe self_restart C True (PDict cfg) key s = (Inr True, s1)" "sighups s1 = sighups s"
        "V s1 = (V s)(key \<mapsto> ?d)"
        "queues s1 = (if differs ?d (vals s key) then AList.map_entry q0 (\<lambda>l. l @ [PDict ?d]) (queues s) else queues s)"
      using parse_probe_hotswap [OF d(1,2) q0 False] by auto
    have same: "vals s1 n = vals s n" if "n \<noteq> key" for n using vals_other [OF s1(3) that] .
    have ne: "k \<noteq> key" if "k \<in> set keys" for k using Cons.prems(1) that by auto
    have H: "vals s1 ?H = vals s ?H" using same special_names(1) [OF k] by metis
    have dom: "dom (V s1) = dom (V s)" using Cons.prems(3) by (auto simp: s1(3))
    have "\<exists>k \<in> set keys. restart_change (probe_dict cfg k) (vals s1 k)"
      using Cons.prems(5) False same ne by auto
    then obtain s' where s': "parse_probes self_restart C True (PDict cfg) keys s1 = (Inr (), s')"
        "sighups s' = Suc (sighups s1)" "V s' = (\<lambda>n. if n \<in> dom (V s1) then Some [] else None)"
        "map fst (queues s') = map fst (queues s1)"
      using Cons.IH [of s1] Cons.prems dom H by auto
    have "map fst (queues s1) = map fst (queues s)" by (simp add: s1(4) map_fst_map_entry)
    with s' s1(1,2) dom show ?thesis by (intro exI [of _ s']) (simp add: bindE_def)
  qed
qed

text \<open>The state of the parser in terms of the view, and the two ways it may go.\<close>

lemma probe_namespaces_V: "set (get_probe_namespaces C (namespaces s)) = dom (V s) - set NON_PROBE_NAMESPACES"
  by (auto simp: get_probe_namespaces_def names V_def)

lemma callback_of_vals: "callback_of C s k = map_of (vals s HOTSWAP_CALLBACK_NAMESPACE) k"
  and recorded_files_vals: "recorded_files C s = map_of (vals s LOADED_CONFIG_FILES_NAMESPACE) ''files''"
  by (simp_all add: callback_of_def recorded_files_def vals_def)

definition must_restart :: "'w config_state \<Rightarrow> pyval pydict \<Rightarrow> string list \<Rightarrow> bool" where
  "must_restart s cfg files = needs_restart (probe_names cfg) (get_probe_namespaces C (namespaces s))
     (case recorded_files C s of None \<Rightarrow> PNone | Some v \<Rightarrow> v) files"

lemma parse_config_restarts:
  assumes "yaml_load f = Inr (PDict cfg, inc)" and "dict_config cfg" and "set_order ord"
    and "must_restart s cfg (all_files f inc)"
  shows "\<exists>s'. parse_config self_restart C ord yaml_load f True s = (Inr (all_files f inc), s') \<and>
    parse_config self_restart_main C ord yaml_load f True s = (Inl RestartSignal, s') \<and>
    sighups s' = Suc (sighups s) \<and> queues s' = queues s \<and> (\<forall>n. vals s' n = []) \<and>
    set (get_probe_namespaces C (namespaces s')) =
      set (get_probe_namespaces C (namespaces s)) \<inter> set (probe_names cfg)"
proof -
  let ?gone = "ord (filter (\<lambda>n. n \<notin> set (probe_names cfg)) (get_probe_namespaces C (namespaces s)))"
  obtain s1 where s1: "drop_namespaces C ?gone s = (Inr (), s1)"
      "V s1 = (\<lambda>n. if n \<in> set ?gone then None else V s n)" "sighups s1 = sighups s" "queues s1 = queues s"
    using drop_view by blast
  obtain s2 where s2: "clear_and_restart self_restart C s1 = (Inr (), s2)"
      "V s2 = (\<lambda>n. if n \<in> dom (V s1) then Some [] else None)"
      "sighups s2 = Suc (sighups s1)" "queues s2 = queues s1"
    using restart_view by blast
  have "parse_config self_restart C ord yaml_load f True s = (Inr (all_files f inc), s2)"
    using assms(1,4) s1(1) s2(1)
    by (simp add: parse_config_def bindE_def probe_keys_dict [OF assms(2)] Let_def must_restart_def
        recorded_files_def dict_get_def all_files_def)
  moreover have "parse_config self_restart_main C ord yaml_load f True s = (Inl RestartSignal, s2)"
    using assms(1,4) s1(1) restart_on_main [OF s2(1)]
    by (simp add: parse_config_def bindE_def probe_keys_dict [OF assms(2)] Let_def must_restart_def
        recorded_files_def dict_get_def all_files_def)
  moreover have "vals s2 n = []" for n by (simp add: vals_V s2(2))
  moreover have "set ?gone = set (get_probe_namespaces C (namespaces s)) - set (probe_names cfg)"
    using assms(3) by auto
  then have "set (get_probe_namespaces C (namespaces s2)) =
      set (get_probe_namespaces C (namespaces s)) \<inter> set (probe_names cfg)"
    unfolding probe_namespaces_V s2(2) s1(2) by (auto split: if_splits)
  ultimately show ?thesis using s1 s2 by auto
qed

lemma parse_config_goes_on:
  assumes "yaml_load f = Inr (PDict cfg, inc)" and "dict_config cfg"
    and "\<not> must_restart s cfg (all_files f inc)"
    and "parse_probes self_restart C True (PDict cfg) (ord (probe_names cfg)) s = (Inr (), s1)"
  shows "\<exists>s'. parse_config self_restart C ord yaml_load f True s = (Inr (all_files f inc), s') \<and>
    sighups s' = sighups s1 \<and> queues s' = queues s1 \<and>
    dom (V s') = insert LOADED_CONFIG_FILES_NAMESPACE (dom (V s1)) \<and>
    (\<forall>n. n \<noteq> LOADED_CONFIG_FILES_NAMESPACE \<longrightarrow> vals s' n = vals s1 n) \<and>
    recorded_files C s' = Some (PList (map PStr (all_files f inc)))"
proof -
  let ?files = "PList (map PStr (all_files f inc))"
  obtain s2 where s2: "dict_configuration C (PDict [(''files'', ?files)]) LOADED_CONFIG_FILES_NAMESPACE s1 = (Inr (), s2)"
      "V s2 = (V s1)(LOADED_CONFIG_FILES_NAMESPACE \<mapsto> dict_merge (vals s1 LOADED_CONFIG_FILES_NAMESPACE) [(''files'', ?files)])"
      "sighups s2 = sighups s1" "queues s2 = queues s1"
    using load_view by blast
  have "parse_config self_restart C ord yaml_load f True s = (Inr (all_files f inc), s2)"
    using assms(1,3,4) s2(1)
    by (simp add: parse_config_def bindE_def probe_keys_dict [OF assms(2)] Let_def must_restart_def
        recorded_files_def dict_get_def all_files_def)
  moreover have "recorded_files C s2 = Some ?files"
    by (simp add: recorded_files_vals vals_V s2(2) map_of_dict_merge)
  ultimately show ?thesis using s2 by (auto simp: vals_V)
qed

lemma must_restart_iff:
  "must_restart s cfg files \<longleftrightarrow>
     set (get_probe_namespaces C (namespaces s)) \<noteq> {} \<and>
       set (get_probe_namespaces C (namespaces s)) \<noteq> set (probe_names cfg) \<or>
     (\<exists>v. recorded_files C s = Some v \<and> truthy v \<and> \<not> py_eq v (PList (map PStr files)))"
  by (auto simp: must_restart_def needs_restart_def truthy_def split: option.split)

lemma ready_not_must_restart: "ready C cfg files s \<Longrightarrow> \<not> must_restart s cfg files"
  by (auto simp: ready_def must_restart_iff py_eq_files simp del: py_eq.simps)

lemma first_load_state:
  assumes "yaml_load f = Inr (PDict cfg, inc)" and "dict_config cfg" and "set_order ord"
    and "ready C cfg (all_files f inc) s"
  defines "keys \<equiv> ord (probe_names cfg)" and "is \<equiv> [length (queues s)..<length (queues s) + length (ord (probe_names cfg))]"
  shows "\<exists>s'. parse_config self_restart C ord yaml_load f True s = (Inr (all_files f inc), s') \<and>
    sighups s' = sighups s \<and> queues s' = queues s @ map (\<lambda>i. (show_nat i, [])) is \<and>
    set (get_probe_namespaces C (namespaces s')) = set (probe_names cfg) \<and>
    (\<forall>k \<in> set (probe_names cfg). vals s' k = probe_dict cfg k) \<and>
    callback_of C s' = map_of (zip keys (map (\<lambda>i. PFun (show_nat i)) is)) \<and>
    recorded_files C s' = Some (PList (map PStr (all_files f inc)))"
proof -
  let ?H = HOTSWAP_CALLBACK_NAMESPACE
  have keys: "distinct keys" "set keys = set (probe_names cfg)"
    using assms(2,3) by (simp_all add: keys_def dict_config_def probe_names_def)
  have none: "map_of (vals s ?H) = Map.empty"
    using assms(4) unfolding ready_def callback_of_vals by (intro ext) blast
  obtain s1 where s1: "parse_probes self_restart C True (PDict cfg) keys s = (Inr (), s1)" "sighups s1 = sighups s"
      "\<forall>n. n \<noteq> ?H \<longrightarrow> V s1 n = (if n \<in> set keys then Some (probe_dict cfg n) else V s n)"
      "map_of (vals s1 ?H) = map_of (vals s ?H) ++ map_of (zip keys (map (\<lambda>i. PFun (show_nat i)) is))"
      "queues s1 = queues s @ map (\<lambda>i. (show_nat i, [])) is"
    using parse_probes_first [OF assms(2) keys(1), of s] keys(2) none
    by (auto simp: is_def keys_def [symmetric])
  obtain s' where s': "parse_config self_restart C ord yaml_load f True s = (Inr (all_files f inc), s')"
      "sighups s' = sighups s1" "queues s' = queues s1"
      "dom (V s') = insert LOADED_CONFIG_FILES_NAMESPACE (dom (V s1))"
      "\<forall>n. n \<noteq> LOADED_CONFIG_FILES_NAMESPACE \<longrightarrow> vals s' n = vals s1 n"
      "recorded_files C s' = Some (PList (map PStr (all_files f inc)))"
    using parse_config_goes_on [where ord = ord and yaml_load = yaml_load and f = f, OF assms(1,2) ready_not_must_restart [OF assms(4)]] s1(1)
    unfolding keys_def by blast
  have "callback_of C s' = map_of (zip keys (map (\<lambda>i. PFun (show_nat i)) is))"
    using s'(5) s1(4) by (simp add: fun_eq_iff callback_of_vals none)
  moreover have "vals s' k = probe_dict cfg k" if "k \<in> set (probe_names cfg)" for k
    using s'(5) s1(3) special_names [OF that] that keys(2) by (simp add: vals_V)
  moreover have "set (get_probe_namespaces C (namespaces s')) = set (probe_names cfg)"
  proof -
    have np: "set (probe_names cfg) \<inter> set NON_PROBE_NAMESPACES = {}" using dict_configD(3) [OF assms(2)] by blast
    have d1: "dom (V s1) - {?H} = (dom (V s) \<union> set (probe_names cfg)) - {?H}"
      using s1(3) keys(2) by (auto split: if_splits)
    have "dom (V s) - set NON_PROBE_NAMESPACES \<subseteq> set (probe_names cfg)"
      using assms(4) by (auto simp: ready_def probe_namespaces_V)
    moreover have "{?H, LOADED_CONFIG_FILES_NAMESPACE} \<subseteq> set NON_PROBE_NAMESPACES"
      by (simp add: NON_PROBE_NAMESPACES_def)
    ultimately show ?thesis using np d1 unfolding probe_namespaces_V s'(4) by blast
  qed
  ultimately show ?thesis using s' s1 by auto
qed

lemma first_load:
  assumes "yaml_load f = Inr (PDict cfg, inc)" and "dict_config cfg" and "set_order ord"
    and "ready C cfg (all_files f inc) s"
  shows "\<exists>s'. parse_config self_restart C ord yaml_load f True s = (Inr (all_files f inc), s') \<and>
    sighups s' = sighups s \<and> loaded_config C cfg (all_files f inc) s' \<and>
    (\<forall>k \<in> set (probe_names cfg). \<exists>q. callback_of C s' k = Some (PFun q) \<and> map_of (queues s') q = Some [])"
proof -
  define keys where "keys = ord (probe_names cfg)"
  define n where "n = length (queues s)"
  have keys: "distinct keys" "set keys = set (probe_names cfg)"
    using assms(2,3) by (simp_all add: keys_def dict_config_def probe_names_def)
  have named: "map fst (queues s) = map show_nat [0..<length (queues s)]"
    using assms(4) by (simp add: ready_def queues_named_def)
  obtain s' where s': "parse_config self_restart C ord yaml_load f True s = (Inr (all_files f inc), s')"
      "sighups s' = sighups s" "queues s' = queues s @ map (\<lambda>i. (show_nat i, [])) [n..<n + length keys]"
      "set (get_probe_namespaces C (namespaces s')) = set (probe_names cfg)"
      "\<forall>k \<in> set (probe_names cfg). vals s' k = probe_dict cfg k"
      "callback_of C s' = map_of (zip keys (map (\<lambda>i. PFun (show_nat i)) [n..<n + length keys]))"
      "recorded_files C s' = Some (PList (map PStr (all_files f inc)))"
    using first_load_state [where ord = ord and yaml_load = yaml_load and f = f, OF assms] unfolding keys_def [symmetric] n_def [symmetric] by blast
  have cb: "callback_of C s' (keys ! i) = Some (PFun (show_nat (n + i)))" if "i < length keys" for i
    using that keys(1) by (simp add: s'(6) map_of_zip_nth)
  have q: "map_of (queues s') (show_nat (n + i)) = Some []" if "i < length keys" for i
    using fresh_queues [OF named, of "n + i" "length keys"] that unfolding s'(3) n_def by simp
  have each: "\<exists>q. callback_of C s' k = Some (PFun q) \<and> map_of (queues s') q = Some []"
    if "k \<in> set (probe_names cfg)" for k
    using that cb q unfolding keys(2) [symmetric] in_set_conv_nth by blast
  have "inj_on (callback_of C s') (set keys)"
  proof (rule inj_onI)
    fix k k' assume "k \<in> set keys" "k' \<in> set keys" and eq: "callback_of C s' k = callback_of C s' k'"
    then obtain i j where "i < length keys" "j < length keys" "k = keys ! i" "k' = keys ! j"
      by (auto simp: in_set_conv_nth)
    with eq cb show "k = k'" by simp
  qed
  moreover have "queues_named s'"
    using more_queues_named [OF named, of "length keys"] by (simp add: queues_named_def s'(3) n_def)
  ultimately have "loaded_config C cfg (all_files f inc) s'"
    using s'(4,5,7) each unfolding loaded_config_def keys(2) vals_def by (metis option.distinct(1))
  with s'(1,2) each show ?thesis by blast
qed

lemma loadedD:
  assumes "loaded_config C cfg files s"
  shows "set (get_probe_namespaces C (namespaces s)) = set (probe_names cfg)"
    and "k \<in> set (probe_names cfg) \<Longrightarrow> vals s k = probe_dict cfg k"
    and "k \<in> set (probe_names cfg) \<Longrightarrow> \<exists>q. map_of (vals s HOTSWAP_CALLBACK_NAMESPACE) k = Some (PFun q)"
    and "queues_named s" and "recorded_files C s = Some (PList (map PStr files))"
  using assms by (auto simp: loaded_config_def vals_def callback_of_def)

lemma hotswap_state:
  assumes "yaml_load f = Inr (PDict cfg, inc)" and "dict_config cfg" and "set_order ord"
    and "loaded_config C old (all_files f inc) s" and "set (probe_names cfg) = set (probe_names old)"
    and "\<forall>k \<in> set (probe_names cfg). \<not> restart_change (probe_dict cfg k) (probe_dict old k)"
  shows "\<exists>s'. parse_config self_restart C ord yaml_load f True s = (Inr (all_files f inc), s') \<and>
    sighups s' = sighups s \<and> callback_of C s' = callback_of C s \<and>
    set (get_probe_namespaces C (namespaces s')) = set (probe_names cfg) \<and>
    (\<forall>k \<in> set (probe_names cfg). vals s' k = probe_dict cfg k) \<and>
    map fst (queues s') = map fst (queues s) \<and>
    (\<forall>q. map_of (queues s') q = map_option (\<lambda>l. l @ news cfg s (ord (probe_names cfg)) q) (map_of (queues s) q)) \<and>
    recorded_files C s' = Some (PList (map PStr (all_files f inc)))"
proof -
  let ?H = HOTSWAP_CALLBACK_NAMESPACE
  define keys where "keys = ord (probe_names cfg)"
  have keys: "distinct keys" "set keys = set (probe_names cfg)"
    using assms(2,3) by (simp_all add: keys_def dict_config_def probe_names_def)
  note ld = loadedD [OF assms(4)]
  have stay: "\<not> must_restart s cfg (all_files f inc)"
    using ld(1,5) assms(5) by (simp add: must_restart_iff py_eq_files del: py_eq.simps)
  have pre: "\<forall>k \<in> set keys. (\<exists>q. map_of (vals s ?H) k = Some (PFun q)) \<and>
      \<not> restart_change (probe_dict cfg k) (vals s k)"
    using ld(2,3) assms(5,6) keys(2) by metis
  obtain s1 where s1: "parse_probes self_restart C True (PDict cfg) keys s = (Inr (), s1)" "sighups s1 = sighups s"
      "V s1 = (\<lambda>n. if n \<in> set keys then Some (probe_dict cfg n) else V s n)"
      "map fst (queues s1) = map fst (queues s)"
      "\<forall>q. map_of (queues s1) q = map_option (\<lambda>l. l @ news cfg s keys q) (map_of (queues s) q)"
    using parse_probes_hotswap [OF assms(2) keys(1) _ pre] keys(2) by blast
  obtain s' where s': "parse_config self_restart C ord yaml_load f True s = (Inr (all_files f inc), s')"
      "sighups s' = sighups s1" "queues s' = queues s1"
      "dom (V s') = insert LOADED_CONFIG_FILES_NAMESPACE (dom (V s1))"
      "\<forall>n. n \<noteq> LOADED_CONFIG_FILES_NAMESPACE \<longrightarrow> vals s' n = vals s1 n"
      "recorded_files C s' = Some (PList (map PStr (all_files f inc)))"
    using parse_config_goes_on [where ord = ord and yaml_load = yaml_load and f = f, OF assms(1,2) stay] s1(1)
    unfolding keys_def by blast
  have "?H \<notin> set keys" using special_names(1) keys(2) by blast
  then have "callback_of C s' = callback_of C s"
    using s'(5) by (simp add: fun_eq_iff callback_of_vals vals_V s1(3))
  moreover have "vals s' k = probe_dict cfg k" if "k \<in> set (probe_names cfg)" for k
    using s'(5) special_names [OF that] that keys(2) by (simp add: vals_V s1(3))
  moreover have "dom (V s1) = dom (V s)"
    using ld(1) assms(5) keys(2) unfolding probe_namespaces_V s1(3) by (auto split: if_splits)
  then have "set (get_probe_namespaces C (namespaces s')) = set (probe_names cfg)"
    using ld(1) assms(5) unfolding probe_namespaces_V s'(4) by (auto simp: NON_PROBE_NAMESPACES_def)
  ultimately show ?thesis using s' s1 unfolding keys_def by auto
qed

lemma hotswap:
  assumes "yaml_load f = Inr (PDict cfg, inc)" and "dict_config cfg" and "set_order ord"
    and "loaded_config C old (all_files f inc) s" and "set (probe_names cfg) = set (probe_names old)"
    and "\<forall>k \<in> set (probe_names cfg). \<not> restart_change (probe_dict cfg k) (probe_dict old k)"
  shows "\<exists>s'. parse_config self_restart C ord yaml_load f True s = (Inr (all_files f inc), s') \<and>
    sighups s' = sighups s \<and> loaded_config C cfg (all_files f inc) s' \<and>
    (\<forall>k \<in> set (probe_names cfg). \<exists>q l. callback_of C s k = Some (PFun q) \<and> callback_of C s' k = Some (PFun q) \<and>
       map_of (queues s) q = Some l \<and>
       map_of (queues s') q = Some (l @ (if differs (probe_dict cfg k) (probe_dict old k)
                                         then [PDict (probe_dict cfg k)] else [])))"
proof -
  define keys where "keys = ord (probe_names cfg)"
  have keys: "distinct keys" "set keys = set (probe_names cfg)"
    using assms(2,3) by (simp_all add: keys_def dict_config_def probe_names_def)
  note ld = loadedD [OF assms(4)]
  obtain s' where s': "parse_config self_restart C ord yaml_load f True s = (Inr (all_files f inc), s')"
    "sighups s' = sighups s" "callback_of C s' = callback_of C s"
    "set (get_probe_namespaces C (namespaces s')) = set (probe_names cfg)"
    "\<forall>k \<in> set (probe_names cfg). vals s' k = probe_dict cfg k"
    "map fst (queues s') = map fst (queues s)"
    "\<forall>q. map_of (queues s') q = map_option (\<lambda>l. l @ news cfg s keys q) (map_of (queues s) q)"
    "recorded_files C s' = Some (PList (map PStr (all_files f inc)))"
    using hotswap_state [where ord = ord and yaml_load = yaml_load and f = f, OF assms]
    unfolding keys_def by blast
  have inj: "inj_on (callback_of C s) (set (probe_names cfg))"
    using assms(4,5) by (simp add: loaded_config_def)
  have each: "\<exists>q l. callback_of C s k = Some (PFun q) \<and> map_of (queues s) q = Some l \<and>
      map_of (queues s') q = Some (l @ (if differs (probe_dict cfg k) (probe_dict old k)
                                        then [PDict (probe_dict cfg k)] else []))"
    if k: "k \<in> set (probe_names cfg)" for k
  proof -
    obtain q l where q: "callback_of C s k = Some (PFun q)" "map_of (queues s) q = Some l"
      using assms(4,5) k by (auto simp: loaded_config_def)
    have "filter (\<lambda>x. callback_of C s x = Some (PFun q) \<and> differs (probe_dict cfg x) (vals s x)) keys =
        (if callback_of C s k = Some (PFun q) \<and> differs (probe_dict cfg k) (vals s k) then [k] else [])"
      using inj q(1) k keys by (intro filter_only) (auto simp: inj_on_def)
    then have "news cfg s keys q = (if differs (probe_dict cfg k) (probe_dict old k)
        then [PDict (probe_dict cfg k)] else [])"
      using q(1) k assms(5) by (simp add: news_def callback_of_vals [symmetric] ld(2))
    with s'(7) q show ?thesis by auto
  qed
  have "queues_named s'"
    using ld(4) s'(6) unfolding queues_named_def by (metis length_map)
  moreover have "\<forall>k \<in> set (probe_names cfg). \<exists>q. callback_of C s' k = Some (PFun q) \<and> map_of (queues s') q \<noteq> None"
    using each by (fastforce simp: s'(3))
  ultimately have "loaded_config C cfg (all_files f inc) s'"
    using s'(4,5,8) inj unfolding loaded_config_def s'(3) vals_def by blast
  with s'(1,2) each show ?thesis by (auto simp: s'(3))
qed

text \<open>A restart leaves a state a load may start from, unless the new file adds a probe.\<close>

lemma restart_ready:
  assumes "yaml_load f = Inr (PDict cfg, inc)" and "dict_config cfg" and "set_order ord"
    and "loaded_config C old files s" and "must_restart s cfg (all_files f inc)"
    and "set (probe_names cfg) \<subseteq> set (probe_names old) \<or> set (probe_names cfg) \<inter> set (probe_names old) = {}"
  shows "\<exists>s'. parse_config self_restart C ord yaml_load f True s = (Inr (all_files f inc), s') \<and>
    sighups s' = Suc (sighups s) \<and> ready C cfg (all_files f inc) s'"
proof -
  note ld = loadedD [OF assms(4)]
  obtain s' where s': "parse_config self_restart C ord yaml_load f True s = (Inr (all_files f inc), s')"
      "sighups s' = Suc (sighups s)" "queues s' = queues s" "\<forall>n. vals s' n = []"
      "set (get_probe_namespaces C (namespaces s')) = set (probe_names old) \<inter> set (probe_names cfg)"
    using parse_config_restarts [where ord = ord and yaml_load = yaml_load and f = f, OF assms(1,2,3,5)]
    unfolding ld(1) by blast
  have "ready C cfg (all_files f inc) s'"
    unfolding ready_def callback_of_vals recorded_files_vals s'(4) [rule_format] s'(5)
    using ld(4) assms(6) by (auto simp: queues_named_def s'(3))
  with s'(1,2) show ?thesis by blast
qed

lemma cold_change_ready:
  assumes "yaml_load f = Inr (PDict cfg, inc)" and "dict_config cfg" and "set_order ord"
    and "loaded_config C old (all_files f inc) s" and "set (probe_names cfg) = set (probe_names old)"
    and "\<exists>k \<in> set (probe_names cfg). restart_change (probe_dict cfg k) (probe_dict old k)"
  shows "\<exists>s'. parse_config self_restart C ord yaml_load f True s = (Inr (all_files f inc), s') \<and>
    sighups s' = Suc (sighups s) \<and> ready C cfg (all_files f inc) s'"
proof -
  let ?H = HOTSWAP_CALLBACK_NAMESPACE
  define keys where "keys = ord (probe_names cfg)"
  have keys: "distinct keys" "set keys = set (probe_names cfg)"
    using assms(2,3) by (simp_all add: keys_def dict_config_def probe_names_def)
  note ld = loadedD [OF assms(4)]
  have stay: "\<not> must_restart s cfg (all_files f inc)"
    using ld(1,5) assms(5) by (simp add: must_restart_iff py_eq_files del: py_eq.simps)
  have dom: "set keys \<subseteq> dom (V s)" using ld(1) assms(5) keys(2) unfolding probe_namespaces_V by blast
  have "\<exists>k \<in> set keys. restart_change (probe_dict cfg k) (vals s k)"
    using assms(5,6) ld(2) keys(2) by metis
  moreover have "\<forall>k \<in> set keys. \<exists>q. map_of (vals s ?H) k = Some (PFun q)" using ld(3) assms(5) keys(2) by metis
  ultimately obtain s1 where s1: "parse_probes self_restart C True (PDict cfg) keys s = (Inr (), s1)"
      "sighups s1 = Suc (sighups s)" "V s1 = (\<lambda>n. if n \<in> dom (V s) then Some [] else None)"
      "map fst (queues s1) = map fst (queues s)"
    using parse_probes_restart [OF assms(2) keys(1) _ dom] keys(2) by blast
  obtain s' where s': "parse_config self_restart C ord yaml_load f True s = (Inr (all_files f inc), s')"
      "sighups s' = sighups s1" "queues s' = queues s1"
      "dom (V s') = insert LOADED_CONFIG_FILES_NAMESPACE (dom (V s1))"
      "\<forall>n. n \<noteq> LOADED_CONFIG_FILES_NAMESPACE \<longrightarrow> vals s' n = vals s1 n"
      "recorded_files C s' = Some (PList (map PStr (all_files f inc)))"
    using parse_config_goes_on [where ord = ord and yaml_load = yaml_load and f = f, OF assms(1,2) stay] s1(1)
    unfolding keys_def by blast
  have "callback_of C s' k = None" for k using s'(5) by (simp add: callback_of_vals vals_V s1(3))
  moreover have "queues_named s'"
    using ld(4) s1(4) unfolding queues_named_def s'(3) by (metis length_map)
  moreover have "dom (V s1) = dom (V s)" unfolding s1(3) by (auto split: if_splits)
  then have "set (get_probe_namespaces C (namespaces s')) = set (probe_names cfg)"
    using ld(1) assms(5) unfolding probe_namespaces_V s'(4) by (auto simp: NON_PROBE_NAMESPACES_def)
  ultimately show ?thesis using s' s1(2) unfolding ready_def by auto
qed

lemma settles:
  assumes "yaml_load f = Inr (PDict cfg, inc)" and "dict_config cfg" and "set_order ord"
    and "loaded_config C old files s" and "files \<noteq> []" and "probe_names old \<noteq> []"
    and "set (probe_names cfg) \<subseteq> set (probe_names old) \<or> set (probe_names cfg) \<inter> set (probe_names old) = {}"
  shows "\<exists>s1. parse_config self_restart C ord yaml_load f True s = (Inr (all_files f inc), s1) \<and>
    (loaded_config C cfg (all_files f inc) s1 \<and> sighups s1 = sighups s \<or>
     sighups s1 = Suc (sighups s) \<and>
     (\<exists>s2. parse_config self_restart_main C ord yaml_load f True s1 = (Inr (all_files f inc), s2) \<and>
        sighups s2 = sighups s1 \<and> loaded_config C cfg (all_files f inc) s2))"
proof -
  note ld = loadedD [OF assms(4)]
  have load: "\<exists>s2. parse_config self_restart_main C ord yaml_load f True s1 = (Inr (all_files f inc), s2) \<and>
        sighups s2 = sighups s1 \<and> loaded_config C cfg (all_files f inc) s2"
    if "ready C cfg (all_files f inc) s1" for s1
    using first_load [where ord = ord and yaml_load = yaml_load and f = f, OF assms(1-3) that] parse_config_main_same by blast
  show ?thesis
  proof (cases "must_restart s cfg (all_files f inc)")
    case True
    from restart_ready [where ord = ord and yaml_load = yaml_load and f = f, OF assms(1-4) this assms(7)] load
    show ?thesis by blast
  next
    case False
    then have same: "set (probe_names cfg) = set (probe_names old)" "files = all_files f inc"
      using ld(1,5) assms(5,6) by (auto simp: must_restart_iff truthy_def py_eq_files simp del: py_eq.simps)
    show ?thesis
    proof (cases "\<exists>k \<in> set (probe_names cfg). restart_change (probe_dict cfg k) (probe_dict old k)")
      case True
      from cold_change_ready [where ord = ord and yaml_load = yaml_load and f = f,
          OF assms(1-3) assms(4) [unfolded same(2)] same(1) True] load
      show ?thesis by blast
    next
      case False
      then show ?thesis
        using hotswap [where ord = ord and yaml_load = yaml_load and f = f,
            OF assms(1-3) assms(4) [unfolded same(2)] same(1)] by blast
    qed
  qed
qed

text \<open>A file that adds a probe to some that stay keeps the process restarting.\<close>

lemma added_probe_step:
  assumes "yaml_load f = Inr (PDict cfg, inc)" and "dict_config cfg" and "set_order ord"
    and "set (get_probe_namespaces C (namespaces s)) \<inter> set (probe_names cfg) \<noteq> {}"
    and "\<not> set (probe_names cfg) \<subseteq> set (get_probe_namespaces C (namespaces s))"
  shows "\<exists>s1. parse_config self_restart C ord yaml_load f True s = (Inr (all_files f inc), s1) \<and>
    parse_config self_restart_main C ord yaml_load f True s = (Inl RestartSignal, s1) \<and> sighups s1 = Suc (sighups s) \<and>
    set (get_probe_namespaces C (namespaces s1)) \<inter> set (probe_names cfg) \<noteq> {} \<and>
    \<not> set (probe_names cfg) \<subseteq> set (get_probe_namespaces C (namespaces s1))"
proof -
  have "must_restart s cfg (all_files f inc)" using assms(4,5) by (auto simp: must_restart_iff)
  from parse_config_restarts [where ord = ord and yaml_load = yaml_load and f = f, OF assms(1-3) this]
  obtain s1 where s1: "parse_config self_restart C ord yaml_load f True s = (Inr (all_files f inc), s1)"
    "parse_config self_restart_main C ord yaml_load f True s = (Inl RestartSignal, s1)"
    "sighups s1 = Suc (sighups s)" "set (get_probe_namespaces C (namespaces s1)) =
      set (get_probe_namespaces C (namespaces s)) \<inter> set (probe_names cfg)" by blast
  with assms(4,5) show ?thesis by (intro exI [of _ s1]) auto
qed

end

text \<open>A dictionary of namespaces, each a dictionary of its values.\<close>

definition dict_store :: "(string \<times> pyval pydict) list staticconf_ops" where
  "dict_store = \<lparr>
     all_namespaces = (\<lambda>w. remdups (map fst w)),
     get_config_values = (\<lambda>n w. dict_get w n []),
     open_namespace = (\<lambda>n w. AList.update n (dict_get w n []) w),
     clear_namespace = (\<lambda>n. AList.update n []),
     pop_namespace = (\<lambda>n w. AList.delete n w),
     DictConfiguration = (\<lambda>v n w. case v of
         PDict d \<Rightarrow> (Inr (), AList.update n (dict_merge (dict_get w n []) d) w)
       | _ \<Rightarrow> (Inl TypeError, w)) \<rparr>"

interpretation ds: config_store dict_store map_of
  by unfold_locales
     (auto simp: dict_store_def dict_get_def update_conv' delete_conv' dom_map_of_conv_image_fst)

section \<open>Loading, hot swaps and restarts\<close>

text \<open>
  A configuration loaded with watching on into empty namespaces gives every probe of
  the file, and nothing else, a namespace with its settings and an empty change queue of its own,
  records the sorted list of files, and asks for no restart.
\<close>

theorem config_first_load:
  assumes "config_store C view" and "yaml_load f = Inr (PDict cfg, inc)" and "dict_config cfg" and "set_order ord"
    and "ready C cfg (all_files f inc) s"
  shows "\<exists>s'. parse_config self_restart C ord yaml_load f True s = (Inr (all_files f inc), s') \<and>
    sighups s' = sighups s \<and> loaded_config C cfg (all_files f inc) s' \<and>
    (\<forall>k \<in> set (probe_names cfg). \<exists>q. callback_of C s' k = Some (PFun q) \<and> map_of (queues s') q = Some [])"
  using assms by (rule config_store.first_load)

text \<open>
  Property C4. When the file changes in hot-swappable settings only, no restart is asked for,
  every probe whose settings changed is sent its new settings exactly once and every other probe
  nothing, and the namespaces hold the new configuration.
\<close>

theorem config_hotswap_delivers:
  assumes "config_store C view" and "yaml_load f = Inr (PDict cfg, inc)" and "dict_config cfg" and "set_order ord"
    and "loaded_config C old (all_files f inc) s" and "set (probe_names cfg) = set (probe_names old)"
    and "\<forall>k \<in> set (probe_names cfg). \<not> restart_change (probe_dict cfg k) (probe_dict old k)"
  shows "\<exists>s'. parse_config self_restart C ord yaml_load f True s = (Inr (all_files f inc), s') \<and>
    sighups s' = sighups s \<and> loaded_config C cfg (all_files f inc) s' \<and>
    (\<forall>k \<in> set (probe_names cfg). \<exists>q l. callback_of C s k = Some (PFun q) \<and> callback_of C s' k = Some (PFun q) \<and>
       map_of (queues s) q = Some l \<and>
       map_of (queues s') q = Some (l @ (if differs (probe_dict cfg k) (probe_dict old k)
                                         then [PDict (probe_dict cfg k)] else [])))"
  using assms by (rule config_store.hotswap)

text \<open>
  Property C7. From a loaded configuration, a changed file that adds no probe to the ones that
  stay is taken over after at most one restart: either the parse on the watchdog's thread loads it,
  or it asks for one restart and the parse on the main thread after that loads it without asking
  for another.
\<close>

theorem config_restart_settles:
  assumes "config_store C view" and "yaml_load f = Inr (PDict cfg, inc)" and "dict_config cfg" and "set_order ord"
    and "loaded_config C old files s" and "files \<noteq> []" and "probe_names old \<noteq> []"
    and "set (probe_names cfg) \<subseteq> set (probe_names old) \<or> set (probe_names cfg) \<inter> set (probe_names old) = {}"
  shows "\<exists>s1. parse_config self_restart C ord yaml_load f True s = (Inr (all_files f inc), s1) \<and>
    (loaded_config C cfg (all_files f inc) s1 \<and> sighups s1 = sighups s \<or>
     sighups s1 = Suc (sighups s) \<and>
     (\<exists>s2. parse_config self_restart_main C ord yaml_load f True s1 = (Inr (all_files f inc), s2) \<and>
        sighups s2 = sighups s1 \<and> loaded_config C cfg (all_files f inc) s2))"
  using assms by (rule config_store.settles)

section \<open>Example configurations\<close>

definition example_conf :: "string list \<Rightarrow> bool \<Rightarrow> pyval pydict" where
  "example_conf filters other = [(''tcp_connect'',
     PDict [(''filters'', PList (map PStr filters)), (''other'', PBool other)])]"

definition example_loaded :: "((string \<times> pyval pydict) list) config_state" where
  "example_loaded = \<lparr>namespaces = [(''tcp_connect'', [(''filters'', PList [PStr ''foo'']), (''other'', PBool True)]),
      (''__change_callbacks'', [(''tcp_connect'', PFun ''0'')]),
      (''__loaded_configs'', [(''files'', PList [PStr ''c.yml''])])],
     queues = [(''0'', [])], sighups = 0\<rparr>"

lemmas config_simps = probe_names_def probe_dict_def example_conf_def startswith_def all_files_def

lemma all_files_single [simp]: "all_files f [] = [f]"
  by (simp add: all_files_def)

lemma example_conf_ok: "dict_config (example_conf fs b)"
  by (simp add: dict_config_def config_simps DEFAULT_NAMESPACE_def)

lemma example_loaded_ok: "loaded_config dict_store (example_conf [''foo''] True) [''c.yml''] example_loaded"
  by (simp add: loaded_config_def config_simps example_loaded_def get_probe_namespaces_def dict_store_def
      NON_PROBE_NAMESPACES_def DEFAULT_NAMESPACE_def HOTSWAP_CALLBACK_NAMESPACE_def LOADED_CONFIG_FILES_NAMESPACE_def
      dict_get_def callback_of_def queues_named_def recorded_files_def)

theorem config_first_load_witness:
  "\<exists>s'. parse_config self_restart dict_store (\<lambda>x. x) (\<lambda>_. Inr (PDict (example_conf [''foo''] True), [])) ''c.yml'' True
      \<lparr>namespaces = [], queues = [], sighups = 0\<rparr> = (Inr [''c.yml''], s') \<and>
    loaded_config dict_store (example_conf [''foo''] True) [''c.yml''] s'"
proof -
  have "ready dict_store (example_conf [''foo''] True) (all_files ''c.yml'' []) \<lparr>namespaces = [], queues = [], sighups = 0\<rparr>"
    by (simp add: ready_def callback_of_def dict_store_def dict_get_def queues_named_def
        get_probe_namespaces_def recorded_files_def)
  from config_first_load [OF ds.config_store_axioms, where ord = "\<lambda>x. x" and f = "''c.yml''" and
      yaml_load = "\<lambda>_. Inr (PDict (example_conf [''foo''] True), [])", OF _ example_conf_ok set_order_id this]
  show ?thesis by auto
qed

theorem config_hotswap_delivers_witness:
  "\<exists>s'. parse_config self_restart dict_store (\<lambda>x. x) (\<lambda>_. Inr (PDict (example_conf [''bar''] True), [])) ''c.yml'' True
      example_loaded = (Inr [''c.yml''], s') \<and> sighups s' = 0 \<and>
    map_of (queues s') ''0'' = Some [PDict [(''filters'', PList [PStr ''bar'']), (''other'', PBool True)]]"
proof -
  have same: "set (probe_names (example_conf [''bar''] True)) = set (probe_names (example_conf [''foo''] True))"
    by (simp add: config_simps)
  have hot: "\<forall>k \<in> set (probe_names (example_conf [''bar''] True)).
      \<not> restart_change (probe_dict (example_conf [''bar''] True) k) (probe_dict (example_conf [''foo''] True) k)"
    by (simp add: config_simps restart_change_def differs_def cold_def HOT_SWAPPABLE_SETTINGS_def)
  have cb: "callback_of dict_store example_loaded ''tcp_connect'' = Some (PFun ''0'')"
    "map_of (queues example_loaded) ''0'' = Some []" "sighups example_loaded = 0"
    by (simp_all add: callback_of_def dict_store_def dict_get_def example_loaded_def HOTSWAP_CALLBACK_NAMESPACE_def)
  have "loaded_config dict_store (example_conf [''foo''] True) (all_files ''c.yml'' []) example_loaded"
    using example_loaded_ok by simp
  from config_hotswap_delivers [OF ds.config_store_axioms, where ord = "\<lambda>x. x" and f = "''c.yml''" and
      yaml_load = "\<lambda>_. Inr (PDict (example_conf [''bar''] True), [])", OF _ example_conf_ok set_order_id this same hot]
  show ?thesis
    by (auto simp: cb config_simps differs_def)
qed

theorem config_restart_settles_witness:
  "\<exists>s1. parse_config self_restart dict_store (\<lambda>x. x) (\<lambda>_. Inr (PDict (example_conf [''foo''] False), [])) ''c.yml'' True
      example_loaded = (Inr [''c.yml''], s1) \<and> sighups s1 \<le> 1"
  using config_restart_settles [OF ds.config_store_axioms, where ord = "\<lambda>x. x" and f = "''c.yml''" and
      yaml_load = "\<lambda>_. Inr (PDict (example_conf [''foo''] False), [])",
      OF refl example_conf_ok set_order_id example_loaded_ok]
  by (auto simp: config_simps example_loaded_def)

end
