(* ===== verification/Probe_Loading.thy ===== *)
theory Probe_Loading
  imports Plugins Config Bpf_Tables
begin

text \<open>
  The construction of probes in \<^verbatim>\<open>pidtree_bcc/probes/__init__.py\<close>: the
  constructor of the base class, what \<open>start_polling\<close> sets up before it polls, and the
  function that builds a probe for every loaded configuration. Rendering templates and compiling
  programs is left to arguments.
\<close>

section \<open>The constructor\<close>

datatype sidecar = Poll_config_changes string | Monitor_running_containers | Subclass_sidecar string

text \<open>What a subclass brings: its class attributes and the methods it overrides.\<close>

record 'a probe_methods =
  class_attrs :: probe_class
  BPF_TEXT :: "string option"
  validate_method :: "pyval pydict \<Rightarrow> unit res"
  build_method :: "pyval pydict \<Rightarrow> ('a probe_base_scheme, pyval pydict \<times> sidecar list) eff"

text \<open>The files and packages a constructor reads, and the template engine.\<close>

record probe_env =
  import_plugin :: "string \<Rightarrow> (pyval pydict \<Rightarrow> pyval pydict res) plugin_class member list res"
  read_template :: "string \<Rightarrow> string res"
  render :: "string \<Rightarrow> pyval pydict \<Rightarrow> string res"
  EXTRA_PLUGIN_PATH :: "string option"

definition path_basename :: "string \<Rightarrow> string" where
  "path_basename p = rev (takeWhile (\<lambda>c. c \<noteq> CHR ''/'') (rev p))"

definition probe_name_of :: "string \<Rightarrow> string" where
  "probe_name_of module_src = hd (split_on (CHR ''.'') (path_basename module_src))"

definition template_path :: "string \<Rightarrow> string" where
  "template_path module_src =
     (if endswith module_src ''.py'' then take (length module_src - 3) module_src @ ''.j2'' else module_src)"

definition py_items :: "pyval \<Rightarrow> pyval pydict res" where
  "py_items v = (case v of PDict d \<Rightarrow> Inr d | _ \<Rightarrow> Inl (AttributeError ''items''))"

definition probe_sidecars :: "bool \<Rightarrow> string option \<Rightarrow> pyval \<Rightarrow> sidecar list" where
  "probe_sidecars uses_dynamic_filters config_change_queue labels =
     (case config_change_queue of Some q \<Rightarrow> if uses_dynamic_filters then [Poll_config_changes q] else [] | None \<Rightarrow> [])
     @ (if truthy labels then [Monitor_running_containers] else [])"

text \<open>
  The attributes of the new object, its sidecars and its program. \<open>blank\<close> is the object
  before any attribute is set.
\<close>

definition init_probe ::
    "probe_env \<Rightarrow> 'a probe_methods \<Rightarrow> string \<Rightarrow> 'a probe_base_scheme \<Rightarrow> pyval pydict \<Rightarrow> int \<Rightarrow> string option \<Rightarrow>
       ('a probe_base_scheme \<times> sidecar list \<times> string) res" where
  "init_probe en cls module_src blank probe_config telemetry config_change_queue =
     bindR (validate_method cls probe_config) (\<lambda>_.
     let name = probe_name_of module_src in
     bindR (bindR (py_items (dict_get probe_config ''plugins'' (PDict [])))
              (load_plugins (import_plugin en) name (EXTRA_PLUGIN_PATH en))) (\<lambda>ps.
     bindR (case BPF_TEXT cls of Some t \<Rightarrow> Inr t | None \<Rightarrow> read_template en (template_path module_src)) (\<lambda>bpf_text.
     case build_method cls probe_config (blank\<lparr>output_queue := [], probe_name := name, plugins := ps\<rparr>) of
       (Inl e, _) \<Rightarrow> Inl e
     | (Inr (template_config, subclass_sidecars), s) \<Rightarrow>
        bindR (render en bpf_text template_config) (\<lambda>expanded_bpf_text.
        let labels = dict_get template_config ''container_labels'' PNone in
        Inr (s\<lparr>lost_event_telemetry := telemetry, lost_event_timer := telemetry, lost_event_count := 0,
               container_labels_filter := labels, container_name_mapping := [], container_idns_mapping := []\<rparr>,
             subclass_sidecars @ probe_sidecars (USES_DYNAMIC_FILTERS (class_attrs cls)) config_change_queue labels,
             expanded_bpf_text)))))"

section \<open>Starting\<close>

definition bpf_cflags :: "platform \<Rightarrow> string list res" where
  "bpf_cflags p =
     bindR (has_buggy_headers p) (\<lambda>buggy.
     bindR (int_of_str (hd (split_on (CHR ''.'') (kernel_release p)))) (\<lambda>kmajor.
     Inr ((if buggy then [''-Wno-macro-redefined''] else []) @
          (if 6 < kmajor then [''-fms-extensions'', ''-Wno-microsoft-anon-tag''] else []))))"

datatype poll_function = Poll_and_check_lost | Perf_buffer_poll

definition select_poll :: "'a probe_base_scheme \<Rightarrow> poll_function \<times> bool" where
  "select_poll s = (if 0 < lost_event_telemetry s then (Poll_and_check_lost, True) else (Perf_buffer_poll, False))"

text \<open>
  Everything before the polling loop: the flags the program is compiled with, the threads
  started, the function to poll with and whether lost events are counted, and the filters loaded
  into the tables of the new program.
\<close>

definition start_polling ::
    "probe_class \<Rightarrow> platform \<Rightarrow> byteorder \<Rightarrow> (cfilter_key list \<Rightarrow> cfilter_key list) \<Rightarrow> (int list \<Rightarrow> int list) \<Rightarrow>
       ('n, cfilter_key, cfilter_value) table_ops \<Rightarrow> ('p, i32, u8) table_ops \<Rightarrow> sidecar list \<Rightarrow>
       'a probe_base_scheme \<Rightarrow> (('n, 'p, 'c) bpf_maps, string list \<times> sidecar list \<times> poll_function \<times> bool) eff" where
  "start_polling cls p bo kord pord TN TP sidecars s =
     bindE (liftR (bpf_cflags p)) (\<lambda>cflags.
     bindE (if USES_DYNAMIC_FILTERS cls then reload_filters bo kord pord TN TP s True else retE ()) (\<lambda>_.
     retE (cflags, sidecars, select_poll s)))"

section \<open>Loading every probe\<close>

definition probe_package :: string where "probe_package = ''pidtree_bcc.probes''"

definition probe_packages :: "string option \<Rightarrow> string \<Rightarrow> string list" where
  "probe_packages extra_probe_path name =
     map (\<lambda>p. p @ ''.'' @ name) (filter (\<lambda>p. p \<noteq> [])
       (probe_package # (case extra_probe_path of None \<Rightarrow> [] | Some p \<Rightarrow> [p])))"

definition load_probes ::
    "(string \<Rightarrow> (pyval pydict \<Rightarrow> int \<Rightarrow> string option \<Rightarrow> 'p res) member list res) \<Rightarrow> string option \<Rightarrow> int \<Rightarrow>
       (string \<times> pyval pydict \<times> string option) list \<Rightarrow> (string \<times> 'p) list res" where
  "load_probes import_module extra_probe_path telemetry configs =
     mapR (\<lambda>(name, config, queue).
       bindR (find_subclass import_module (probe_packages extra_probe_path name)) (\<lambda>new.
       bindR (new config telemetry queue) (\<lambda>p. Inr (name, p))))
       (filter (\<lambda>c. \<not> startswith (fst c) ''_'') configs)"

section \<open>From the configuration to the probes\<close>

text \<open>The class a probe name stands for, built with some settings and a queue.\<close>

definition builds ::
    "(string \<Rightarrow> (pyval pydict \<Rightarrow> int \<Rightarrow> string option \<Rightarrow> 'p res) member list res) \<Rightarrow> string option \<Rightarrow> int \<Rightarrow>
       string \<Rightarrow> pyval pydict \<Rightarrow> string option \<Rightarrow> 'p \<Rightarrow> bool" where
  "builds im extra telemetry name config queue p =
     (\<exists>new. find_subclass im (probe_packages extra name) = Inr new \<and> new config telemetry queue = Inr p)"

lemma load_probes_each:
  assumes "load_probes im extra telemetry configs = Inr probes"
  shows "list_all2 (\<lambda>(name, config, queue) (n, p). n = name \<and> builds im extra telemetry name config queue p)
    (filter (\<lambda>c. \<not> startswith (fst c) ''_'') configs) probes"
  using assms unfolding load_probes_def mapR_Inr_iff
  by (rule list_all2_mono) (auto simp: res_simps builds_def)

lemma load_probes_names:
  assumes "load_probes im extra telemetry configs = Inr probes"
  shows "map fst probes = map fst (filter (\<lambda>c. \<not> startswith (fst c) ''_'') configs)"
  using load_probes_each [OF assms] by (induction rule: list_all2_induct) auto

lemma load_probes_mem:
  assumes "load_probes im extra telemetry configs = Inr probes" and "(k, p) \<in> set probes"
  shows "\<exists>config queue. (k, config, queue) \<in> set configs \<and> builds im extra telemetry k config queue p"
proof -
  from mapR_Inr_mem [OF assms(1) [unfolded load_probes_def] assms(2)]
  obtain config queue where "(k, config, queue) \<in> set configs" "builds im extra telemetry k config queue p"
    by (auto simp: res_simps builds_def)
  then show ?thesis by blast
qed

lemma load_probes_follow:
  assumes "config_store C view" and "dict_config cfg" and "loaded_config C cfg files s"
    and "load_probes im extra telemetry (enumerate_probe_configs C s) = Inr probes"
  shows "distinct (map fst probes) \<and> set (map fst probes) = set (probe_names cfg) \<and>
    (\<forall>(k, p) \<in> set probes. \<exists>q. callback_of C s k = Some (PFun q) \<and>
       builds im extra telemetry k (probe_dict cfg k) (Some q) p)"
proof -
  let ?ns = "get_probe_namespaces C (namespaces s)"
  have names: "map fst (enumerate_probe_configs C s) = ?ns"
    by (simp add: enumerate_probe_configs_def comp_def)
  have set: "set ?ns = set (probe_names cfg)" using assms(3) by (simp add: loaded_config_def)
  have "filter (\<lambda>n. \<not> startswith n ''_'') ?ns = ?ns"
    using set by (intro filter_True) (auto simp: probe_names_def)
  then have fst: "map fst probes = ?ns"
    using load_probes_names [OF assms(4)] names by (metis (no_types, lifting) filter_map comp_apply filter_cong)
  have "distinct ?ns"
    using config_store.names_distinct [OF assms(1)] by (simp add: get_probe_namespaces_def)
  moreover have "\<exists>q. callback_of C s k = Some (PFun q) \<and> builds im extra telemetry k (probe_dict cfg k) (Some q) p"
    if kp: "(k, p) \<in> set probes" for k p
  proof -
    obtain config queue where c: "(k, config, queue) \<in> set (enumerate_probe_configs C s)"
        "builds im extra telemetry k config queue p"
      using load_probes_mem [OF assms(4) kp] by blast
    have "k \<in> set (probe_names cfg)" using c(1) set by (auto simp: enumerate_probe_configs_def)
    then obtain q where q: "callback_of C s k = Some (PFun q)" "get_config_values C k (namespaces s) = probe_dict cfg k"
      using assms(3) by (auto simp: loaded_config_def)
    then have "config = probe_dict cfg k" "queue = Some q"
      using c(1) by (auto simp: enumerate_probe_configs_def dict_get_def callback_of_def)
    with c(2) q(1) show ?thesis by blast
  qed
  ultimately show ?thesis using fst set by auto
qed

text \<open>
  Property C24. The probes that are started are the ones of the loaded configuration, each once:
  every probe is built from the class of its name, with the settings of its entry and with the
  queue its changes are forwarded to.
\<close>

theorem probes_follow_config:
  assumes "config_store C view" and "dict_config cfg" and "loaded_config C cfg files s"
    and "load_probes im extra telemetry (enumerate_probe_configs C s) = Inr probes"
  shows "distinct (map fst probes) \<and> set (map fst probes) = set (probe_names cfg) \<and>
    (\<forall>(k, p) \<in> set probes. \<exists>q. callback_of C s k = Some (PFun q) \<and>
       builds im extra telemetry k (probe_dict cfg k) (Some q) p)"
  using assms by (rule load_probes_follow)

definition example_probe_import ::
    "string \<Rightarrow> (pyval pydict \<Rightarrow> int \<Rightarrow> string option \<Rightarrow> string option res) member list res" where
  "example_probe_import path = (if path = ''pidtree_bcc.probes.tcp_connect''
     then Inr [\<lparr>member_object = (\<lambda>config telemetry queue. Inr queue), member_isclass = True,
                member_issubclass = True, member_is_base = False\<rparr>]
     else Inl ImportError)"

theorem probes_follow_config_witness:
  "load_probes example_probe_import None 0 (enumerate_probe_configs dict_store example_loaded)
     = Inr [(''tcp_connect'', Some ''0'')] \<and>
   callback_of dict_store example_loaded ''tcp_connect'' = Some (PFun ''0'')"
proof -
  have l: "load_probes example_probe_import None 0 (enumerate_probe_configs dict_store example_loaded)
     = Inr [(''tcp_connect'', Some ''0'')]"
    by (simp add: load_probes_def enumerate_probe_configs_def example_loaded_def get_probe_namespaces_def
        dict_store_def NON_PROBE_NAMESPACES_def DEFAULT_NAMESPACE_def HOTSWAP_CALLBACK_NAMESPACE_def
        LOADED_CONFIG_FILES_NAMESPACE_def dict_get_def startswith_def find_subclass_def probe_packages_def
        probe_package_def example_probe_import_def)
  with probes_follow_config [OF ds.config_store_axioms example_conf_ok example_loaded_ok l]
  show ?thesis
    by (auto simp: builds_def find_subclass_def probe_packages_def probe_package_def example_probe_import_def)
qed

end
