(* ===== verification/Tcp_Connect.thy ===== *)
theory Tcp_Connect
  imports Probes Proc_Utils
begin

text \<open>
  \<^verbatim>\<open>pidtree_bcc/probes/tcp_connect.py\<close>: the probe that reports outgoing TCP connections.
  It keeps no state of its own, so its instances are the base record.
\<close>

record tcp_event =
  tcp_pid :: u32
  tcp_daddr :: u32
  tcp_saddr :: u32
  tcp_dport :: u16
  tcp_mntns_id :: "int option"

definition TCPConnectProbe :: probe_class where
  "TCPConnectProbe = \<lparr>CONFIG_DEFAULTS = Some
     [(''ip_to_int'', PFun ''ip_to_int''), (''filters'', PList []), (''container_labels'', PList []),
      (''includeports'', PList []), (''excludeports'', PList [])],
     TEMPLATE_VARS = None, USES_DYNAMIC_FILTERS = True\<rparr>"

definition tcp_enrich_event ::
    "(int \<Rightarrow> proc_entry list res) \<Rightarrow> (exn \<Rightarrow> string) \<Rightarrow> tcp_event \<Rightarrow>
       ('a probe_base_scheme, pyval pydict option) eff" where
  "tcp_enrich_event crawl format_exc event s =
     (bindR (guarded_crawl crawl format_exc (uint (tcp_pid event))) (\<lambda>(err, proctree).
      bindR (int_to_ip (uint (tcp_daddr event))) (\<lambda>daddr.
      bindR (int_to_ip (uint (tcp_saddr event))) (\<lambda>saddr.
      bindR (enrich_container_name s (tcp_mntns_id event)
        [(''pid'', PInt (uint (tcp_pid event))), (''proctree'', PList (map proc_dict proctree)),
         (''daddr'', PStr daddr), (''saddr'', PStr saddr), (''port'', PInt (uint (tcp_dport event))),
         (''error'', PStr err)]) (\<lambda>d. Inr (Some d))))), s)"

section \<open>What is reported\<close>

lemma tcp_enrich_state: "tcp_enrich_event crawl format_exc e s = (r, s') \<Longrightarrow> s' = s"
  by (simp add: tcp_enrich_event_def)

lemma tcp_enrich_plain:
  assumes "tcp_enrich_event crawl format_exc e s = (Inr (Some d), s')"
  shows "d \<noteq> [] \<and> plain_items d"
proof -
  from assms obtain d0 where "enrich_container_name s (tcp_mntns_id e) d0 = Inr d" "d0 \<noteq> []" "plain_items d0"
    by (fastforce simp: tcp_enrich_event_def res_simps plain_list_iff proc_dict_def split: prod.splits)
  then show ?thesis using plain_update_name by blast
qed

interpretation tcp: event_enricher "tcp_enrich_event crawl format_exc" "\<lambda>_. True"
  by unfold_locales (auto dest: tcp_enrich_state tcp_enrich_plain)

text \<open>The dictionary of an event, before the container name.\<close>

definition tcp_fields :: "tcp_event \<Rightarrow> string \<Rightarrow> proc_entry list \<Rightarrow> pyval pydict" where
  "tcp_fields e err proctree =
     [(''pid'', PInt (uint (tcp_pid e))), (''proctree'', PList (map proc_dict proctree)),
      (''daddr'', PStr (inet_ntoa (le_bytes (uint (tcp_daddr e))))),
      (''saddr'', PStr (inet_ntoa (le_bytes (uint (tcp_saddr e))))),
      (''port'', PInt (uint (tcp_dport e))), (''error'', PStr err)]"

lemma tcp_enrich_ok:
  assumes "catchable crawl" and "truthy (container_labels_filter s) \<longrightarrow> tcp_mntns_id e \<noteq> None"
  shows "\<exists>d. tcp_enrich_event crawl format_exc e s = (Inr (Some d), s) \<and>
    (\<forall>k. k \<noteq> ''container_name'' \<longrightarrow> map_of d k = map_of (tcp_fields e
       (case crawl (uint (tcp_pid e)) of Inl x \<Rightarrow> format_exc x | Inr _ \<Rightarrow> [])
       (case crawl (uint (tcp_pid e)) of Inl _ \<Rightarrow> [] | Inr t \<Rightarrow> t)) k)"
  using assms
  by (cases "crawl (uint (tcp_pid e))")
     (auto simp: tcp_enrich_event_def guarded_crawl_def catchable_def int_to_ip_u32 tcp_fields_def
       enrich_container_name_def update_conv')

lemma tcp_event_line:
  assumes "catchable crawl" and "truthy (container_labels_filter s) \<longrightarrow> tcp_mntns_id e \<noteq> None"
    and "plugins_total s" and "\<And>q. printable (fr q)"
  shows "\<exists>d line. tcp_enrich_event crawl format_exc e s = (Inr (Some d), s) \<and>
    process_events (tcp_enrich_event crawl format_exc) fr utcnow e s =
      (Inr (), s\<lparr>output_queue := output_queue s @ [line]\<rparr>) \<and>
    output_line fr s utcnow d = Inr line \<and> printable line \<and>
    (\<exists>daddr saddr. map_of d ''daddr'' = Some (PStr daddr) \<and> ip_to_int LittleEndian daddr = Inr (uint (tcp_daddr e)) \<and>
       map_of d ''saddr'' = Some (PStr saddr) \<and> ip_to_int LittleEndian saddr = Inr (uint (tcp_saddr e)))"
proof -
  from tcp_enrich_ok [OF assms(1,2), of format_exc] obtain d where
    d: "tcp_enrich_event crawl format_exc e s = (Inr (Some d), s)" and
    m: "map_of d ''daddr'' = Some (PStr (inet_ntoa (le_bytes (uint (tcp_daddr e)))))"
       "map_of d ''saddr'' = Some (PStr (inet_ntoa (le_bytes (uint (tcp_saddr e)))))"
    by (auto simp: tcp_fields_def)
  from tcp.process_events_reports [OF _ assms(3) d, of fr utcnow] obtain line where
    "output_line fr s utcnow d = Inr line"
    "process_events (tcp_enrich_event crawl format_exc) fr utcnow e s =
      (Inr (), s\<lparr>output_queue := output_queue s @ [line]\<rparr>)" by auto
  moreover from this(1) have "printable line" by (rule output_line_printable [OF assms(4)])
  ultimately show ?thesis using d m int_to_ip_u32(2) by blast
qed

text \<open>
  Every connection event of the kernel is output as exactly one line of printable
  characters, when its plugins do not raise, whatever happens to the process meanwhile: a process tree that cannot be walked makes
  the line carry the traceback. The addresses of the line read back as those of the event.
\<close>

theorem tcp_event_reported:
  assumes "catchable crawl" and "truthy (container_labels_filter s) \<longrightarrow> tcp_mntns_id e \<noteq> None"
    and "plugins_total s" and "\<And>q. printable (fr q)"
  shows "\<exists>d line. tcp_enrich_event crawl format_exc e s = (Inr (Some d), s) \<and>
    process_events (tcp_enrich_event crawl format_exc) fr utcnow e s =
      (Inr (), s\<lparr>output_queue := output_queue s @ [line]\<rparr>) \<and>
    output_line fr s utcnow d = Inr line \<and> printable line \<and>
    (\<exists>daddr saddr. map_of d ''daddr'' = Some (PStr daddr) \<and> ip_to_int LittleEndian daddr = Inr (uint (tcp_daddr e)) \<and>
       map_of d ''saddr'' = Some (PStr saddr) \<and> ip_to_int LittleEndian saddr = Inr (uint (tcp_saddr e)))"
  using assms by (rule tcp_event_line)

theorem tcp_event_reported_witness:
  "\<exists>line. process_events (tcp_enrich_event (\<lambda>_. Inl OSError) (\<lambda>_. ''Traceback'')) (\<lambda>_. ''0.5'') ''now''
       \<lparr>tcp_pid = 5, tcp_daddr = 16777343, tcp_saddr = 1, tcp_dport = 80, tcp_mntns_id = None\<rparr> example_probe
     = (Inr (), example_probe\<lparr>output_queue := [line]\<rparr>) \<and> printable line"
proof -
  have p: "catchable (\<lambda>_. Inl OSError)" "plugins example_probe = []" "output_queue example_probe = []"
    "\<not> truthy (container_labels_filter example_probe)"
    by (simp_all add: catchable_def is_Exception_def example_probe_def truthy_def)
  have "printable ''0.5''" by simp
  with p plugins_total_none [OF p(2)] show ?thesis
    using tcp_event_reported [of "\<lambda>_. Inl OSError" example_probe
        "\<lparr>tcp_pid = 5, tcp_daddr = 16777343, tcp_saddr = 1, tcp_dport = 80, tcp_mntns_id = None\<rparr>"
        "\<lambda>_. ''0.5''" "\<lambda>_. ''Traceback''" "''now''"] by fastforce
qed

end
