(* ===== verification/Net_Listen.thy ===== *)
theory Net_Listen
  imports Probes Proc_Utils Kernel_Filter
begin

text \<open>
  \<^verbatim>\<open>pidtree_bcc/probes/net_listen.py\<close>: the probe that reports listening sockets, from
  the kernel's events and from periodic snapshots of the sockets of the host. The snapshot applies
  the filters in user space (\<open>NetFilter\<close>, a port filter and the network namespace), so
  this theory also relates the port filter to what the kernel half does with the same settings.
\<close>

section \<open>State and configuration\<close>

definition IPPROTO_TCP :: int where "IPPROTO_TCP = 6"
definition IPPROTO_UDP :: int where "IPPROTO_UDP = 17"

text \<open>The port filter, a closure over one of the two port sets.\<close>

datatype port_filter = PortIn "int list" | PortNotIn "int list"

fun port_filter_accepts :: "port_filter \<Rightarrow> int \<Rightarrow> bool" where
  "port_filter_accepts (PortIn ps) port = (port \<in> set ps)"
| "port_filter_accepts (PortNotIn ps) port = (port \<notin> set ps)"

record net_listen_probe = probe_base +
  net_namespace :: "int option"
  filtering :: "ip_port_filter list"
  port_filter :: port_filter
  log_tcp :: bool
  log_udp :: bool

definition NetListenProbe :: probe_class where
  "NetListenProbe = \<lparr>CONFIG_DEFAULTS = Some
     [(''ip_to_int'', PFun ''ip_to_int''), (''protocols'', PList [PStr ''tcp'']), (''filters'', PList []),
      (''container_labels'', PList []), (''excludeports'', PList []), (''includeports'', PList []),
      (''snapshot_periodicity'', PBool False), (''same_namespace_only'', PBool False),
      (''exclude_random_bind'', PBool False)],
     TEMPLATE_VARS = None, USES_DYNAMIC_FILTERS = True\<rparr>"

definition SUPPORTED_PROTOCOLS :: "string list" where
  "SUPPORTED_PROTOCOLS = [''udp'', ''tcp'']"

definition validate_config :: "pyval pydict \<Rightarrow> unit res" where
  "validate_config config =
     bindR (py_iter (dict_get config ''protocols'' (PList []))) (\<lambda>protos.
     bindR (mapR (\<lambda>proto. if proto \<notin> PStr ` set SUPPORTED_PROTOCOLS
                           then Inl (RuntimeError ''unsupported protocol'') else Inr ()) protos)
       (\<lambda>_. Inr ()))"

text \<open>
  \<open>str(v)\<close> of a port, then the port or the range: the text of a value that is neither an
  integer nor a string never parses, with or without a dash in it.
\<close>

definition port_str :: "pyval \<Rightarrow> string res" where
  "port_str v = (case v of PInt p \<Rightarrow> Inr (show_int p) | PStr s \<Rightarrow> Inr s | _ \<Rightarrow> Inl ValueError)"

definition exclude_ports_of :: "string \<Rightarrow> int list res" where
  "exclude_ports_of p = (if CHR ''-'' \<in> set p then port_range_mapper p
     else bindR (int_of_str p) (\<lambda>n. Inr [n]))"

definition build_port_filter :: "pyval pydict \<Rightarrow> port_filter res" where
  "build_port_filter config =
     bindR (dict_index config ''includeports'') (\<lambda>inc.
     if truthy inc
     then bindR (py_iter inc) (\<lambda>vs. bindR (mapR py_int vs) (\<lambda>ps. Inr (PortIn ps)))
     else bindR (dict_index config ''excludeports'') (\<lambda>ex. bindR (py_iter ex) (\<lambda>vs.
       bindR (mapR (\<lambda>v. bindR (port_str v) exclude_ports_of) vs) (\<lambda>pss. Inr (PortNotIn (concat pss))))))"

text \<open>\<open>x in v\<close> for a string: an element of a list, a part of a string, a key.\<close>

definition py_in :: "string \<Rightarrow> pyval \<Rightarrow> bool res" where
  "py_in x v = (case v of
       PList vs \<Rightarrow> Inr (PStr x \<in> set vs)
     | PStr s \<Rightarrow> Inr (\<exists>i \<le> length s. startswith (drop i s) x)
     | PDict d \<Rightarrow> Inr (x \<in> fst ` set d)
     | _ \<Rightarrow> Inl TypeError)"

text \<open>\<open>v and v > 0\<close>: whether snapshots are taken.\<close>

definition positive :: "pyval \<Rightarrow> bool res" where
  "positive v = (if \<not> truthy v then Inr False else (case v of
       PInt i \<Rightarrow> Inr (0 < i) | PBool b \<Rightarrow> Inr b | PFloat q \<Rightarrow> Inr (0 < q) | _ \<Rightarrow> Inl TypeError))"

definition set_user_filters ::
    "byteorder \<Rightarrow> (string \<Rightarrow> string res) \<Rightarrow> pyval pydict \<Rightarrow> (net_listen_probe, pyval pydict) eff" where
  "set_user_filters bo readlink config =
     bindE (liftR (dict_index config ''same_namespace_only'')) (\<lambda>same.
     let ns = (if truthy same then get_network_namespace readlink None else None);
         config = AList.update ''net_namespace'' (case ns of None \<Rightarrow> PNone | Some n \<Rightarrow> PInt n) config
     in bindE (\<lambda>s. (Inr (), s\<lparr>net_namespace := ns\<rparr>)) (\<lambda>_.
        bindE (liftR (bindR (dict_index config ''filters'') (NetFilter bo))) (\<lambda>nf.
        bindE (\<lambda>s. (Inr (), s\<lparr>filtering := nf\<rparr>)) (\<lambda>_.
        bindE (liftR (build_port_filter config)) (\<lambda>pf.
        bindE (\<lambda>s. (Inr (), s\<lparr>port_filter := pf\<rparr>)) (\<lambda>_. retE config))))))"

definition nl_build_probe_config ::
    "platform \<Rightarrow> byteorder \<Rightarrow> (string \<Rightarrow> string res) \<Rightarrow> pyval pydict \<Rightarrow> bool \<Rightarrow>
       (net_listen_probe, pyval pydict \<times> pyval option) eff" where
  "nl_build_probe_config p bo readlink probe_config hotswap_only =
     bindE (build_probe_config NetListenProbe p probe_config False) (\<lambda>config.
     bindE (set_user_filters bo readlink config) (\<lambda>config.
     if hotswap_only then retE (config, None)
     else bindE (liftR (dict_index config ''protocols'')) (\<lambda>protocols.
       bindE (liftR (py_in ''tcp'' protocols)) (\<lambda>tcp.
       bindE (liftR (py_in ''udp'' protocols)) (\<lambda>udp.
       bindE (\<lambda>s. (Inr (), s\<lparr>log_tcp := tcp, log_udp := udp\<rparr>)) (\<lambda>_.
       bindE (liftR (dict_index config ''snapshot_periodicity'')) (\<lambda>period.
       bindE (liftR (positive period)) (\<lambda>pos.
       retE (config, if pos then Some period else None)))))))))"

section \<open>Events and snapshots\<close>

text \<open>An event of the kernel, or the wrapper of a snapshot, which has no mount namespace.\<close>

record listen_event =
  listen_pid :: int
  listen_laddr :: int
  listen_port :: int
  listen_protocol :: int
  listen_mntns_id :: "int option"

definition NetListenWrapper :: "int \<Rightarrow> int \<Rightarrow> int \<Rightarrow> int \<Rightarrow> listen_event" where
  "NetListenWrapper pid laddr port protocol =
     \<lparr>listen_pid = pid, listen_laddr = laddr, listen_port = port, listen_protocol = protocol,
      listen_mntns_id = None\<rparr>"

definition nl_enrich_event ::
    "(int \<Rightarrow> proc_entry list res) \<Rightarrow> (exn \<Rightarrow> string) \<Rightarrow> (int \<Rightarrow> string option) \<Rightarrow> listen_event \<Rightarrow>
       ('a probe_base_scheme, pyval pydict option) eff" where
  "nl_enrich_event crawl format_exc PROTO_MAP event s =
     (bindR (guarded_crawl crawl format_exc (listen_pid event)) (\<lambda>(err, proctree).
      bindR (int_to_ip (listen_laddr event)) (\<lambda>laddr.
      bindR (enrich_container_name s (listen_mntns_id event)
        [(''pid'', PInt (listen_pid event)), (''port'', PInt (listen_port event)),
         (''proctree'', PList (map proc_dict proctree)), (''laddr'', PStr laddr),
         (''protocol'', PStr (case PROTO_MAP (listen_protocol event) of None \<Rightarrow> ''unknown'' | Some n \<Rightarrow> n)),
         (''error'', PStr err)]) (\<lambda>d. Inr (Some d)))), s)"

definition filter_net_namespace :: "(string \<Rightarrow> string res) \<Rightarrow> net_listen_probe \<Rightarrow> int \<Rightarrow> bool" where
  "filter_net_namespace readlink s pid = (case net_namespace s of
       None \<Rightarrow> False
     | Some own \<Rightarrow> if own = 0 then False
         else (case get_network_namespace readlink (Some pid) of
                 None \<Rightarrow> False | Some ns \<Rightarrow> ns \<noteq> 0 \<and> ns \<noteq> own))"

text \<open>A socket of the host as \<open>psutil.net_connections\<close> lists it.\<close>

record conn =
  conn_pid :: "int option"
  conn_status :: string
  conn_dgram :: bool
  conn_laddr :: "(string \<times> int) option"

definition conn_protocol :: "net_listen_probe \<Rightarrow> conn \<Rightarrow> int option" where
  "conn_protocol s c =
     (if log_tcp s \<and> conn_status c = ''LISTEN'' then Some IPPROTO_TCP
      else if log_udp s \<and> conn_status c = ''NONE'' \<and> conn_dgram c then Some IPPROTO_UDP
      else None)"

text \<open>The event a socket gives, if any, or the error that stops the snapshot.\<close>

definition conn_event ::
    "byteorder \<Rightarrow> (string \<Rightarrow> string res) \<Rightarrow> net_listen_probe \<Rightarrow> conn \<Rightarrow> listen_event option res" where
  "conn_event bo readlink s c = (case conn_pid c of
       None \<Rightarrow> Inr None
     | Some pid \<Rightarrow> if pid = 0 then Inr None
         else (case conn_laddr c of
             None \<Rightarrow> Inl (AttributeError ''ip'')
           | Some (ip, port) \<Rightarrow> bindR (ip_to_int bo ip) (\<lambda>ip_addr.
               Inr (case conn_protocol s c of
                   None \<Rightarrow> None
                 | Some protocol \<Rightarrow>
                     if \<not> is_filtered_int (filtering s) ip_addr port \<and>
                        port_filter_accepts (port_filter s) port \<and> \<not> filter_net_namespace readlink s pid
                     then Some (NetListenWrapper pid ip_addr port protocol) else None))))"

definition snapshot_conn ::
    "byteorder \<Rightarrow> (string \<Rightarrow> string res) \<Rightarrow> (int \<Rightarrow> proc_entry list res) \<Rightarrow> (exn \<Rightarrow> string) \<Rightarrow>
       (int \<Rightarrow> string option) \<Rightarrow> (rat \<Rightarrow> string) \<Rightarrow> string \<Rightarrow> conn \<Rightarrow> (net_listen_probe, unit) eff" where
  "snapshot_conn bo readlink crawl format_exc PROTO_MAP fr utcnow c s =
     bindE (liftR (conn_event bo readlink s c)) (\<lambda>ev. case ev of
       None \<Rightarrow> retE ()
     | Some e \<Rightarrow> process_events (nl_enrich_event crawl format_exc PROTO_MAP) fr utcnow e) s"

definition snapshot_round ::
    "byteorder \<Rightarrow> (string \<Rightarrow> string res) \<Rightarrow> (int \<Rightarrow> proc_entry list res) \<Rightarrow> (exn \<Rightarrow> string) \<Rightarrow>
       (int \<Rightarrow> string option) \<Rightarrow> (rat \<Rightarrow> string) \<Rightarrow> string \<Rightarrow> conn list \<Rightarrow> (net_listen_probe, unit) eff" where
  "snapshot_round bo readlink crawl format_exc PROTO_MAP fr utcnow socket_stats =
     forE socket_stats (snapshot_conn bo readlink crawl format_exc PROTO_MAP fr utcnow)"

section \<open>The port filters of the two halves\<close>

lemma exclude_ports_agree:
  assumes "bindR (port_str v) exclude_ports_of = Inr ps" and "port_elements v = Inr qs"
  shows "ps = qs"
proof (cases v)
  case (PInt p)
  show ?thesis
  proof (cases "p < 0")
    case True
    then obtain n where "show_int p = CHR ''-'' # show_nat n" by (auto simp: show_int_def)
    then have "two_ints (show_int p) = Inl ValueError"
      by (simp add: two_ints_def int_of_str_def py_strip_def)
    with True PInt assms(1) show ?thesis
      by (auto simp: port_str_def exclude_ports_of_def port_range_mapper_def show_int_def)
  next
    case False
    then have "CHR ''-'' \<notin> set (show_int p)"
      using show_nat_digits [of "nat p"] by (auto simp: show_int_def is_digit_def)
    with False PInt assms show ?thesis
      by (simp add: port_str_def exclude_ports_of_def port_elements_def is_range_str_def py_int_def
          int_of_str_show show_int_def)
  qed
next
  case (PStr s)
  with assms show ?thesis
    by (auto simp: port_str_def exclude_ports_of_def port_elements_def is_range_str_def as_str_def
        py_int_def split: if_splits)
qed (use assms(1) in \<open>simp_all add: port_str_def\<close>)

text \<open>A string that is a number with a dash in it has the dash as its sign.\<close>

lemma digits_sep_chars: "digits_sep b = Some ds \<Longrightarrow> c \<in> set b \<Longrightarrow> is_digit c \<or> c = CHR ''_''"
  by (induction b arbitrary: ds rule: digits_sep.induct) (auto split: if_splits)

lemma int_of_str_dash:
  assumes "int_of_str s = Inr p" and "CHR ''-'' \<in> set s"
  shows "\<exists>ws rest. s = ws @ CHR ''-'' # rest \<and> (\<forall>c \<in> set ws. py_space c)"
proof -
  define t where "t = dropWhile py_space s"
  have sp: "\<not> py_space (CHR ''-'')" "\<not> is_digit (CHR ''-'')" by (simp_all add: py_space_def is_digit_def)
  have s: "s = takeWhile py_space s @ t" by (simp add: t_def)
  then have "CHR ''-'' \<in> set t" using assms(2) sp(1) by (metis Un_iff set_append set_takeWhileD)
  then have in_strip: "CHR ''-'' \<in> set (py_strip s)"
    using sp(1) dropWhile_mem [of "CHR ''-''" "rev t" py_space] by (simp add: py_strip_def t_def)
  have pre: "\<exists>suf. t = py_strip s @ suf"
    unfolding py_strip_def t_def [symmetric]
    by (metis rev_append rev_rev_ident takeWhile_dropWhile_id)
  obtain c cs where cs: "py_strip s = c # cs" using in_strip by (cases "py_strip s") auto
  have "c = CHR ''-''"
  proof (rule ccontr)
    assume "c \<noteq> CHR ''-''"
    with assms(1) cs obtain ds where "digits_sep (if c = CHR ''+'' then cs else c # cs) = Some ds"
      by (auto simp: int_of_str_def split: option.splits if_splits)
    moreover have "CHR ''-'' \<in> set (if c = CHR ''+'' then cs else c # cs)"
      using in_strip cs \<open>c \<noteq> CHR ''-''\<close> by auto
    ultimately show False using digits_sep_chars sp(2) by fastforce
  qed
  with pre cs obtain rest where "t = CHR ''-'' # rest" by auto
  with s show ?thesis by (metis set_takeWhileD)
qed

lemma two_ints_signed:
  assumes "int_of_str s = Inr p" and "CHR ''-'' \<in> set s"
  shows "two_ints s = Inl ValueError"
proof -
  obtain ws rest where s: "s = ws @ CHR ''-'' # rest" "\<forall>c \<in> set ws. py_space c"
    using int_of_str_dash [OF assms] by blast
  then have "CHR ''-'' \<notin> set ws" by (auto simp: py_space_def)
  moreover have "int_of_str ws = Inl ValueError"
    using s(2) by (simp add: int_of_str_def py_strip_def dropWhile_eq_Nil_conv [THEN iffD2])
  ultimately show ?thesis by (simp add: two_ints_def s(1) split_on_word)
qed

lemma include_port_agree:
  assumes "py_int v = Inr p" and "port_elements v = Inr qs"
  shows "qs = [p]"
proof (cases "is_range_str v")
  case False
  with assms show ?thesis by (simp add: port_elements_def)
next
  case True
  then obtain s where s: "v = PStr s" "CHR ''-'' \<in> set s" by (cases v) (auto simp: is_range_str_def)
  with assms two_ints_signed [of s p] show ?thesis
    by (simp add: py_int_def port_elements_def is_range_str_def as_str_def port_range_mapper_def)
qed

lemma mapR_agree:
  "(\<And>x y z. f x = Inr y \<Longrightarrow> g x = Inr z \<Longrightarrow> h y = z) \<Longrightarrow> mapR f xs = Inr ys \<Longrightarrow> mapR g xs = Inr zs \<Longrightarrow>
     map h ys = zs"
  by (induction xs arbitrary: ys zs) (auto simp: res_simps)

lemma port_filter_agrees:
  assumes "build_port_filter config = Inr pf" and "global_filters_of config = (v, md)"
    and "py_iter v = Inr vs" and "portset_of vs = Inr ports"
  shows "port_filter_accepts pf port = (if md = mode_exclude then port \<notin> set ports else port \<in> set ports)"
proof -
  obtain pss where pss: "mapR port_elements vs = Inr pss" "set ports = set (concat pss)"
    using assms(4) by (auto simp: portset_of_def res_simps)
  obtain inc where inc: "map_of config ''includeports'' = Some inc"
    using assms(1) by (auto simp: build_port_filter_def res_simps dict_index_def split: option.splits)
  show ?thesis
  proof (cases "truthy inc")
    case True
    with assms(1-3) inc obtain ps where ps: "mapR py_int vs = Inr ps" "pf = PortIn ps" and md: "md = mode_include"
      by (auto simp: build_port_filter_def global_filters_of_def res_simps dict_index_def)
    have "map (\<lambda>p. [p]) ps = pss"
      by (rule mapR_agree [OF _ ps(1) pss(1)]) (rule include_port_agree [symmetric])
    then have "concat pss = ps" by auto
    with ps md pss(2) show ?thesis by simp
  next
    case False
    with assms(1) inc obtain ex vs' qss where ex: "map_of config ''excludeports'' = Some ex" "py_iter ex = Inr vs'"
        and q: "mapR (\<lambda>v. bindR (port_str v) exclude_ports_of) vs' = Inr qss" "pf = PortNotIn (concat qss)"
      by (auto simp: build_port_filter_def res_simps dict_index_def split: option.splits)
    from assms(2,3) inc False ex have v: "vs' = vs" "md = mode_exclude"
      by (auto simp: global_filters_of_def dict_get_def)
    have "map (\<lambda>x. x) qss = pss"
      by (rule mapR_agree [OF _ q(1) [unfolded v(1)] pss(1)]) (rule exclude_ports_agree)
    with q v pss(2) show ?thesis by simp
  qed
qed

text \<open>
  Property C27. The port filter of the snapshots and the global port filter of the kernel agree: when
  a configuration is accepted by both, the kernel, after loading it into the port array, drops
  exactly the ports above 0 that the snapshot leaves out.
\<close>

theorem snapshot_ports_agree_with_kernel:
  assumes "build_port_filter config = Inr pf" and "global_filters_of config = (v, md)"
    and "py_iter v = Inr vs" and "portset_of vs = Inr ports" and "\<forall>p \<in> set ports. 0 \<le> p \<and> p \<le> 65535"
    and "port_table T I fits" and "I m" and "set_order ord" and "fits (dom (tbl_get T m))"
    and "\<forall>p. 0 \<le> p \<and> p \<le> 65535 \<longrightarrow> c_int p \<in> dom (tbl_get T m)"
  shows "\<exists>m'. load_port_filters_into_map ord T vs md True m = (Inr (), m') \<and>
    (\<forall>port. 0 < port \<longrightarrow> is_port_globally_filtered (tbl_get T m') port = (\<not> port_filter_accepts pf (uint port)))"
proof -
  have md: "md \<noteq> mode_all"
    using assms(2) by (auto simp: global_filters_of_def split: option.splits if_splits)
  from global_port_answer [OF assms(6-8) md assms(4,5,9,10)] obtain m' where
    m': "load_port_filters_into_map ord T vs md True m = (Inr (), m')"
      "\<forall>port. 0 < port \<longrightarrow> is_port_globally_filtered (tbl_get T m') port =
        (if md = mode_exclude then uint port \<in> set ports else uint port \<notin> set ports)" by blast
  then show ?thesis using port_filter_agrees [OF assms(1-4)] by auto
qed

theorem snapshot_ports_agree_with_kernel_witness:
  "\<exists>pf m'. build_port_filter [(''includeports'', PList []), (''excludeports'', PList [PStr ''22-23'', PStr ''80''])] = Inr pf \<and>
     load_port_filters_into_map (\<lambda>xs. xs) array_table [PStr ''22-23'', PStr ''80''] mode_exclude True
       (replicate 65536 0) = (Inr (), m') \<and>
     is_port_globally_filtered (tbl_get array_table m') 23 = (\<not> port_filter_accepts pf 23)"
proof -
  let ?c = "[(''includeports'', PList []), (''excludeports'', PList [PStr ''22-23'', PStr ''80''])]"
  define m :: "u8 list" where "m = replicate 65536 0"
  have len: "length m = 65536" unfolding m_def by (rule length_replicate)
  have pf: "build_port_filter ?c = Inr (PortNotIn [22, 23, 80])"
    by (simp add: build_port_filter_def dict_index_def truthy_def py_iter_def port_str_def exclude_ports_of_def
        port_range_mapper_def two_ints_def int_of_str_def py_strip_def py_space_def octet_simps py_range_def
        upto_rec1)
  have g: "global_filters_of ?c = (PList [PStr ''22-23'', PStr ''80''], mode_exclude)"
    by (simp add: global_filters_of_def truthy_def dict_get_def)
  have it: "py_iter (PList [PStr ''22-23'', PStr ''80'']) = Inr [PStr ''22-23'', PStr ''80'']"
    by (simp add: py_iter_def)
  have ps: "portset_of [PStr ''22-23'', PStr ''80''] = Inr [22, 23, 80]"
    by (simp add: portset_of_def port_elements_def port_range_mapper_def conf_simps octet_simps
        py_int_def py_range_def upto_rec1)
  have dom: "\<forall>p. 0 \<le> p \<and> p \<le> 65535 \<longrightarrow> c_int p \<in> dom (tbl_get array_table m)"
    using unat_c_int by (simp add: array_table_def dom_def len)
  have "array_inv 65536 m" by (simp add: array_inv_def len)
  moreover have "array_fits 65536 (dom (tbl_get array_table m))"
    by (auto simp: array_fits_def array_table_def dom_def len split: if_splits)
  ultimately obtain m' where "load_port_filters_into_map (\<lambda>xs. xs) array_table
      [PStr ''22-23'', PStr ''80''] mode_exclude True m = (Inr (), m')"
    "\<forall>port. 0 < port \<longrightarrow> is_port_globally_filtered (tbl_get array_table m') port =
       (\<not> port_filter_accepts (PortNotIn [22, 23, 80]) (uint port))"
    using snapshot_ports_agree_with_kernel [OF pf g it ps _ port_filter_map.port_table_axioms _ set_order_id _ dom]
    by force
  then show ?thesis using pf unfolding m_def [symmetric] by (intro exI [of _ "PortNotIn [22, 23, 80]"] exI [of _ m']) simp
qed

section \<open>What a snapshot reports\<close>

lemma nl_enrich_state: "nl_enrich_event crawl format_exc pm e s = (r, s') \<Longrightarrow> s' = s"
  by (simp add: nl_enrich_event_def)

lemma nl_enrich_plain:
  assumes "nl_enrich_event crawl format_exc pm e s = (Inr (Some d), s')"
  shows "d \<noteq> [] \<and> plain_items d"
proof -
  from assms obtain d0 where "enrich_container_name s (listen_mntns_id e) d0 = Inr d" "d0 \<noteq> []" "plain_items d0"
    by (fastforce simp: nl_enrich_event_def res_simps plain_list_iff proc_dict_def split: prod.splits)
  then show ?thesis using plain_update_name by blast
qed

interpretation listen: event_enricher "nl_enrich_event crawl format_exc pm" "\<lambda>_. True"
  by unfold_locales (auto dest: nl_enrich_state nl_enrich_plain)

text \<open>
  The sockets a snapshot should report, apart from the code that selects them, the protocol of such
  a socket, and a socket whose address can be read.
\<close>

definition snapshot_selects :: "byteorder \<Rightarrow> (string \<Rightarrow> string res) \<Rightarrow> net_listen_probe \<Rightarrow> conn \<Rightarrow> bool" where
  "snapshot_selects bo readlink s c = (\<exists>pid ip port n.
     conn_pid c = Some pid \<and> pid \<noteq> 0 \<and> conn_laddr c = Some (ip, port) \<and> ip_to_int bo ip = Inr n \<and>
     (log_tcp s \<and> conn_status c = ''LISTEN'' \<or> log_udp s \<and> conn_status c = ''NONE'' \<and> conn_dgram c) \<and>
     \<not> (\<exists>f \<in> set (filtering s). ip_port_match f n port) \<and>
     (\<forall>ps. port_filter s = PortIn ps \<longrightarrow> port \<in> set ps) \<and> (\<forall>ps. port_filter s = PortNotIn ps \<longrightarrow> port \<notin> set ps) \<and>
     (\<forall>own ns. net_namespace s = Some own \<and> own \<noteq> 0 \<and> get_network_namespace readlink (Some pid) = Some ns \<and> ns \<noteq> 0 \<longrightarrow>
        ns = own))"

definition readable_socket :: "byteorder \<Rightarrow> conn \<Rightarrow> bool" where
  "readable_socket bo c = (conn_pid c = None \<or> conn_pid c = Some 0 \<or>
     (\<exists>ip port n. conn_laddr c = Some (ip, port) \<and> ip_to_int bo ip = Inr n))"

definition socket_line ::
    "byteorder \<Rightarrow> (int \<Rightarrow> string option) \<Rightarrow> (rat \<Rightarrow> string) \<Rightarrow> string \<Rightarrow> net_listen_probe \<Rightarrow> conn \<Rightarrow> string \<Rightarrow> bool" where
  "socket_line bo PROTO_MAP fr utcnow s c line = (\<exists>d pid ip port laddr.
     output_line fr s utcnow d = Inr line \<and>
     conn_pid c = Some pid \<and> map_of d ''pid'' = Some (PInt pid) \<and>
     conn_laddr c = Some (ip, port) \<and> map_of d ''port'' = Some (PInt port) \<and>
     map_of d ''laddr'' = Some (PStr laddr) \<and> ip_to_int LittleEndian laddr = ip_to_int bo ip \<and>
     map_of d ''protocol'' = Some (PStr (case PROTO_MAP (if conn_status c = ''LISTEN'' then 6 else 17) of
       None \<Rightarrow> ''unknown'' | Some name \<Rightarrow> name)))"

lemma queue_independent [simp]:
  "snapshot_selects bo readlink (s\<lparr>output_queue := q\<rparr>) = snapshot_selects bo readlink s"
  "socket_line bo pm fr utcnow (s\<lparr>output_queue := q\<rparr>) = socket_line bo pm fr utcnow s"
  by (intro ext; simp add: snapshot_selects_def socket_line_def)+

lemma filter_net_namespace_iff:
  "\<not> filter_net_namespace readlink s pid \<longleftrightarrow>
     (\<forall>own ns. net_namespace s = Some own \<and> own \<noteq> 0 \<and> get_network_namespace readlink (Some pid) = Some ns \<and> ns \<noteq> 0 \<longrightarrow> ns = own)"
  by (auto simp: filter_net_namespace_def split: option.split)

lemma port_filter_accepts_iff:
  "port_filter_accepts pf port \<longleftrightarrow> (\<forall>ps. pf = PortIn ps \<longrightarrow> port \<in> set ps) \<and> (\<forall>ps. pf = PortNotIn ps \<longrightarrow> port \<notin> set ps)"
  by (cases pf) auto

lemma conn_event_selects:
  assumes "readable_socket bo c"
  shows "if snapshot_selects bo readlink s c
    then \<exists>pid ip port n. conn_pid c = Some pid \<and> conn_laddr c = Some (ip, port) \<and> ip_to_int bo ip = Inr n \<and>
      conn_event bo readlink s c = Inr (Some (NetListenWrapper pid n port (if conn_status c = ''LISTEN'' then 6 else 17)))
    else conn_event bo readlink s c = Inr None"
proof (cases "conn_pid c = None \<or> conn_pid c = Some 0")
  case True
  then show ?thesis by (auto simp: conn_event_def snapshot_selects_def)
next
  case False
  then obtain pid where pid: "conn_pid c = Some pid" "pid \<noteq> 0" by auto
  with assms obtain ip port n where a: "conn_laddr c = Some (ip, port)" "ip_to_int bo ip = Inr n"
    by (auto simp: readable_socket_def)
  have proto: "conn_protocol s c = (if log_tcp s \<and> conn_status c = ''LISTEN'' \<or> log_udp s \<and> conn_status c = ''NONE'' \<and> conn_dgram c
      then Some (if conn_status c = ''LISTEN'' then 6 else 17) else None)"
    by (auto simp: conn_protocol_def IPPROTO_TCP_def IPPROTO_UDP_def)
  have sel: "snapshot_selects bo readlink s c \<longleftrightarrow> conn_protocol s c \<noteq> None \<and> \<not> is_filtered_int (filtering s) n port \<and>
      port_filter_accepts (port_filter s) port \<and> \<not> filter_net_namespace readlink s pid"
    unfolding is_filtered_int_iff port_filter_accepts_iff filter_net_namespace_iff proto snapshot_selects_def
    by (simp add: pid a)
  show ?thesis
    by (cases "snapshot_selects bo readlink s c"; cases "conn_protocol s c")
       (use sel proto in \<open>simp_all add: conn_event_def pid a split: if_splits\<close>)
qed

lemma nl_enrich_ok:
  assumes "catchable crawl" and "ip_to_int bo ip = Inr n"
  shows "nl_enrich_event crawl format_exc pm (NetListenWrapper pid n port proto) s =
      (if truthy (container_labels_filter s) then (Inl (AttributeError ''mntns_id''), s)
       else (Inr (Some [(''pid'', PInt pid), (''port'', PInt port),
         (''proctree'', PList (map proc_dict (case crawl pid of Inl _ \<Rightarrow> [] | Inr t \<Rightarrow> t))),
         (''laddr'', PStr (inet_ntoa (le_bytes n))),
         (''protocol'', PStr (case pm proto of None \<Rightarrow> ''unknown'' | Some name \<Rightarrow> name)),
         (''error'', PStr (case crawl pid of Inl x \<Rightarrow> format_exc x | Inr _ \<Rightarrow> []))]), s))"
  using assms ip_to_int_bounds [OF assms(2)]
  by (cases "crawl pid")
     (auto simp: nl_enrich_event_def guarded_crawl_def catchable_def int_to_ip_Inr enrich_container_name_def NetListenWrapper_def)

lemma snapshot_conn_selects:
  assumes "catchable crawl" and "plugins_total s" and "readable_socket bo c"
  shows "if \<not> snapshot_selects bo readlink s c then snapshot_conn bo readlink crawl format_exc pm fr utcnow c s = (Inr (), s)
    else if truthy (container_labels_filter s)
    then snapshot_conn bo readlink crawl format_exc pm fr utcnow c s = (Inl (AttributeError ''mntns_id''), s)
    else \<exists>line. socket_line bo pm fr utcnow s c line \<and>
      snapshot_conn bo readlink crawl format_exc pm fr utcnow c s = (Inr (), s\<lparr>output_queue := output_queue s @ [line]\<rparr>)"
proof (cases "snapshot_selects bo readlink s c")
  case False
  with conn_event_selects [OF assms(3), of readlink s] show ?thesis by (simp add: snapshot_conn_def bindE_def)
next
  case True
  with conn_event_selects [OF assms(3), of readlink s] obtain pid ip port n where
    c: "conn_pid c = Some pid" "conn_laddr c = Some (ip, port)" "ip_to_int bo ip = Inr n" and
    e: "conn_event bo readlink s c = Inr (Some (NetListenWrapper pid n port (if conn_status c = ''LISTEN'' then 6 else 17)))"
    by auto
  note en = nl_enrich_ok [OF assms(1) c(3), of format_exc pm pid port "if conn_status c = ''LISTEN'' then 6 else 17" s]
  show ?thesis
  proof (cases "truthy (container_labels_filter s)")
    case True
    with \<open>snapshot_selects bo readlink s c\<close> e en show ?thesis
      by (simp add: snapshot_conn_def bindE_def process_events_def)
  next
    case False
    then obtain d where d: "nl_enrich_event crawl format_exc pm
          (NetListenWrapper pid n port (if conn_status c = ''LISTEN'' then 6 else 17)) s = (Inr (Some d), s)"
        "map_of d ''pid'' = Some (PInt pid)" "map_of d ''port'' = Some (PInt port)"
        "map_of d ''laddr'' = Some (PStr (inet_ntoa (le_bytes n)))"
        "map_of d ''protocol'' = Some (PStr (case pm (if conn_status c = ''LISTEN'' then 6 else 17) of None \<Rightarrow> ''unknown'' | Some name \<Rightarrow> name))"
      using en by simp
    obtain line where l: "output_line fr s utcnow d = Inr line"
        "process_events (nl_enrich_event crawl format_exc pm) fr utcnow
          (NetListenWrapper pid n port (if conn_status c = ''LISTEN'' then 6 else 17)) s =
          (Inr (), s\<lparr>output_queue := output_queue s @ [line]\<rparr>)"
      using listen.process_events_reports [OF _ assms(2) d(1), of fr utcnow] by blast
    have "ip_to_int LittleEndian (inet_ntoa (le_bytes n)) = ip_to_int bo ip"
      using ip_to_int_inet_ntoa_le [of n] ip_to_int_bounds [OF c(3)] c(3) by simp
    with c d l have "socket_line bo pm fr utcnow s c line" unfolding socket_line_def by blast
    with \<open>snapshot_selects bo readlink s c\<close> False e l(2) show ?thesis
      by (auto simp: snapshot_conn_def bindE_def)
  qed
qed

lemma snapshot_round_selects:
  assumes "catchable crawl"
  shows "plugins_total s \<Longrightarrow> list_all (readable_socket bo) conns \<Longrightarrow> \<not> truthy (container_labels_filter s) \<Longrightarrow>
    \<exists>lines. snapshot_round bo readlink crawl format_exc pm fr utcnow conns s =
        (Inr (), s\<lparr>output_queue := output_queue s @ lines\<rparr>) \<and>
      list_all2 (socket_line bo pm fr utcnow s) (filter (snapshot_selects bo readlink s) conns) lines"
proof (induction conns arbitrary: s)
  case Nil
  then show ?case by (simp add: snapshot_round_def)
next
  case (Cons c conns)
  then have c: "readable_socket bo c" "list_all (readable_socket bo) conns" by simp_all
  note step = snapshot_conn_selects [OF assms(1) Cons.prems(1) c(1), of readlink format_exc pm fr utcnow]
  show ?case
  proof (cases "snapshot_selects bo readlink s c")
    case False
    with step Cons.IH [OF Cons.prems(1) c(2) Cons.prems(3)] show ?thesis
      by (simp add: snapshot_round_def bindE_def)
  next
    case True
    with step Cons.prems(3) obtain line where l: "socket_line bo pm fr utcnow s c line"
      "snapshot_conn bo readlink crawl format_exc pm fr utcnow c s = (Inr (), s\<lparr>output_queue := output_queue s @ [line]\<rparr>)"
      by auto
    from Cons.IH [of "s\<lparr>output_queue := output_queue s @ [line]\<rparr>"] Cons.prems(1,3) c(2) obtain lines where
      "snapshot_round bo readlink crawl format_exc pm fr utcnow conns (s\<lparr>output_queue := output_queue s @ [line]\<rparr>) =
        (Inr (), s\<lparr>output_queue := output_queue s @ line # lines\<rparr>)"
      "list_all2 (socket_line bo pm fr utcnow s) (filter (snapshot_selects bo readlink s) conns) lines" by auto
    with True l show ?thesis by (intro exI [of _ "line # lines"]) (simp add: snapshot_round_def bindE_def)
  qed
qed

lemma snapshot_round_labels:
  assumes "catchable crawl" and "plugins_total s" and "truthy (container_labels_filter s)"
  shows "list_all (readable_socket bo) conns \<Longrightarrow>
    snapshot_round bo readlink crawl format_exc pm fr utcnow conns s =
      (if filter (snapshot_selects bo readlink s) conns = [] then (Inr (), s) else (Inl (AttributeError ''mntns_id''), s))"
proof (induction conns)
  case (Cons c conns)
  with snapshot_conn_selects [OF assms(1,2), of bo c readlink format_exc pm fr utcnow] assms(3) show ?case
    by (auto simp: snapshot_round_def bindE_def)
qed (simp add: snapshot_round_def)

text \<open>
  Property C28. A snapshot of sockets whose addresses can be read outputs one line for each socket
  it selects, in their order, and changes nothing else, when container labels are off, no plugin
  raises and reading the process tree fails only with errors the code catches. It selects exactly the sockets of a process that listen in a protocol the probe logs, that no
  network filter drops, whose port the port filter accepts and whose network namespace is not known
  to be another one; the line has the process, address, port and protocol of the socket. With
  container labels on, the first selected socket raises, since the snapshot knows no mount namespace,
  and nothing is output.
\<close>

theorem snapshot_reports_selected:
  assumes "catchable crawl" and "plugins_total s" and "list_all (readable_socket bo) conns"
  shows "if truthy (container_labels_filter s)
    then snapshot_round bo readlink crawl format_exc pm fr utcnow conns s =
      (if filter (snapshot_selects bo readlink s) conns = [] then (Inr (), s) else (Inl (AttributeError ''mntns_id''), s))
    else \<exists>lines. snapshot_round bo readlink crawl format_exc pm fr utcnow conns s =
        (Inr (), s\<lparr>output_queue := output_queue s @ lines\<rparr>) \<and>
      list_all2 (socket_line bo pm fr utcnow s) (filter (snapshot_selects bo readlink s) conns) lines"
  using snapshot_round_labels [OF assms(1,2) _ assms(3)] snapshot_round_selects [OF assms(1-3)] by simp

definition example_listen_probe :: net_listen_probe where
  "example_listen_probe = probe_base.extend example_probe
     (net_listen_probe.fields None [] (PortNotIn [22]) True False)"

theorem snapshot_reports_selected_witness:
  "\<exists>line. snapshot_round LittleEndian (\<lambda>_. Inl OSError) (\<lambda>_. Inr []) (\<lambda>_. []) (\<lambda>_. Some ''tcp'') (\<lambda>_. []) ''now''
      [\<lparr>conn_pid = Some 5, conn_status = ''LISTEN'', conn_dgram = False, conn_laddr = Some (''127.0.0.1'', 80)\<rparr>,
       \<lparr>conn_pid = Some 6, conn_status = ''LISTEN'', conn_dgram = False, conn_laddr = Some (''127.0.0.1'', 22)\<rparr>,
       \<lparr>conn_pid = None, conn_status = ''LISTEN'', conn_dgram = False, conn_laddr = None\<rparr>] example_listen_probe =
     (Inr (), example_listen_probe\<lparr>output_queue := [line]\<rparr>) \<and>
     socket_line LittleEndian (\<lambda>_. Some ''tcp'') (\<lambda>_. []) ''now'' example_listen_probe
       \<lparr>conn_pid = Some 5, conn_status = ''LISTEN'', conn_dgram = False, conn_laddr = Some (''127.0.0.1'', 80)\<rparr> line"
proof -
  let ?c1 = "\<lparr>conn_pid = Some 5, conn_status = ''LISTEN'', conn_dgram = False, conn_laddr = Some (''127.0.0.1'', 80)\<rparr>"
  let ?c2 = "\<lparr>conn_pid = Some 6, conn_status = ''LISTEN'', conn_dgram = False, conn_laddr = Some (''127.0.0.1'', 22)\<rparr>"
  let ?c3 = "\<lparr>conn_pid = None, conn_status = ''LISTEN'', conn_dgram = False, conn_laddr = None\<rparr> :: conn"
  have p: "\<not> truthy (container_labels_filter example_listen_probe)" "plugins example_listen_probe = []"
    "output_queue example_listen_probe = []" "catchable (\<lambda>_. Inr [])" "log_tcp example_listen_probe"
    "filtering example_listen_probe = []" "port_filter example_listen_probe = PortNotIn [22]" "net_namespace example_listen_probe = None"
    by (simp_all add: example_listen_probe_def example_probe_def probe_base.defs net_listen_probe.defs
        truthy_def catchable_def)
  have "list_all (readable_socket LittleEndian) [?c1, ?c2, ?c3]"
    by (simp add: readable_socket_def example_addresses)
  moreover have "filter (snapshot_selects LittleEndian (\<lambda>_. Inl OSError) example_listen_probe) [?c1, ?c2, ?c3] = [?c1]"
    by (simp add: snapshot_selects_def example_addresses p)
  ultimately show ?thesis
    using snapshot_reports_selected [OF p(4) plugins_total_none [OF p(2)], of LittleEndian "[?c1, ?c2, ?c3]" "\<lambda>_. Inl OSError"
        "\<lambda>_. []" "\<lambda>_. Some ''tcp''" "\<lambda>_. []" "''now''"] p(1,3)
    by (auto simp: list_all2_Cons1)
qed

end
