(* ===== verification/Probe_Worker.thy ===== *)
theory Probe_Worker
  imports Probe_Loading Kernel_Filter Tcp_Connect Udp_Session Net_Listen
begin

text \<open>
  The loops of a probe's process in \<^verbatim>\<open>pidtree_bcc/probes/__init__.py\<close>: polling the
  kernel's events and, on a thread of its own that is restarted when it raises, taking up
  configuration changes. A loop that waits for more is a run over the finite list it was given so
  far. What the thread relies on in the probe's own \<open>build_probe_config\<close> is the contract
  \<open>hotswap_builder\<close>, which the methods of all three probes are shown to keep.
\<close>

section \<open>The loops\<close>

definition polling_step ::
    "(rat \<Rightarrow> string) \<Rightarrow> poll_function \<Rightarrow> string \<times> ('a probe_base_scheme, unit) eff \<Rightarrow> ('a probe_base_scheme, unit) eff" where
  "polling_step fr poll_func step = (case step of (now, perf_buffer_poll) \<Rightarrow>
     (case poll_func of
        Poll_and_check_lost \<Rightarrow> poll_and_check_lost fr now perf_buffer_poll
      | Perf_buffer_poll \<Rightarrow> perf_buffer_poll))"

definition polling_loop ::
    "(rat \<Rightarrow> string) \<Rightarrow> (string \<times> ('a probe_base_scheme, unit) eff) list \<Rightarrow> ('a probe_base_scheme, unit) eff" where
  "polling_loop fr rounds s = forE rounds (polling_step fr (fst (select_poll s))) s"

text \<open>
  One call of the thread's function: it works through the queue until it is empty, when it
  waits, or until a change raises; then the rest of the queue is left.
\<close>

fun poll_config_changes :: "('d \<Rightarrow> ('s, unit) eff) \<Rightarrow> 'd list \<Rightarrow> 's \<Rightarrow> unit res \<times> 'd list \<times> 's" where
  "poll_config_changes take_up [] s = (Inr (), [], s)"
| "poll_config_changes take_up (config_data # queue) s = (case take_up config_data s of
       (Inl e, s') \<Rightarrow> (Inl e, queue, s')
     | (Inr _, s') \<Rightarrow> poll_config_changes take_up queue s')"

definition config_thread ::
    "(pyval pydict \<Rightarrow> ('a probe_base_scheme, 'b) eff) \<Rightarrow> byteorder \<Rightarrow> (cfilter_key list \<Rightarrow> cfilter_key list) \<Rightarrow> (int list \<Rightarrow> int list) \<Rightarrow>
       ('n, cfilter_key, cfilter_value) table_ops \<Rightarrow> ('p, i32, u8) table_ops \<Rightarrow> pyval pydict list \<Rightarrow>
       'a probe_base_scheme \<times> ('n, 'p, 'c) bpf_maps \<Rightarrow>
       (unit res \<times> pyval pydict list \<times> 'a probe_base_scheme \<times> ('n, 'p, 'c) bpf_maps) option" where
  "config_thread build bo kord pord TN TP queue sm =
     never_crash (\<lambda>(q, sm). poll_config_changes (apply_config_change build bo kord pord TN TP) q sm) (queue, sm)"

section \<open>What taking up a change can raise\<close>

text \<open>Results and programs whose errors the decorator catches.\<close>

definition safeR :: "'a res \<Rightarrow> bool" where
  "safeR r = (\<forall>e. r = Inl e \<longrightarrow> is_Exception e)"

definition safeE :: "('s, 'a) eff \<Rightarrow> bool" where
  "safeE m = (\<forall>s. safeR (fst (m s)))"

named_theorems safe_rules

lemma safe_basic [safe_rules]:
  "safeR (Inr x)" "safeR (Inl TypeError)" "safeR (Inl ValueError)" "safeR (Inl IndexError)" "safeR (Inl OSError)"
  "safeR (Inl (KeyError k))" "safeR (Inl (AttributeError k))" "safeR (Inl (OtherException k))"
  by (simp_all add: safeR_def is_Exception_def)

lemma safe_bindR [safe_rules]: "safeR r \<Longrightarrow> (\<And>x. safeR (f x)) \<Longrightarrow> safeR (bindR r f)"
  by (cases r) (auto simp: safeR_def)

lemma safe_mapR [safe_rules]: "(\<And>x. safeR (f x)) \<Longrightarrow> safeR (mapR f xs)"
  by (induction xs) (auto intro: safe_rules)

lemma safe_if [safe_rules]: "(b \<Longrightarrow> safeR r) \<Longrightarrow> (\<not> b \<Longrightarrow> safeR q) \<Longrightarrow> safeR (if b then r else q)"
  by simp

lemma safe_values [safe_rules]:
  "safeR (py_index v k)" "safeR (py_get v k d)" "safeR (py_iter v)" "safeR (as_str v)" "safeR (int_of_str s)"
  "safeR (py_int v)" "safeR (dict_index dict k)"
  by (auto simp: py_index_def py_get_def py_iter_def as_str_def int_of_str_def py_int_def dict_index_def Let_def
      intro: safe_rules split: pyval.split option.split list.split)

lemma safe_inet_parts [safe_rules]: "safeR (inet_aton_parts k s)"
  by (induction k s rule: inet_aton_parts.induct)
     (subst inet_aton_parts.simps, auto intro!: safe_rules split: list.split nat.split prod.split)

lemma safe_masks [safe_rules]:
  "safeR (ip_to_int bo a)" "safeR (netmask_to_prefixlen a)"
  by (auto simp: ip_to_int_def inet_aton_def netmask_to_prefixlen_def prefix_from_ip_string_def ip_int_from_string_def
      parse_octet_def prefix_from_ip_int_def Let_def intro!: safe_rules)

lemma safe_filters [safe_rules]: "safeR (filter_key_of bo e)" "safeR (filter_value_of e)" "safeR (portset_of ps)"
proof -
  have two: "safeR (two_ints s)" for s by (auto simp: two_ints_def intro!: safe_rules split: list.split)
  have port: "safeR (CPortRange u v)" for u v 
    by (auto simp: CPortRange_def ct_uint_def intro!: safe_rules split: pyval.split)
  show "safeR (filter_key_of bo e)"
    by (auto simp: filter_key_of_def from_network_definition_def py_ip_to_int_def intro!: safe_rules)
  have "safeR (from_conf_value v)" for v
    by (auto simp: from_conf_value_def intro!: safe_rules two port split: prod.split)
  then show "safeR (filter_value_of e)"
    by (auto simp: filter_value_of_def port_ranges_def CFilterValue_def range_array_def intro!: safe_rules)
  show "safeR (portset_of ps)"
    by (auto simp: portset_of_def port_elements_def port_range_mapper_def intro!: safe_rules two split: prod.split)
qed

lemma safe_eff [safe_rules]:
  "safeE (retE x)" "safeR r \<Longrightarrow> safeE (liftR r)" "safeR (Inl e) \<Longrightarrow> safeE (raiseE e)"
  by (simp_all add: safeE_def safeR_def)

lemma safe_bindE [safe_rules]:
  assumes "safeE m" and "\<And>x. safeE (f x)"
  shows "safeE (bindE m f)"
proof -
  have "safeR (fst (bindE m f s))" for s
    using assms(1) [unfolded safeE_def, rule_format, of s] assms(2)
    by (cases "m s"; cases "fst (m s)") (auto simp: bindE_def safeE_def safeR_def)
  then show ?thesis by (simp add: safeE_def)
qed

lemma safe_forE [safe_rules]: "(\<And>x. safeE (f x)) \<Longrightarrow> safeE (forE xs f)"
  by (induction xs) (auto intro!: safe_rules simp del: retE_simp)

text \<open>A table whose own errors are caught too.\<close>

definition table_safe :: "('m, 'k, 'v) table_ops \<Rightarrow> bool" where
  "table_safe T = ((\<forall>k v. safeE (tbl_set T k v)) \<and> (\<forall>k. safeE (tbl_del T k)))"

lemma safe_loads:
  assumes "table_safe TN" and "table_safe TP"
  shows "safeE (load_filters_into_map bo kord TN filters diff)" and "safeE (load_port_filters_into_map pord TP ps md diff)"
proof -
  have e: "safeE (load_filter_entries bo TN es ls)" for es ls
    using assms(1) by (induction es arbitrary: ls)
      (auto simp: load_filter_entry_def table_safe_def intro!: safe_rules simp del: retE_simp)
  have "safeE (\<lambda>m. bindE (load_filter_entries bo TN filters (f m)) (\<lambda>ls. forE (kord ls) (\<lambda>key. tbl_del TN key)) m)" for f
    using safe_bindE [OF e, of "\<lambda>ls. forE (kord ls) (tbl_del TN)" filters] safe_forE [of "tbl_del TN"] assms(1)
    by (auto simp: safeE_def table_safe_def)
  then show "safeE (load_filters_into_map bo kord TN filters diff)"
    by (simp add: load_filters_into_map_def [abs_def] Let_def)
  show "safeE (load_port_filters_into_map pord TP ps md diff)"
  proof -
    have "safeE (bindE (liftR (portset_of ps)) (\<lambda>portset.
        let leftovers = filter (\<lambda>p. p \<notin> set portset) c
        in bindE (forE (pord portset) (\<lambda>port. tbl_set TP (c_int port) 1)) (\<lambda>_.
           bindE (forE (pord leftovers) (\<lambda>port. tbl_set TP (c_int port) 0)) (\<lambda>_.
           tbl_set TP (c_int 0) (of_int (mode_value md))))))" for c
      using assms(2) unfolding Let_def table_safe_def by (intro safe_rules) simp_all
    then show ?thesis
      by (auto simp: safeE_def load_port_filters_into_map_def Let_def intro!: safe_rules)
  qed
qed

lemma safe_reload:
  assumes "table_safe TN" and "table_safe TP"
  shows "safeR (fst (reload_filters bo kord pord TN TP s is_init m))"
proof -
  have n: "safeE (bindE (liftR (py_iter v)) (\<lambda>fs. load_filters_into_map bo kord TN fs (\<not> is_init)))" for v
    using safe_loads(1) [OF assms] by (intro safe_rules)
  have "safeE (bindE (liftR (py_iter v)) (\<lambda>ports. load_port_filters_into_map pord TP ports md (\<not> is_init)))" for v md
    using safe_loads(2) [OF assms] by (intro safe_rules)
  with n show ?thesis unfolding reload_filters_def safeE_def
    by (simp split: prod.split sum.split) (metis fst_conv)
qed

lemma safe_configs [safe_rules]:
  "safeR (has_buggy_headers p)" "safeR (bcc_minor p)" "safeR (template_settings cls p config)"
  "safeR (map_settings filters config)" "safeR (NetFilter bo v)" "safeR (build_port_filter config)"
proof -
  have two: "safeR (two_ints s)" for s by (auto simp: two_ints_def intro!: safe_rules split: list.split)
  show h: "safeR (has_buggy_headers p)"
    by (auto simp: has_buggy_headers_def intro!: safe_rules split: list.split prod.split)
  show m: "safeR (bcc_minor p)" by (auto simp: bcc_minor_def intro!: safe_rules split: list.split)
  show "safeR (template_settings cls p config)"
    by (auto simp: template_settings_def intro!: safe_rules h m split: option.split)
  have "safeR (py_len v)" for v by (auto simp: py_len_def intro!: safe_rules split: pyval.split)
  then show "safeR (map_settings filters config)"
    by (auto simp: map_settings_def net_filter_map_size_def round_nearest_multiple_def intro!: safe_rules)
  show "safeR (NetFilter bo v)"
    by (auto simp: NetFilter_def ip_port_filter_of_def int_set_def py_ip_to_int_def intro!: safe_rules)
  have "safeR (port_str v)" "safeR (exclude_ports_of x)" for v x
    by (auto simp: port_str_def exclude_ports_of_def port_range_mapper_def intro!: safe_rules two
        split: pyval.split prod.split)
  then show "safeR (build_port_filter config)"
    by (auto simp: build_port_filter_def intro!: safe_rules)
qed

section \<open>The thread works off its queue\<close>

lemma poll_config_changes_result:
  "poll_config_changes take_up ds s = (r, ds', s') \<Longrightarrow>
     (r = Inr () \<and> ds' = [] \<or> length ds' < length ds \<and> (\<exists>e d s1. r = Inl e \<and> take_up d s1 = (Inl e, s'))) \<and>
     fold (\<lambda>d s. snd (take_up d s)) ds s = fold (\<lambda>d s. snd (take_up d s)) ds' s'"
proof (induction ds arbitrary: s)
  case (Cons d ds)
  obtain r1 s1 where t: "take_up d s = (r1, s1)" by (cases "take_up d s")
  show ?case
  proof (cases r1)
    case (Inl e)
    with t Cons.prems show ?thesis by auto
  next
    case (Inr u)
    with t Cons.prems have "poll_config_changes take_up ds s1 = (r, ds', s')" by simp
    from Cons.IH [OF this] t show ?thesis by auto
  qed
qed simp

text \<open>Every change is taken up in turn, also after ones that raised.\<close>

lemma config_thread_takes_all:
  assumes "\<And>d. safeE (take_up d)"
  shows "never_crash (\<lambda>(q, s). poll_config_changes take_up q s) (ds, s) =
    Some (Inr (), [], fold (\<lambda>d s. snd (take_up d s)) ds s)"
proof (induction "length ds" arbitrary: ds s rule: less_induct)
  case less
  obtain r ds' s' where p: "poll_config_changes take_up ds s = (r, ds', s')" by (metis prod_cases3)
  note res = poll_config_changes_result [OF p]
  show ?case
  proof (cases r)
    case (Inr u)
    with res p show ?thesis by (subst never_crash.simps) auto
  next
    case (Inl e)
    then have "is_Exception e" using res assms by (auto simp: safeE_def safeR_def) (metis fst_conv)
    with Inl p have "never_crash (\<lambda>(q, s). poll_config_changes take_up q s) (ds, s) =
        never_crash (\<lambda>(q, s). poll_config_changes take_up q s) (ds', s')"
      by (subst never_crash.simps) simp
    with less.hyps [of ds' s'] res Inl show ?thesis by auto
  qed
qed

section \<open>What a change leaves in the tables\<close>

definition offered :: "byteorder \<Rightarrow> pyval list \<Rightarrow> cfilter_key set" where
  "offered bo filters = {k. \<exists>e \<in> set filters. filter_key_of bo e = Inr k}"

context filter_table
begin

text \<open>Whatever a load raises, the table stays a table, and holds no key that was neither there nor offered.\<close>

lemma entries_keep:
  "load_filter_entries bo T es ls m = (r, m') \<Longrightarrow> inv m \<Longrightarrow>
     inv m' \<and> dom (tbl_get T m') \<subseteq> dom (tbl_get T m) \<union> offered bo es"
proof (induction es arbitrary: ls m)
  case (Cons e es)
  show ?case
  proof (cases "load_filter_entry bo T e m")
    case (Pair r1 m1)
    have "inv m1 \<and> dom (tbl_get T m1) \<subseteq> dom (tbl_get T m) \<union> offered bo [e]"
    proof (cases "filter_key_of bo e")
      case (Inr k)
      show ?thesis
      proof (cases "filter_value_of e")
        case (Inr v)
        obtain r2 m2 where t: "tbl_set T k v m = (r2, m2)" by (cases "tbl_set T k v m")
        then have "m1 = m2" using Pair Inr \<open>filter_key_of bo e = Inr k\<close>
          by (auto simp: load_filter_entry_def bindE_def split: sum.splits)
        with t \<open>filter_key_of bo e = Inr k\<close> set_ok [OF Cons.prems(2), of k v _ m2] set_refused [OF Cons.prems(2), of k v _ m2]
        show ?thesis by (cases r2) (auto simp: offered_def)
      qed (use Pair Inr Cons.prems(2) in \<open>auto simp: load_filter_entry_def bindE_def\<close>)
    qed (use Pair Cons.prems(2) in \<open>auto simp: load_filter_entry_def bindE_def\<close>)
    moreover have "offered bo (e # es) = offered bo [e] \<union> offered bo es" by (auto simp: offered_def)
    ultimately show ?thesis
      using Cons.prems(1) Cons.IH [of "removeAll _ ls" m1] Pair
      by (auto simp: bindE_def split: sum.splits) blast+
  qed
qed (auto simp: offered_def)

lemma load_keep:
  assumes "load_filters_into_map bo ord T filters do_diff m = (r, m')" and "inv m"
  shows "inv m' \<and> dom (tbl_get T m') \<subseteq> dom (tbl_get T m) \<union> offered bo filters"
proof -
  define P where "P m' \<longleftrightarrow> inv m' \<and> dom (tbl_get T m') \<subseteq> dom (tbl_get T m) \<union> offered bo filters" for m'
  obtain ls0 r1 m1 where e: "load_filter_entries bo T filters ls0 m = (r1, m1)"
      "(case r1 of Inl x \<Rightarrow> (Inl x, m1) | Inr ls \<Rightarrow> forE (ord ls) (tbl_del T) m1) = (r, m')"
    using assms(1) by (auto simp: load_filters_into_map_def Let_def bindE_def split: prod.splits sum.splits)
  have "P m1" using entries_keep [OF e(1) assms(2)] by (simp add: P_def)
  moreover have "P m3" if "P m2" "tbl_del T k m2 = (r2, m3)" for k m2 r2 m3
    using that del_present [of m2 k] del_absent [of m2 k] by (cases "k \<in> dom (tbl_get T m2)") (auto simp: P_def)
  ultimately have "P m'" using e(2) forE_preserves [of _ P "tbl_del T" m1 r m'] by (cases r1) auto
  then show ?thesis by (simp add: P_def)
qed

end

text \<open>The keys of the filters a change asks for, as far as they can be read.\<close>

definition change_keys :: "byteorder \<Rightarrow> pyval pydict \<Rightarrow> pyval pydict \<Rightarrow> cfilter_key set" where
  "change_keys bo defaults d =
     (case bindR (dict_index (dict_merge defaults d) ''filters'') py_iter of Inl _ \<Rightarrow> {} | Inr filters \<Rightarrow> offered bo filters)"

lemma reload_net_map:
  assumes "reload_filters bo kord pord TN TP s False m = (r, m')"
  shows "net_filter_map m' = snd (bindE (liftR (py_iter (net_filters s)))
    (\<lambda>filters. load_filters_into_map bo kord TN filters True) (net_filter_map m))"
  using assms by (auto simp: reload_filters_def split: prod.splits sum.splits)

section \<open>What the thread relies on in a probe's build\<close>

text \<open>Whether a build returns for a configuration, or raises, whatever the state of the probe.\<close>

definition accepts :: "(pyval pydict \<Rightarrow> ('s, 'b) eff) \<Rightarrow> pyval pydict \<Rightarrow> bool" where
  "accepts build d = (\<forall>s. \<exists>x. fst (build d s) = Inr x)"

definition rejects :: "(pyval pydict \<Rightarrow> ('s, 'b) eff) \<Rightarrow> pyval pydict \<Rightarrow> bool" where
  "rejects build d = (\<forall>s. \<exists>e. fst (build d s) = Inl e)"

lemma apply_keeps_labels:
  assumes "\<And>r s'. build d (fst sm) = (r, s') \<Longrightarrow> container_labels_filter s' = container_labels_filter (fst sm)"
  shows "container_labels_filter (fst (snd (apply_config_change build bo kord pord TN TP d sm))) = container_labels_filter (fst sm)"
  using assms by (cases "build d (fst sm)") (auto simp: apply_config_change_def split: sum.split prod.split)

text \<open>
  The contract of \<open>build_probe_config\<close> on a change: what it raises is caught, the labels stay
  those of the start, and when it returns the filters are those of the configuration over the
  defaults.
\<close>

locale hotswap_builder =
  fixes build :: "pyval pydict \<Rightarrow> ('a probe_base_scheme, 'b) eff" and defaults :: "pyval pydict"
  assumes build_safe: "safeE (build d)"
    and build_labels: "build d s = (r, s') \<Longrightarrow> container_labels_filter s' = container_labels_filter s"
    and build_filters: "build d s = (Inr x, s') \<Longrightarrow> dict_index (dict_merge defaults d) ''filters'' = Inr (net_filters s')"
begin

lemma apply_safe:
  fixes TN :: "('n, cfilter_key, cfilter_value) table_ops" and TP :: "('p, i32, u8) table_ops"
  assumes "table_safe TN" and "table_safe TP"
  shows "safeE (apply_config_change build bo kord pord TN TP d ::
    ('a probe_base_scheme \<times> ('n, 'p, 'c) bpf_maps, unit) eff)"
  unfolding safeE_def
proof
  fix sm :: "'a probe_base_scheme \<times> ('n, 'p, 'c) bpf_maps"
  obtain r s where "build d (fst sm) = (r, s)" by fastforce
  with build_safe [of d, unfolded safeE_def, rule_format, of "fst sm"] safe_reload [OF assms, of bo kord pord s False "snd sm"]
  show "safeR (fst (apply_config_change build bo kord pord TN TP d sm))"
    by (auto simp: apply_config_change_def safeR_def split: prod.splits sum.splits)
qed

lemma apply_labels:
  "container_labels_filter (fst (snd (apply_config_change build bo kord pord TN TP d sm))) = container_labels_filter (fst sm)"
  by (rule apply_keeps_labels) (rule build_labels)

lemma apply_rejected:
  assumes "rejects build d"
  shows "snd (snd (apply_config_change build bo kord pord TN TP d sm)) = snd sm"
proof -
  obtain e s' where "build d (fst sm) = (Inl e, s')" using assms unfolding rejects_def by (metis prod.collapse)
  then show ?thesis by (simp add: apply_config_change_def)
qed

lemma changes_rejected:
  "\<forall>d \<in> set ds. rejects build d \<Longrightarrow>
     snd (fold (\<lambda>d sm. snd (apply_config_change build bo kord pord TN TP d sm)) ds sm) = snd sm"
  by (induction ds arbitrary: sm) (simp_all add: apply_rejected)

lemma apply_keep:
  assumes "filter_table TN I fits" and "I (net_filter_map m)"
    and "apply_config_change build bo kord pord TN TP d (s, m) = (r, (s', m'))"
  shows "I (net_filter_map m') \<and>
    dom (tbl_get TN (net_filter_map m')) \<subseteq> dom (tbl_get TN (net_filter_map m)) \<union> change_keys bo defaults d"
proof (cases "build d s")
  case (Pair r1 s1)
  show ?thesis
  proof (cases r1)
    case (Inr x)
    obtain r2 where rel: "reload_filters bo kord pord TN TP s1 False m = (r2, m')"
      using assms(3) Pair Inr by (auto simp: apply_config_change_def split: prod.splits)
    show ?thesis
    proof (cases "py_iter (net_filters s1)")
      case (Inl e)
      then show ?thesis using reload_net_map [OF rel] assms(2) by (simp add: bindE_def)
    next
      case (Inr filters)
      then have "net_filter_map m' = snd (load_filters_into_map bo kord TN filters True (net_filter_map m))"
        using reload_net_map [OF rel] by (simp add: bindE_def)
      moreover have "change_keys bo defaults d = offered bo filters"
        using build_filters [of d s x s1] Pair \<open>r1 = Inr x\<close> Inr by (simp add: change_keys_def)
      ultimately show ?thesis
        using filter_table.load_keep [OF assms(1) _ assms(2), of bo kord filters True
            "fst (load_filters_into_map bo kord TN filters True (net_filter_map m))"] by simp
    qed
  qed (use assms(2,3) Pair in \<open>auto simp: apply_config_change_def\<close>)
qed

lemma changes_keep:
  assumes "filter_table TN I fits"
  shows "I (net_filter_map (snd sm)) \<Longrightarrow>
    fold (\<lambda>d sm. snd (apply_config_change build bo kord pord TN TP d sm)) ds sm = sm' \<Longrightarrow>
    I (net_filter_map (snd sm')) \<and>
    dom (tbl_get TN (net_filter_map (snd sm'))) \<subseteq>
      dom (tbl_get TN (net_filter_map (snd sm))) \<union> (\<Union>d \<in> set ds. change_keys bo defaults d)"
proof (induction ds arbitrary: sm)
  case (Cons d ds)
  obtain s m where sm: "sm = (s, m)" by (cases sm)
  obtain r s1 m1 where a: "apply_config_change build bo kord pord TN TP d (s, m) = (r, (s1, m1))" by (metis prod_cases3)
  note k = apply_keep [OF assms(1) _ a]
  have k: "I (net_filter_map m1)" "dom (tbl_get TN (net_filter_map m1)) \<subseteq> dom (tbl_get TN (net_filter_map m)) \<union> change_keys bo defaults d"
    using k Cons.prems(1) by (auto simp: sm)
  with Cons.IH [of "(s1, m1)"] Cons.prems(2) a
  have i: "I (net_filter_map (snd sm'))" "dom (tbl_get TN (net_filter_map (snd sm'))) \<subseteq>
      dom (tbl_get TN (net_filter_map m1)) \<union> (\<Union>d \<in> set ds. change_keys bo defaults d)" by (simp_all add: sm)
  from subset_trans [OF i(2) Un_mono [OF k(2) subset_refl]] i(1) show ?case by (simp add: sm Un_assoc)
qed simp

lemma change_reaches_kernel:
  assumes "lpm_trie TN I fits bo lpm" and "I (net_filter_map m)" and "set_order kord"
    and "accepts build d" and "distinct (map fst d)" and "map_of d ''filters'' = Some (PList filters)"
    and "mapR (filter_entry_of bo) filters = Inr kvs" and "\<forall>e \<in> set filters. dotted_filter e"
    and "fits (dom (tbl_get TN (net_filter_map m)) \<union> fst ` set kvs)"
  shows "\<exists>r s' m'. apply_config_change build bo kord pord TN TP d (s, m) = (r, (s', m')) \<and>
    net_filters s' = PList filters \<and>
    (\<forall>addr port. is_addr_port_filtered (lpm (net_filter_map m')) addr port =
       (case deciding_entry bo kvs addr of None \<Rightarrow> False | Some (k, v) \<Rightarrow> value_filters v port))"
proof -
  obtain x s' where b: "build d s = (Inr x, s')" using assms(4) unfolding accepts_def by (metis prod.collapse)
  have "map_of (rev d) = map_of d"
    using assms(5) by (subst map_of_inject_set) (simp_all add: rev_map [symmetric])
  then have "dict_index (dict_merge defaults d) ''filters'' = Inr (PList filters)"
    using assms(6) by (simp add: dict_index_def map_of_dict_merge map_add_def)
  with build_filters [OF b] have f: "net_filters s' = PList filters" by simp
  obtain n' where n': "load_filters_into_map bo kord TN filters True (net_filter_map m) = (Inr (), n')"
      "\<forall>addr port. is_addr_port_filtered (lpm n') addr port =
         (case deciding_entry bo kvs addr of None \<Rightarrow> False | Some (k, v) \<Rightarrow> value_filters v port)"
    using lpm_trie.loaded_answer [OF assms(1-3,7,9,8)] by blast
  obtain r m' where rel: "reload_filters bo kord pord TN TP s' False m = (r, m')" by fastforce
  with n'(1) f have "net_filter_map m' = n'"
    by (auto simp: reload_filters_def bindE_def py_iter_def split: prod.splits)
  with b n'(2) rel f show ?thesis by (auto simp: apply_config_change_def)
qed

lemma changes_reach_kernel:
  fixes m :: "('n, 'p, 'c) bpf_maps" and TP :: "('p, i32, u8) table_ops"
  assumes "lpm_trie TN I fits bo lpm" and "I (net_filter_map m)" and "set_order kord"
    and "table_safe TN" and "table_safe TP"
    and "accepts build d" and "distinct (map fst d)" and "map_of d ''filters'' = Some (PList filters)"
    and "mapR (filter_entry_of bo) filters = Inr kvs" and "\<forall>e \<in> set filters. dotted_filter e"
    and "fits (dom (tbl_get TN (net_filter_map m)) \<union> (\<Union>c \<in> set changes. change_keys bo defaults c) \<union> fst ` set kvs)"
    and "\<forall>c \<in> set rejected. rejects build c"
  shows "\<exists>s' m'. config_thread build bo kord pord TN TP (changes @ d # rejected) (s, m) = Some (Inr (), [], s', m') \<and>
    (\<forall>addr port. is_addr_port_filtered (lpm (net_filter_map m')) addr port =
       (case deciding_entry bo kvs addr of None \<Rightarrow> False | Some (k, v) \<Rightarrow> value_filters v port))"
proof -
  let ?apply = "apply_config_change build bo kord pord TN TP ::
      pyval pydict \<Rightarrow> ('a probe_base_scheme \<times> ('n, 'p, 'c) bpf_maps, unit) eff"
  let ?all = "\<lambda>ds sm. fold (\<lambda>d sm. snd (?apply d sm)) ds sm"
  obtain s1 m1 where sm1: "?all changes (s, m) = (s1, m1)" by fastforce
  have trie: "filter_table TN I fits" using assms(1) by (simp add: lpm_trie_def)
  have keep: "I (net_filter_map m1)"
      "dom (tbl_get TN (net_filter_map m1)) \<subseteq> dom (tbl_get TN (net_filter_map m)) \<union> (\<Union>c \<in> set changes. change_keys bo defaults c)"
    using changes_keep [OF trie, of "(s, m)" bo kord pord TP changes] assms(2) sm1 by auto
  have "bpf_table TN I fits" using trie by (simp add: filter_table_def bpf_hash_def)
  from bpf_table.fits_subset [where fits = fits, OF this assms(11) Un_mono [OF keep(2) subset_refl]]
  have "fits (dom (tbl_get TN (net_filter_map m1)) \<union> fst ` set kvs)" .
  from change_reaches_kernel [OF assms(1) keep(1) assms(3,6-10) this, of pord TP s1]
  obtain r s2 m2 where "?apply d (s1, m1) = (r, (s2, m2))"
    "\<forall>addr port. is_addr_port_filtered (lpm (net_filter_map m2)) addr port =
       (case deciding_entry bo kvs addr of None \<Rightarrow> False | Some (k, v) \<Rightarrow> value_filters v port)" by blast
  moreover obtain s' m' where "?all rejected (s2, m2) = (s', m')" "m' = m2"
    using changes_rejected [OF assms(12), of bo kord pord TN TP "(s2, m2)"] by (metis prod.collapse snd_conv)
  moreover have "config_thread build bo kord pord TN TP (changes @ d # rejected) (s, m) =
      Some (Inr (), [], ?all (changes @ d # rejected) (s, m))"
    unfolding config_thread_def by (rule config_thread_takes_all [OF apply_safe [OF assms(4,5)]])
  ultimately show ?thesis using sm1 by auto
qed

end

section \<open>The builds of the probes keep the contract\<close>

lemma safe_update: "safeE (\<lambda>s. (Inr (), f s))"
  by (simp add: safeE_def safeR_def)

lemma safe_build: "safeE (build_probe_config cls p d hotswap)"
  unfolding build_probe_config_def Let_def
  by (intro safe_rules safe_update) (auto intro!: safe_rules safe_update simp del: retE_simp)

lemma build_keeps_labels:
  "build_probe_config cls p d hotswap s = (r, s') \<Longrightarrow> container_labels_filter s' = container_labels_filter s"
  by (auto simp: build_probe_config_def bindE_def split: sum.splits if_splits prod.splits)

text \<open>A build, also a full one, sets the filters of the configuration over the defaults.\<close>

lemma template_filters:
  "template_settings cls p config = Inr config' \<Longrightarrow> TEMPLATE_VARS cls = None \<Longrightarrow>
     dict_index config' ''filters'' = dict_index config ''filters''"
  by (auto simp: template_settings_def res_simps dict_index_def update_conv' delete_conv')

lemma build_sets_filters:
  assumes "build_probe_config cls p d hotswap s = (Inr x, s')"
    and "USES_DYNAMIC_FILTERS cls" and "CONFIG_DEFAULTS cls = Some defaults" and "TEMPLATE_VARS cls = None"
  shows "dict_index (dict_merge defaults d) ''filters'' = Inr (net_filters s')"
  using assms template_filters [of cls p "dict_merge defaults d"]
  by (cases hotswap) (auto simp: build_probe_config_def bindE_def Let_def split: sum.splits prod.splits)

lemma base_builder:
  assumes "USES_DYNAMIC_FILTERS cls" and "CONFIG_DEFAULTS cls = Some defaults" and "TEMPLATE_VARS cls = None"
  shows "hotswap_builder (\<lambda>d. build_probe_config cls p d True) defaults"
  using safe_build build_keeps_labels build_sets_filters [OF _ assms] by unfold_locales blast+

interpretation tcp_build: hotswap_builder "\<lambda>d. build_probe_config TCPConnectProbe p d True" "the (CONFIG_DEFAULTS TCPConnectProbe)"
  by (rule base_builder) (simp_all add: TCPConnectProbe_def)

text \<open>
  The probes that override the method. A hot swap starts no sidecar, so the build of the session
  probe is run without the list of them.
\<close>

definition udp_hotswap :: "platform \<Rightarrow> pyval pydict \<Rightarrow> (udp_probe, pyval pydict) eff" where
  "udp_hotswap p d s = (case udp_build_probe_config p d True (s, []) of (r, (s', _)) \<Rightarrow> (r, s'))"

lemma udp_hotswap_base: "udp_hotswap p d = build_probe_config UDPSessionProbe p d True"
  by (intro ext) (auto simp: udp_hotswap_def udp_build_probe_config_def split: prod.split sum.split)

interpretation udp_build: hotswap_builder "udp_hotswap p" "the (CONFIG_DEFAULTS UDPSessionProbe)"
  unfolding udp_hotswap_base by (rule base_builder) (simp_all add: UDPSessionProbe_def)

lemma safe_user_filters: "safeE (set_user_filters bo readlink config)"
  unfolding set_user_filters_def Let_def by (intro safe_rules safe_update)

lemma user_filters_keep:
  "set_user_filters bo readlink config s = (r, s') \<Longrightarrow>
     net_filters s' = net_filters s \<and> container_labels_filter s' = container_labels_filter s"
  by (auto simp: set_user_filters_def bindE_def Let_def split: sum.splits prod.splits)

interpretation listen_build: hotswap_builder "\<lambda>d. nl_build_probe_config p bo readlink d True"
    "the (CONFIG_DEFAULTS NetListenProbe)"
proof unfold_locales
  fix d r x and s s' :: net_listen_probe
  show "safeE (nl_build_probe_config p bo readlink d True)"
    unfolding nl_build_probe_config_def using safe_build safe_user_filters
    by (auto intro!: safe_rules simp del: retE_simp)
  obtain r1 s1 where b: "build_probe_config NetListenProbe p d False s = (r1, s1)" by fastforce
  show "nl_build_probe_config p bo readlink d True s = (r, s') \<Longrightarrow> container_labels_filter s' = container_labels_filter s"
    using build_keeps_labels [OF b] user_filters_keep b
    by (fastforce simp: nl_build_probe_config_def bindE_def split: sum.splits prod.splits)
  show "nl_build_probe_config p bo readlink d True s = (Inr x, s') \<Longrightarrow>
      dict_index (dict_merge (the (CONFIG_DEFAULTS NetListenProbe)) d) ''filters'' = Inr (net_filters s')"
  proof -
    assume a: "nl_build_probe_config p bo readlink d True s = (Inr x, s')"
    obtain config c2 where "build_probe_config NetListenProbe p d False s = (Inr config, s1)"
        "set_user_filters bo readlink config s1 = (Inr c2, s')"
      using a b by (auto simp: nl_build_probe_config_def bindE_def split: sum.splits prod.splits)
    with build_sets_filters [OF this(1)] user_filters_keep [OF this(2)] show ?thesis by (simp add: NetListenProbe_def)
  qed
qed

text \<open>
  The snapshot's port filter of \<open>net_listen\<close> takes single ports only, so a change whose
  included ports have a range, which the loader of the kernel's table accepts, is rejected.
\<close>

lemma settings_kept:
  assumes "build_probe_config NetListenProbe p d False s = (Inr config, s')"
    and "k \<in> {''includeports'', ''excludeports'', ''filters'', ''same_namespace_only''}"
  shows "map_of config k = map_of (dict_merge (the (CONFIG_DEFAULTS NetListenProbe)) d) k"
proof -
  obtain c fs where c: "template_settings NetListenProbe p (dict_merge (the (CONFIG_DEFAULTS NetListenProbe)) d) = Inr c"
      "map_settings fs c = Inr config"
    using assms(1) by (auto simp: build_probe_config_def NetListenProbe_def bindE_def split: sum.splits)
  have "map_of config k = map_of c k"
    using c(2) assms(2) by (auto simp: map_settings_def res_simps update_conv')
  moreover have "map_of c k = map_of (dict_merge (the (CONFIG_DEFAULTS NetListenProbe)) d) k"
    using c(1) assms(2) by (auto simp: template_settings_def NetListenProbe_def res_simps update_conv' delete_conv')
  ultimately show ?thesis by simp
qed

lemma listen_rejects_ranges:
  assumes "map_of (dict_merge (the (CONFIG_DEFAULTS NetListenProbe)) d) ''includeports'' = Some (PList ports)"
    and "v \<in> set ports" and "py_int v = Inl e"
  shows "rejects (\<lambda>d. nl_build_probe_config p bo readlink d True) d"
  unfolding rejects_def
proof
  fix s :: net_listen_probe
  show "\<exists>e. fst (nl_build_probe_config p bo readlink d True s) = Inl e"
  proof (cases "fst (nl_build_probe_config p bo readlink d True s)")
    case (Inr x)
    then obtain config s1 ns pf where b: "build_probe_config NetListenProbe p d False s = (Inr config, s1)"
        and "build_port_filter (AList.update ''net_namespace'' ns config) = Inr pf"
      by (auto simp: nl_build_probe_config_def set_user_filters_def bindE_def Let_def split: sum.splits prod.splits)
    moreover have "truthy (PList ports)" using assms(2) by (cases ports) (auto simp: truthy_def)
    ultimately obtain ps where "mapR py_int ports = Inr ps"
      using settings_kept [OF b, of "''includeports''"] assms(1)
      by (auto simp: build_port_filter_def dict_index_def update_conv' py_iter_def res_simps)
    with assms(2,3) show ?thesis by (induction ports arbitrary: ps) (auto simp: res_simps)
  qed blast
qed

lemma listen_accepts:
  assumes "has_buggy_headers p = Inr buggy" and "bcc_minor p = Inr minor"
    and "map_of (dict_merge (the (CONFIG_DEFAULTS NetListenProbe)) d) ''filters'' = Some (PList filters)"
    and "map_of (dict_merge (the (CONFIG_DEFAULTS NetListenProbe)) d) ''same_namespace_only'' = Some same"
    and "NetFilter bo (PList filters) = Inr nf"
    and "build_port_filter (dict_merge (the (CONFIG_DEFAULTS NetListenProbe)) d) = Inr pf"
  shows "accepts (\<lambda>d. nl_build_probe_config p bo readlink d True) d"
  unfolding accepts_def
proof
  fix s :: net_listen_probe
  let ?D = "dict_merge (the (CONFIG_DEFAULTS NetListenProbe)) d"
  obtain c where c: "template_settings NetListenProbe p ?D = Inr c" "map_of c ''filters'' = Some (PList filters)"
    using assms(1-3) by (simp add: template_settings_def NetListenProbe_def update_conv' delete_conv')
  then obtain config s1 where b: "build_probe_config NetListenProbe p d False s = (Inr config, s1)"
    by (simp add: build_probe_config_def NetListenProbe_def bindE_def dict_index_def map_settings_def py_len_def
        net_filter_map_size_def round_nearest_multiple_def NET_FILTER_MAP_SIZE_SCALING_def)
  note kept = settings_kept [OF b]
  have "dict_index (AList.update ''net_namespace'' ns config) ''includeports'' = dict_index ?D ''includeports''"
    "dict_index (AList.update ''net_namespace'' ns config) ''excludeports'' = dict_index ?D ''excludeports''" for ns
    using kept [of "''includeports''"] kept [of "''excludeports''"] by (simp_all add: dict_index_def update_conv')
  then have "build_port_filter (AList.update ''net_namespace'' ns config) = build_port_filter ?D" for ns
    by (simp only: build_port_filter_def)
  then show "\<exists>x. fst (nl_build_probe_config p bo readlink d True s) = Inr x"
    using b assms(3-6) kept [of "''filters''"] kept [of "''same_namespace_only''"]
    by (simp add: nl_build_probe_config_def set_user_filters_def bindE_def dict_index_def update_conv' Let_def)
qed

section \<open>From changed files to the kernel\<close>


definition example_maps :: "((cfilter_key \<times> cfilter_value) list, (i32 \<times> u8) list, unit) bpf_maps" where
  "example_maps = \<lparr>net_filter_map = [], port_filter_map = [], mntns_filter_map = ()\<rparr>"

lemma bounded_table_safe: "table_safe (bounded_table n)"
  by (auto simp: table_safe_def bounded_table_def safeE_def intro!: safe_rules split: option.split)

definition example_platform :: platform where
  "example_platform = \<lparr>kernel_release = ''5.4'', bccversion = ''0.1.2''\<rparr>"

lemma example_accepts:
  "accepts (\<lambda>d. nl_build_probe_config example_platform LittleEndian (\<lambda>_. Inl OSError) d True)
     [(''filters'', PList [hd example_filters])]"
proof (rule listen_accepts)
  show "has_buggy_headers example_platform = Inr False"
    by (simp add: has_buggy_headers_def example_platform_def int_of_str_def py_strip_def py_space_def octet_simps)
  show "bcc_minor example_platform = Inr 1"
    by (simp add: bcc_minor_def example_platform_def int_of_str_def py_strip_def py_space_def octet_simps)
  show "NetFilter LittleEndian (PList [hd example_filters]) =
      Inr [\<lparr>subnet = 127, netmask = 255, except_ports = {}, include_ports = {}\<rparr>]"
    by (simp add: NetFilter_def py_iter_def ip_port_filter_of_def py_ip_to_int_def int_set_def py_index_def py_get_def
        example_filters_def as_str_def example_addresses)
qed (simp_all add: NetListenProbe_def dict_merge_def build_port_filter_def dict_index_def truthy_def py_iter_def)


end
