(* ===== verification/Containers.thy ===== *)
theory Containers
  imports Prelude
begin

text \<open>
  \<^verbatim>\<open>pidtree_bcc/containers.py\<close>: running containers, their labels and mount namespaces.
  The command line tool of the container engine and the \<open>/proc\<close> file system are an
  argument (\<open>engine\<close>) whose calls may change and depend on the state of the world; what a
  call decodes to is a value of the kind JSON loads as. The two memoised functions carry their
  caches in the state, since what they remember is part of the behaviour.
\<close>

section \<open>Events and namespaces\<close>

datatype ContainerEventType = event_start | event_stop

record ContainerEvent =
  event_type :: ContainerEventType
  event_container_id :: string

record MountNSInfo =
  container_id :: string
  container_name :: string
  ns_id :: int
  info_event_type :: ContainerEventType

text \<open>The truth value of an event is that of its container.\<close>

definition event_truthy :: "ContainerEvent \<Rightarrow> bool" where
  "event_truthy e = (event_container_id e \<noteq> [])"

record 'w engine =
  run_inspect :: "string \<Rightarrow> ('w, pyval) eff"
  run_ps :: "string list \<Rightarrow> ('w, string) eff"
  stat_mntns :: "pyval \<Rightarrow> ('w, int) eff"

record 'w container_state =
  engine_world :: 'w
  inspect_cache :: "(string \<times> pyval) list"
  mntns_cache :: "((string \<times> bool) \<times> int) list"

section \<open>The client\<close>

definition CONTAINERD_NAMESPACE_VAR :: string where
  "CONTAINERD_NAMESPACE_VAR = ''CONTAINERD_NAMESPACE''"

definition DEFAULT_CONTAINERD_NAMESPACE :: string where
  "DEFAULT_CONTAINERD_NAMESPACE = ''k8s.io''"

text \<open>The tool to call, and the variable to set in the environment, if any.\<close>

definition detect_containerizer_client ::
    "(string \<Rightarrow> string option) \<Rightarrow> (string \<Rightarrow> bool) \<Rightarrow> string \<times> (string \<times> string) option" where
  "detect_containerizer_client getenv path_exists =
     (let ns = (case getenv CONTAINERD_NAMESPACE_VAR of None \<Rightarrow> DEFAULT_CONTAINERD_NAMESPACE | Some n \<Rightarrow> n)
      in if path_exists (''/var/run/containerd/io.containerd.runtime.v2.task/'' @ ns)
         then (''nerdctl'', Some (CONTAINERD_NAMESPACE_VAR, ns)) else (''docker'', None))"

definition is_line_end :: "char \<Rightarrow> bool" where
  "is_line_end c = (of_char c \<in> {10, 11, 12, 13, 28, 29, 30, 133 :: nat})"

fun splitlines_aux :: "string \<Rightarrow> string \<Rightarrow> string list" where
  "splitlines_aux acc [] = (if acc = [] then [] else [rev acc])"
| "splitlines_aux acc (c # cs) =
     (if is_line_end c
      then rev acc # (if c = CHR 0x0D \<and> cs \<noteq> [] \<and> hd cs = CHR 0x0A then splitlines_aux [] (tl cs)
                      else splitlines_aux [] cs)
      else splitlines_aux (c # acc) cs)"

definition splitlines :: "string \<Rightarrow> string list" where
  "splitlines s = splitlines_aux [] s"

definition on_world :: "('w, 'a) eff \<Rightarrow> ('w container_state, 'a) eff" where
  "on_world f s = (case f (engine_world s) of (r, w) \<Rightarrow> (r, s\<lparr>engine_world := w\<rparr>))"

definition list_containers :: "'w engine \<Rightarrow> string list \<Rightarrow> ('w container_state, string list) eff" where
  "list_containers en filter_labels s =
     (case on_world (run_ps en (concat (map (\<lambda>l. [''--filter'', ''label='' @ l]) filter_labels))) s of
        (Inr output, s') \<Rightarrow> (Inr (splitlines output), s')
      | (Inl e, s') \<Rightarrow> if is_Exception e then (Inr [], s') else (Inl e, s'))"

definition lstrip_slash :: "string \<Rightarrow> string" where
  "lstrip_slash s = dropWhile (\<lambda>c. c = CHR ''/'') s"

definition container_labels :: "pyval \<Rightarrow> pyval res" where
  "container_labels info = bindR (py_get info ''Config'' (PDict [])) (\<lambda>c. py_get c ''Labels'' (PDict []))"

text \<open>The values of the labels are strings in everything the engine prints.\<close>

definition extract_container_name :: "pyval \<Rightarrow> string res" where
  "extract_container_name inspect_data =
     bindR (py_get inspect_data ''Name'' (PStr [])) (\<lambda>v. case v of
         PStr n \<Rightarrow> if lstrip_slash n \<noteq> [] then Inr (lstrip_slash n)
           else bindR (container_labels inspect_data) (\<lambda>l.
                bindR (py_get l ''io.kubernetes.pod.name'' (PStr [])) as_str)
       | _ \<Rightarrow> Inl (AttributeError ''lstrip''))"

section \<open>Memoised functions\<close>

text \<open>
  \<open>functools.lru_cache\<close>: the most recently used entries first, an entry found moves to the
  front, a new one pushes out the last of a full cache, and a call that raises leaves no entry.
\<close>

definition cache_touch :: "'k \<Rightarrow> ('k \<times> 'v) list \<Rightarrow> ('k \<times> 'v) list" where
  "cache_touch k c = (case map_of c k of None \<Rightarrow> c | Some v \<Rightarrow> (k, v) # AList.delete k c)"

definition cache_store :: "nat \<Rightarrow> 'k \<Rightarrow> 'v \<Rightarrow> ('k \<times> 'v) list \<Rightarrow> ('k \<times> 'v) list" where
  "cache_store maxsize k v c = take maxsize ((k, v) # AList.delete k c)"

definition inspect_container :: "'w engine \<Rightarrow> string \<Rightarrow> ('w container_state, pyval) eff" where
  "inspect_container en sha s = (case map_of (inspect_cache s) sha of
       Some d \<Rightarrow> (Inr d, s\<lparr>inspect_cache := cache_touch sha (inspect_cache s)\<rparr>)
     | None \<Rightarrow> (case on_world (run_inspect en sha) s of
           (Inl e, s') \<Rightarrow> (Inl e, s')
         | (Inr d, s') \<Rightarrow> (Inr d, s'\<lparr>inspect_cache := cache_store 2048 sha d (inspect_cache s')\<rparr>)))"

definition is_zero :: "pyval \<Rightarrow> bool" where
  "is_zero v = (case v of PInt i \<Rightarrow> i = 0 | PBool b \<Rightarrow> \<not> b | PFloat q \<Rightarrow> q = 0 | _ \<Rightarrow> False)"

definition main_pid_of :: "pyval \<Rightarrow> pyval res" where
  "main_pid_of inspect_data = bindR (py_index inspect_data ''State'') (\<lambda>st. py_index st ''Pid'')"

definition stat_or_minus_one :: "'w engine \<Rightarrow> pyval \<Rightarrow> ('w container_state, int) eff" where
  "stat_or_minus_one en main_pid s = (case on_world (stat_mntns en main_pid) s of
       (Inr ino, s') \<Rightarrow> (Inr ino, s')
     | (Inl e, s') \<Rightarrow> if is_Exception e then (Inr (-1), s') else (Inl e, s'))"

text \<open>The body of the function; \<open>retry\<close> is the call it makes to itself.\<close>

definition mntns_id_body ::
    "'w engine \<Rightarrow> ('w container_state, int) eff \<Rightarrow> string \<Rightarrow> bool \<Rightarrow> ('w container_state, int) eff" where
  "mntns_id_body en retry sha second_try s =
     (case bindE (inspect_container en sha) (\<lambda>d. liftR (main_pid_of d)) s of
        (Inl e, s') \<Rightarrow> if is_Exception e then (Inr (-1), s') else (Inl e, s')
      | (Inr main_pid, s') \<Rightarrow>
          if is_zero main_pid \<and> \<not> second_try
          then (case retry s' of
                  (Inl e, s'') \<Rightarrow> if is_Exception e then (Inr (-1), s'') else (Inl e, s'')
                | r \<Rightarrow> r)
          else stat_or_minus_one en main_pid s')"

definition mntns_cached ::
    "('w container_state, int) eff \<Rightarrow> string \<Rightarrow> bool \<Rightarrow> ('w container_state, int) eff" where
  "mntns_cached f sha second_try s = (case map_of (mntns_cache s) (sha, second_try) of
       Some v \<Rightarrow> (Inr v, s\<lparr>mntns_cache := cache_touch (sha, second_try) (mntns_cache s)\<rparr>)
     | None \<Rightarrow> (case f s of
           (Inl e, s') \<Rightarrow> (Inl e, s')
         | (Inr v, s') \<Rightarrow> (Inr v, s'\<lparr>mntns_cache := cache_store 20000 (sha, second_try) v (mntns_cache s')\<rparr>)))"

definition get_container_mntns_id :: "'w engine \<Rightarrow> string \<Rightarrow> ('w container_state, int) eff" where
  "get_container_mntns_id en sha =
     mntns_cached (mntns_id_body en
       (mntns_cached (mntns_id_body en (raiseE (RuntimeError ''second try'')) sha True) sha True)
       sha False) sha False"

section \<open>Label patterns\<close>

text \<open>
  \<open>fnmatch.fnmatch\<close> on a POSIX host: \<open>*\<close>, \<open>?\<close> and character classes. A
  class ends at the first closing bracket that is not its first character; without one the
  opening bracket stands for itself.
\<close>

fun class_mem :: "char \<Rightarrow> string \<Rightarrow> bool" where
  "class_mem c [] = False"
| "class_mem c [a] = (c = a)"
| "class_mem c [a, b] = (c = a \<or> c = b)"
| "class_mem c (a # m # b # rest) =
     (if m = CHR ''-''
      then ((of_char a :: nat) \<le> of_char c \<and> (of_char c :: nat) \<le> of_char b) \<or> class_mem c rest
      else c = a \<or> class_mem c (m # b # rest))"

text \<open>What follows an opening bracket: whether it is negated, the class and the rest.\<close>

definition class_neg :: "string \<Rightarrow> bool" where
  "class_neg p = (case p of [] \<Rightarrow> False | c # _ \<Rightarrow> c = CHR ''!'')"

definition class_body :: "string \<Rightarrow> string" where
  "class_body p = (if class_neg p then tl p else p)"

definition class_lead :: "string \<Rightarrow> nat" where
  "class_lead body = (case body of [] \<Rightarrow> 0 | c # _ \<Rightarrow> if c = CHR '']'' then 1 else 0)"

definition class_split :: "string \<Rightarrow> (bool \<times> string \<times> string) option" where
  "class_split p =
     (let body = class_body p; n = class_lead body;
          rest = dropWhile (\<lambda>c. c \<noteq> CHR '']'') (drop n body)
      in if rest = [] then None
         else Some (class_neg p, take n body @ takeWhile (\<lambda>c. c \<noteq> CHR '']'') (drop n body), tl rest))"

lemma class_split_shorter: "class_split p = Some (neg, cls, rest) \<Longrightarrow> length rest < length p"
proof -
  assume h: "class_split p = Some (neg, cls, rest)"
  define after where "after = drop (class_lead (class_body p)) (class_body p)"
  define d where "d = dropWhile (\<lambda>c. c \<noteq> CHR '']'') after"
  from h have r: "d \<noteq> []" "rest = tl d"
    by (simp_all add: class_split_def Let_def after_def d_def split: if_split_asm)
  have "length rest < length d" using r by simp
  also have "\<dots> \<le> length after" unfolding d_def by (rule length_dropWhile_le)
  also have "\<dots> \<le> length p" by (simp add: after_def class_body_def)
  finally show ?thesis .
qed

function (sequential) fnmatch :: "string \<Rightarrow> string \<Rightarrow> bool" where
  "fnmatch [] name = (name = [])"
| "fnmatch (p # ps) name =
     (if p = CHR ''*'' then if name = [] then fnmatch ps [] else fnmatch ps name \<or> fnmatch (p # ps) (tl name)
      else if p = CHR ''?'' then if name = [] then False else fnmatch ps (tl name)
      else if p = CHR ''['' then (case class_split ps of
          Some (neg, cls, rest) \<Rightarrow> if name = [] then False else class_mem (hd name) cls \<noteq> neg \<and> fnmatch rest (tl name)
        | None \<Rightarrow> if name = [] then False else hd name = p \<and> fnmatch ps (tl name))
      else if name = [] then False else hd name = p \<and> fnmatch ps (tl name))"
  by pat_completeness auto
termination
  by (relation "measure (\<lambda>(p, n). length p + length n)") (auto dest!: class_split_shorter)

declare fnmatch.simps(2) [simp del]

text \<open>One set of patterns against the labels of a container, tested lazily in order.\<close>

fun match_all :: "pyval \<Rightarrow> string list list \<Rightarrow> bool res" where
  "match_all labels [] = Inr True"
| "match_all labels (pat # pats) = (case pat of
       [label_key, pattern] \<Rightarrow>
         (case labels of
            PDict d \<Rightarrow> (case map_of d label_key of
                None \<Rightarrow> Inr False
              | Some v \<Rightarrow> bindR (as_str v) (\<lambda>name.
                  if fnmatch pattern name then match_all labels pats else Inr False))
          | _ \<Rightarrow> Inl TypeError)
     | _ \<Rightarrow> Inl ValueError)"

fun match_any :: "pyval \<Rightarrow> string list list list \<Rightarrow> bool res" where
  "match_any labels [] = Inr False"
| "match_any labels (ps # pss) = bindR (match_all labels ps)
     (\<lambda>b. if b then Inr True else match_any labels pss)"

definition unpack_patterns :: "string list \<Rightarrow> string list list list" where
  "unpack_patterns patterns = map (\<lambda>ps. map (split_once (CHR ''='')) (split_on (CHR '','') ps)) patterns"

definition match_container :: "string list list list \<Rightarrow> pyval \<Rightarrow> string option res" where
  "match_container unpacked info =
     bindR (container_labels info) (\<lambda>labels.
     if \<not> truthy labels then Inr None
     else bindR (match_any labels unpacked) (\<lambda>b.
       if b then bindR (extract_container_name info) (\<lambda>n. Inr (Some n)) else Inr None))"

fun filter_loop ::
    "'w engine \<Rightarrow> string list list list \<Rightarrow> string list \<Rightarrow> ('w container_state, (string \<times> string) list) eff" where
  "filter_loop en unpacked [] = retE []"
| "filter_loop en unpacked (cid # cids) = (\<lambda>s.
     case bindE (inspect_container en cid) (\<lambda>info. liftR (match_container unpacked info)) s of
       (Inl e, s') \<Rightarrow> if is_Exception e then filter_loop en unpacked cids s' else (Inl e, s')
     | (Inr m, s') \<Rightarrow> bindE (filter_loop en unpacked cids) (\<lambda>rest.
         retE (case m of None \<Rightarrow> rest | Some n \<Rightarrow> (cid, n) # rest)) s')"

definition filter_containers_with_label_patterns ::
    "'w engine \<Rightarrow> string list \<Rightarrow> string list \<Rightarrow> ('w container_state, (string \<times> string) list) eff" where
  "filter_containers_with_label_patterns en container_ids patterns =
     filter_loop en (unpack_patterns patterns) container_ids"

section \<open>Namespaces of the selected containers\<close>

fun namespaces_of :: "'w engine \<Rightarrow> (string \<times> string) list \<Rightarrow> ('w container_state, MountNSInfo list) eff" where
  "namespaces_of en [] = retE []"
| "namespaces_of en ((cid, name) # rest) =
     (if cid = [] then namespaces_of en rest
      else bindE (get_container_mntns_id en cid) (\<lambda>ns.
           bindE (namespaces_of en rest) (\<lambda>infos.
           retE (if 0 < ns
                 then \<lparr>container_id = cid, container_name = name, ns_id = ns, info_event_type = event_start\<rparr> # infos
                 else infos))))"

text \<open>The result is a set; the list holds its elements, each once.\<close>

definition list_container_mnt_namespaces ::
    "'w engine \<Rightarrow> string list \<Rightarrow> ('w container_state, string list) eff \<Rightarrow> ('w container_state, MountNSInfo list) eff" where
  "list_container_mnt_namespaces en patterns generator =
     bindE generator (\<lambda>ids.
     bindE (filter_containers_with_label_patterns en ids patterns) (\<lambda>found.
     bindE (namespaces_of en found) (\<lambda>infos. retE (remdups infos))))"

text \<open>What the monitor yields for one event of the engine.\<close>

definition monitor_event ::
    "'w engine \<Rightarrow> string list \<Rightarrow> ContainerEvent \<Rightarrow> ('w container_state, MountNSInfo list) eff" where
  "monitor_event en patterns event =
     (if event_type event = event_start
      then list_container_mnt_namespaces en patterns (retE [event_container_id event])
      else retE [\<lparr>container_id = event_container_id event, container_name = [], ns_id = 0,
                  info_event_type = event_type event\<rparr>])"

section \<open>The event stream\<close>

definition blank :: "string \<Rightarrow> bool" where
  "blank line = (py_strip line = [])"

text \<open>
  The decoded lines of the tool's output, up to the first that does not decode: that error ends
  the stream quietly.
\<close>

fun tail_json :: "(string \<Rightarrow> pyval res) \<Rightarrow> string list \<Rightarrow> pyval list" where
  "tail_json loads [] = []"
| "tail_json loads (line # lines) =
     (if blank line then tail_json loads lines
      else (case loads line of Inl _ \<Rightarrow> [] | Inr v \<Rightarrow> v # tail_json loads lines))"

definition docker_event :: "pyval \<Rightarrow> ContainerEvent res" where
  "docker_event event =
     bindR (py_get event ''status'' (PStr [])) (\<lambda>status.
     bindR (bindR (py_get event ''id'' (PStr [])) as_str) (\<lambda>cid.
     Inr \<lparr>event_type = (if status = PStr ''start'' then event_start else event_stop),
          event_container_id = cid\<rparr>))"

definition nerdctl_event :: "pyval \<Rightarrow> ContainerEvent res" where
  "nerdctl_event event =
     bindR (py_get event ''Topic'' (PStr [])) (\<lambda>t. case t of
         PStr topic \<Rightarrow> bindR (bindR (py_get event ''ID'' (PStr [])) as_str) (\<lambda>cid.
           Inr \<lparr>event_type = (if endswith topic ''start'' then event_start else event_stop),
                event_container_id = cid\<rparr>)
       | _ \<Rightarrow> Inl (AttributeError ''endswith''))"

definition event_extractor :: "string \<Rightarrow> pyval \<Rightarrow> ContainerEvent res" where
  "event_extractor client_cli = (if client_cli = ''docker'' then docker_event else nerdctl_event)"

text \<open>One run of the tool: the events it yields, and the error that ends the generator, if any.\<close>

fun extract_events :: "(pyval \<Rightarrow> ContainerEvent res) \<Rightarrow> pyval list \<Rightarrow> ContainerEvent list \<times> exn option" where
  "extract_events extractor [] = ([], None)"
| "extract_events extractor (v # vs) = (case extractor v of
       Inl e \<Rightarrow> ([], Some e)
     | Inr res \<Rightarrow> (case extract_events extractor vs of (evs, err) \<Rightarrow>
         (if event_truthy res then res # evs else evs, err)))"

text \<open>The command line that is tailed, and whether a shell runs it.\<close>

definition event_command :: "string \<Rightarrow> string \<times> bool" where
  "event_command client_cli =
     (let use_shell = (client_cli \<noteq> ''docker'');
          event_filters = (if client_cli = ''docker'' then ''--filter type=container --filter event=start --filter event=die''
                           else ''| grep --line-buffered -E '' @ [CHR 39] @ ''/tasks/(start|delete)'' @ [CHR 39])
      in (client_cli @ '' events --format '' @ [CHR 39] @ ''{{json .}}'' @ [CHR 39, CHR '' ''] @ event_filters, use_shell))"

text \<open>
  The tool is started again whenever its output ends. The argument is what each run of it prints;
  the result what the generator yields over these runs.
\<close>

fun monitor_container_events ::
    "string \<Rightarrow> (string \<Rightarrow> pyval res) \<Rightarrow> string list list \<Rightarrow> ContainerEvent list \<times> exn option" where
  "monitor_container_events client_cli loads [] = ([], None)"
| "monitor_container_events client_cli loads (lines # runs) =
     (case extract_events (event_extractor client_cli) (tail_json loads lines) of
        (evs, Some e) \<Rightarrow> (evs, Some e)
      | (evs, None) \<Rightarrow> (case monitor_container_events client_cli loads runs of (evs', err) \<Rightarrow> (evs @ evs', err)))"

text \<open>
  A line that is not JSON ends its run only: while the events have the fields the extractor reads,
  those of every run come out in order up to its first such line.
\<close>

lemma extract_events_all:
  "\<forall>v \<in> set vs. \<exists>ev. extractor v = Inr ev \<Longrightarrow>
     extract_events extractor vs = (filter event_truthy (map (\<lambda>v. projr (extractor v)) vs), None)"
  by (induction vs) auto

lemma monitor_container_events_all:
  assumes "\<forall>lines \<in> set runs. \<forall>v \<in> set (tail_json loads lines). \<exists>ev. event_extractor client_cli v = Inr ev"
  shows "monitor_container_events client_cli loads runs =
    (filter event_truthy (map (\<lambda>v. projr (event_extractor client_cli v)) (concat (map (tail_json loads) runs))), None)"
  using assms by (induction runs) (simp_all add: extract_events_all)

section \<open>Patterns\<close>

definition literal :: "string \<Rightarrow> bool" where
  "literal p = list_all (\<lambda>c. c \<noteq> CHR ''*'' \<and> c \<noteq> CHR ''?'' \<and> c \<noteq> CHR ''['') p"

lemma fnmatch_star: "fnmatch ''*'' name"
  by (induction name) (simp_all add: fnmatch.simps(2))

lemma fnmatch_literal_append: "literal p \<Longrightarrow> fnmatch (p @ q) name = (\<exists>rest. name = p @ rest \<and> fnmatch q rest)"
proof (induction p arbitrary: name)
  case Nil
  then show ?case by simp
next
  case (Cons c p)
  then show ?case by (cases name) (auto simp: literal_def fnmatch.simps(2))
qed

lemma fnmatch_literal: "literal p \<Longrightarrow> fnmatch p name = (name = p)"
  using fnmatch_literal_append [of p "[]" name] by auto

text \<open>
  A label pattern without special characters matches the label that equals it and no
  other; followed by a star it matches exactly the labels that start with it.
\<close>

theorem fnmatch_literal_prefix:
  assumes "literal p"
  shows "fnmatch p name = (name = p) \<and> fnmatch (p @ ''*'') name = startswith name p"
proof -
  have "fnmatch p name = (name = p)" using assms by (rule fnmatch_literal)
  moreover have "(\<exists>rest. name = p @ rest) = startswith name p"
    by (metis append_take_drop_id append_eq_conv_conj startswith_def)
  then have "fnmatch (p @ ''*'') name = startswith name p"
    using fnmatch_literal_append [OF assms, of "''*''" name] fnmatch_star by auto
  ultimately show ?thesis ..
qed

theorem fnmatch_literal_prefix_witness:
  "fnmatch ''app-main'' ''app-main'' \<and> fnmatch (''app-'' @ ''*'') ''app-main'' \<and> \<not> fnmatch (''app-'' @ ''*'') ''web''"
  using fnmatch_literal_prefix [of "''app-main''" "''app-main''"] fnmatch_literal_prefix [of "''app-''" "''app-main''"]
    fnmatch_literal_prefix [of "''app-''" "''web''"]
  by (simp add: literal_def startswith_def)

section \<open>Memoisation is transparent\<close>

text \<open>
  What the code relies on a cache for: reusing an entry and storing one keep the cache well formed
  and never make up an entry. Entries may disappear at any time.
\<close>

locale memo_cache =
  fixes find :: "'c \<Rightarrow> 'k \<Rightarrow> 'v option"
    and touch :: "'k \<Rightarrow> 'c \<Rightarrow> 'c"
    and store :: "'k \<Rightarrow> 'v \<Rightarrow> 'c \<Rightarrow> 'c"
    and inv :: "'c \<Rightarrow> bool"
  assumes touch_inv: "inv c \<Longrightarrow> inv (touch k c)"
    and touch_find: "inv c \<Longrightarrow> find (touch k c) \<subseteq>\<^sub>m find c"
    and store_inv: "inv c \<Longrightarrow> inv (store k v c)"
    and store_find: "inv c \<Longrightarrow> find (store k v c) \<subseteq>\<^sub>m (find c)(k \<mapsto> v)"
begin

definition sound :: "('k \<Rightarrow> 'v res) \<Rightarrow> 'c \<Rightarrow> bool" where
  "sound f c = (inv c \<and> (\<forall>k v. find c k = Some v \<longrightarrow> f k = Inr v))"

lemma sound_touch: "sound f c \<Longrightarrow> sound f (touch k c)"
  using touch_find [of c k] touch_inv by (auto simp: sound_def map_le_def dom_def)

lemma sound_store:
  assumes "sound f c" and "f k = Inr v"
  shows "sound f (store k v c)"
proof -
  have "f k' = Inr v'" if "find (store k v c) k' = Some v'" for k' v'
  proof -
    have "((find c)(k \<mapsto> v)) k' = Some v'"
      using store_find [of c k v] assms(1) that by (force simp: sound_def map_le_def dom_def)
    then show ?thesis using assms by (auto simp: sound_def split: if_splits)
  qed
  then show ?thesis using assms(1) store_inv by (simp add: sound_def)
qed

end

definition lru_inv :: "nat \<Rightarrow> ('k \<times> 'v) list \<Rightarrow> bool" where
  "lru_inv maxsize c = (length c \<le> maxsize \<and> distinct (map fst c))"

lemma lru_delete_notin: "k \<notin> fst ` set (AList.delete k c)"
  by (auto simp: AList.delete_eq)

lemma map_of_take_le: "distinct (map fst c) \<Longrightarrow> map_of (take n c) \<subseteq>\<^sub>m map_of c"
proof -
  assume d: "distinct (map fst c)"
  have "map_of c a = Some y" if "map_of (take n c) a = Some y" for a y
    using d map_of_SomeD [OF that] by (auto dest: in_set_takeD)
  then show ?thesis by (auto simp: map_le_def)
qed

interpretation lru: memo_cache map_of cache_touch "cache_store n" "lru_inv n"
proof unfold_locales
  fix c :: "('k \<times> 'v) list" and k v
  assume i: "lru_inv n c"
  show "lru_inv n (cache_touch k c)"
  proof (cases "map_of c k")
    case (Some w)
    then have "length (AList.delete k c) < length c"
      unfolding AList.delete_eq by (intro length_filter_less [of "(k, w)"]) (auto dest: map_of_SomeD)
    with Some i show ?thesis
      using lru_delete_notin [of k c] by (simp add: lru_inv_def cache_touch_def distinct_delete)
  qed (use i in \<open>simp add: cache_touch_def\<close>)
  show "map_of (cache_touch k c) \<subseteq>\<^sub>m map_of c"
    by (auto simp: cache_touch_def map_le_def delete_conv' dom_def split: option.splits)
  have d: "distinct (map fst ((k, v) # AList.delete k c))"
    using i lru_delete_notin [of k c] by (simp add: lru_inv_def distinct_delete)
  show "lru_inv n (cache_store n k v c)"
    using d unfolding lru_inv_def cache_store_def take_map [symmetric] by (simp only: distinct_take) simp
  have "map_of (cache_store n k v c) \<subseteq>\<^sub>m map_of ((k, v) # AList.delete k c)"
    unfolding cache_store_def by (rule map_of_take_le [OF d])
  also have "map_of ((k, v) # AList.delete k c) = (map_of c)(k \<mapsto> v)"
    by (auto simp: delete_conv' fun_eq_iff)
  finally show "map_of (cache_store n k v c) \<subseteq>\<^sub>m (map_of c)(k \<mapsto> v)" .
qed

text \<open>An engine whose answers do not change, and a sound cache of them.\<close>

definition steady :: "'w engine \<Rightarrow> (string \<Rightarrow> pyval res) \<Rightarrow> bool" where
  "steady en info = (\<forall>sha w. \<exists>w'. run_inspect en sha w = (info sha, w'))"

definition cache_ok :: "(string \<Rightarrow> pyval res) \<Rightarrow> 'w container_state \<Rightarrow> bool" where
  "cache_ok info s = (lru_inv 2048 (inspect_cache s) \<and>
     list_all (\<lambda>(k, d). info k = Inr d) (inspect_cache s))"

lemma cache_ok_sound: "cache_ok info s = lru.sound 2048 info (inspect_cache s)"
  by (auto simp: cache_ok_def lru.sound_def lru_inv_def list_all_iff)

lemma inspect_container_steady:
  assumes "steady en info" and "cache_ok info s"
  shows "\<exists>s'. inspect_container en sha s = (info sha, s') \<and> cache_ok info s'"
proof -
  have snd: "lru.sound 2048 info (inspect_cache s)" using assms(2) by (simp add: cache_ok_sound)
  obtain w' where w': "run_inspect en sha (engine_world s) = (info sha, w')"
    using assms(1) by (auto simp: steady_def)
  show ?thesis
  proof (cases "map_of (inspect_cache s) sha")
    case (Some d)
    then have "info sha = Inr d" using snd by (simp add: lru.sound_def)
    with Some lru.sound_touch [OF snd] show ?thesis by (simp add: inspect_container_def cache_ok_sound)
  next
    case None
    with w' snd lru.sound_store [OF snd] show ?thesis
      by (cases "info sha") (simp_all add: inspect_container_def on_world_def cache_ok_sound)
  qed
qed

text \<open>The containers to attach to, from the engine's answers alone.\<close>

definition selected :: "(string \<Rightarrow> pyval res) \<Rightarrow> string list \<Rightarrow> string list \<Rightarrow> (string \<times> string) list" where
  "selected info ids patterns = concat (map (\<lambda>cid.
     case bindR (info cid) (match_container (unpack_patterns patterns)) of
       Inr (Some name) \<Rightarrow> [(cid, name)] | _ \<Rightarrow> []) ids)"

text \<open>Nothing that is tried on an answer can leave the loop.\<close>

definition only_Exception :: "'a res \<Rightarrow> bool" where
  "only_Exception r = (case r of Inl e \<Rightarrow> is_Exception e | Inr _ \<Rightarrow> True)"

lemma only_Exception_simps [simp]:
  "only_Exception (Inr x)" "only_Exception (Inl e) = is_Exception e"
  by (simp_all add: only_Exception_def)

lemma only_Exception_bind [intro]:
  "only_Exception r \<Longrightarrow> (\<And>x. r = Inr x \<Longrightarrow> only_Exception (f x)) \<Longrightarrow> only_Exception (bindR r f)"
  by (cases r) auto

lemma only_Exception_base [simp, intro]:
  "only_Exception (py_get v k x)" "only_Exception (as_str v)"
  by (auto simp: py_get_def as_str_def is_Exception_def split: pyval.splits)

lemma only_Exception_match_all: "only_Exception (match_all l ps)"
  by (induction l ps rule: match_all.induct)
     (auto simp: is_Exception_def split: list.splits pyval.splits option.splits)

lemma only_Exception_match_any: "only_Exception (match_any l pss)"
  by (induction l pss rule: match_any.induct) (auto intro: only_Exception_match_all)

lemma only_Exception_labels: "only_Exception (container_labels d)"
  by (auto simp: container_labels_def)

lemma only_Exception_name: "only_Exception (extract_container_name d)"
  unfolding extract_container_name_def
  by (rule only_Exception_bind)
     (auto simp: is_Exception_def intro: only_Exception_labels split: pyval.split)

lemma only_Exception_match: "only_Exception (match_container u d)"
  unfolding match_container_def
  by (auto intro!: only_Exception_bind only_Exception_labels only_Exception_match_any only_Exception_name)

lemma filter_loop_selected:
  assumes "steady en info" and "\<And>sha. only_Exception (info sha)"
  shows "cache_ok info s \<Longrightarrow>
    \<exists>s'. filter_loop en (unpack_patterns patterns) ids s = (Inr (selected info ids patterns), s') \<and> cache_ok info s'"
proof (induction ids arbitrary: s)
  case Nil
  then show ?case by (simp add: selected_def)
next
  case (Cons cid cids)
  obtain s1 where s1: "inspect_container en cid s = (info cid, s1)" "cache_ok info s1"
    using inspect_container_steady [OF assms(1) Cons.prems] by blast
  obtain s2 where s2: "filter_loop en (unpack_patterns patterns) cids s1 = (Inr (selected info cids patterns), s2)"
      "cache_ok info s2" using Cons.IH [OF s1(2)] by blast
  let ?r = "bindR (info cid) (match_container (unpack_patterns patterns))"
  have "only_Exception ?r" using assms(2) only_Exception_match by blast
  then have ex: "\<And>e. ?r = Inl e \<Longrightarrow> is_Exception e" by simp
  have step: "bindE (inspect_container en cid) (\<lambda>i. liftR (match_container (unpack_patterns patterns) i)) s = (?r, s1)"
    using s1(1) by (cases "info cid") (simp_all add: bindE_def)
  have sel: "selected info (cid # cids) patterns =
      (case ?r of Inr (Some n) \<Rightarrow> [(cid, n)] | _ \<Rightarrow> []) @ selected info cids patterns"
    by (simp add: selected_def)
  show ?case
  proof (cases ?r)
    case (Inl e)
    with ex have "is_Exception e" by simp
    with Inl step s2 show ?thesis unfolding sel by simp
  next
    case (Inr m)
    with step s2 show ?thesis unfolding sel by (cases m) (simp_all add: bindE_def)
  qed
qed

text \<open>
  What a container is selected by, written down apart from the code: its labels satisfy one of the
  pattern sets when each \<open>key=pattern\<close> of the set names a label whose value matches. It is
  shown by its name without leading slashes, or by the label of its pod.
\<close>

definition label_item :: "(string \<times> string) list \<Rightarrow> string \<Rightarrow> bool" where
  "label_item ls item = (\<exists>key pattern v. item = key @ CHR ''='' # pattern \<and> CHR ''='' \<notin> set key \<and>
     map_of ls key = Some v \<and> fnmatch pattern v)"

definition label_selected :: "string list \<Rightarrow> (string \<times> string) list \<Rightarrow> bool" where
  "label_selected patterns ls = (\<exists>ps \<in> set patterns. \<forall>item \<in> set (split_on (CHR '','') ps). label_item ls item)"

definition displayed :: "string \<Rightarrow> (string \<times> string) list \<Rightarrow> string" where
  "displayed name ls = (let n = dropWhile (\<lambda>c. c = CHR ''/'') name in if n \<noteq> [] then n
     else case map_of ls ''io.kubernetes.pod.name'' of None \<Rightarrow> [] | Some v \<Rightarrow> v)"

text \<open>
  The engine's answers: a container has a name and labels, in the fields where the engine prints
  them, or inspecting it raises.
\<close>

definition inspect_answer :: "string \<times> (string \<times> string) list \<Rightarrow> pyval \<Rightarrow> bool" where
  "inspect_answer nl d = (\<exists>dd c. d = PDict dd \<and> map_of dd ''Name'' = Some (PStr (fst nl)) \<and>
     map_of dd ''Config'' = Some (PDict c) \<and>
     map_of c ''Labels'' = Some (PDict (map (\<lambda>(k, v). (k, PStr v)) (snd nl))))"

definition describes :: "(string \<Rightarrow> pyval res) \<Rightarrow> (string \<Rightarrow> (string \<times> (string \<times> string) list) option) \<Rightarrow> bool" where
  "describes info answers = (\<forall>sha. case answers sha of
       None \<Rightarrow> \<exists>e. info sha = Inl e \<and> is_Exception e
     | Some nl \<Rightarrow> \<exists>d. info sha = Inr d \<and> inspect_answer nl d)"

lemma key_split:
  "c \<notin> set k \<Longrightarrow> c \<notin> set k' \<Longrightarrow> (k @ c # p = k' @ c # p') = (k = k' \<and> p = p')"
proof (induction k arbitrary: k')
  case Nil
  then show ?case by (cases k') auto
next
  case (Cons a k)
  then show ?case by (cases k') auto
qed

lemma split_once_eq:
  assumes "CHR ''='' \<in> set item"
  shows "\<exists>key pattern. split_once (CHR ''='') item = [key, pattern] \<and> item = key @ CHR ''='' # pattern \<and> CHR ''='' \<notin> set key"
proof -
  obtain key pattern where i: "item = key @ CHR ''='' # pattern" "CHR ''='' \<notin> set key"
    using split_list_first [OF assms] by blast
  then have "dropWhile (\<lambda>x. x \<noteq> CHR ''='') item = CHR ''='' # pattern" "takeWhile (\<lambda>x. x \<noteq> CHR ''='') item = key"
    by (auto simp: dropWhile_append takeWhile_append)
  with i show ?thesis by (simp add: split_once_def)
qed

lemma match_all_items:
  "\<forall>item \<in> set items. CHR ''='' \<in> set item \<Longrightarrow>
     match_all (PDict (map (\<lambda>(k, v). (k, PStr v)) ls)) (map (split_once (CHR ''='')) items) = Inr (\<forall>item \<in> set items. label_item ls item)"
proof (induction items)
  case (Cons item items)
  then obtain key pattern where i: "split_once (CHR ''='') item = [key, pattern]"
      "item = key @ CHR ''='' # pattern" "CHR ''='' \<notin> set key" using split_once_eq [of item] by auto
  have "label_item ls item = (\<exists>v. map_of ls key = Some v \<and> fnmatch pattern v)"
  proof
    assume "label_item ls item"
    then obtain k p v where l: "item = k @ CHR ''='' # p" "CHR ''='' \<notin> set k" "map_of ls k = Some v" "fnmatch p v"
      by (auto simp: label_item_def)
    with i have "k = key \<and> p = pattern" using key_split [of "CHR ''=''" k key p pattern] by simp
    with l show "\<exists>v. map_of ls key = Some v \<and> fnmatch pattern v" by blast
  qed (use i in \<open>auto simp: label_item_def\<close>)
  with i(1) Cons show ?case by (auto simp: map_of_map as_str_def split: option.split)
qed simp

lemma match_any_sets:
  assumes "\<forall>ps \<in> set patterns. \<forall>item \<in> set (split_on (CHR '','') ps). CHR ''='' \<in> set item"
  shows "match_any (PDict (map (\<lambda>(k, v). (k, PStr v)) ls)) (unpack_patterns patterns) = Inr (label_selected patterns ls)"
  using assms by (induction patterns) (auto simp: unpack_patterns_def label_selected_def match_all_items)

lemma match_container_answer:
  assumes "inspect_answer (name, ls) d"
    and "\<forall>ps \<in> set patterns. \<forall>item \<in> set (split_on (CHR '','') ps). CHR ''='' \<in> set item"
  shows "match_container (unpack_patterns patterns) d =
    Inr (if label_selected patterns ls then Some (displayed name ls) else None)"
proof -
  obtain dd c where d: "d = PDict dd" "map_of dd ''Name'' = Some (PStr name)" "map_of dd ''Config'' = Some (PDict c)"
      "map_of c ''Labels'' = Some (PDict (map (\<lambda>(k, v). (k, PStr v)) ls))"
    using assms(1) by (auto simp: inspect_answer_def)
  have labels: "container_labels d = Inr (PDict (map (\<lambda>(k, v). (k, PStr v)) ls))"
    using d by (simp add: container_labels_def py_get_def)
  have "extract_container_name d = Inr (displayed name ls)"
  proof (cases "lstrip_slash name = []")
    case True
    have "bindR (py_get (PDict (map (\<lambda>(k, v). (k, PStr v)) ls)) ''io.kubernetes.pod.name'' (PStr [])) as_str =
        Inr (case map_of ls ''io.kubernetes.pod.name'' of None \<Rightarrow> [] | Some v \<Rightarrow> v)"
      by (simp add: py_get_def as_str_def map_of_map split: option.split)
    moreover have "py_get d ''Name'' (PStr []) = Inr (PStr name)" using d(1,2) by (simp add: py_get_def)
    ultimately show ?thesis using True labels
      by (simp add: extract_container_name_def displayed_def lstrip_slash_def Let_def)
  next
    case False
    with d(1,2) show ?thesis
      by (simp add: extract_container_name_def displayed_def lstrip_slash_def py_get_def Let_def)
  qed
  moreover have "\<not> label_selected patterns []"
  proof -
    have "\<not> label_item [] item" for item by (simp add: label_item_def)
    moreover have "\<exists>item. item \<in> set (split_on (CHR '','') ps)" for ps
      using split_on_not_Nil [of "CHR '',''" ps] by (cases "split_on (CHR '','') ps") auto
    ultimately show ?thesis by (auto simp: label_selected_def)
  qed
  ultimately show ?thesis
    using match_any_sets [OF assms(2), of ls] labels by (cases ls) (simp_all add: match_container_def truthy_def)
qed

text \<open>
  Property C29. The label filter selects, in order, exactly the containers whose labels satisfy one
  of the pattern sets, that is every \<open>key=pattern\<close> of it, each with the name it is shown by,
  however full the cache is and whatever it has evicted; a container whose inspection raises is left
  out. This is for patterns that all have an equals sign, and for an engine whose answers are steady
  and have the fields it prints.
\<close>

theorem filter_containers_selected:
  assumes "steady en info" and "describes info answers" and "cache_ok info s"
    and "\<forall>ps \<in> set patterns. \<forall>item \<in> set (split_on (CHR '','') ps). CHR ''='' \<in> set item"
  shows "\<exists>s'. filter_containers_with_label_patterns en ids patterns s =
      (Inr (concat (map (\<lambda>cid. case answers cid of
          None \<Rightarrow> []
        | Some (name, ls) \<Rightarrow> if label_selected patterns ls then [(cid, displayed name ls)] else []) ids)), s') \<and>
    cache_ok info s'"
proof -
  have answer: "case answers sha of None \<Rightarrow> \<exists>e. info sha = Inl e \<and> is_Exception e
      | Some nl \<Rightarrow> \<exists>d. info sha = Inr d \<and> inspect_answer nl d" for sha
    using assms(2) by (simp add: describes_def)
  have "only_Exception (info sha)" for sha using answer [of sha] by (auto split: option.splits)
  from filter_loop_selected [OF assms(1) this assms(3)] obtain s' where
    "filter_containers_with_label_patterns en ids patterns s = (Inr (selected info ids patterns), s')" "cache_ok info s'"
    unfolding filter_containers_with_label_patterns_def by blast
  moreover have "(case bindR (info cid) (match_container (unpack_patterns patterns)) of
      Inr (Some name) \<Rightarrow> [(cid, name)] | _ \<Rightarrow> []) = (case answers cid of
        None \<Rightarrow> [] | Some (name, ls) \<Rightarrow> if label_selected patterns ls then [(cid, displayed name ls)] else [])" for cid
    using answer [of cid] match_container_answer [OF _ assms(4)] by (fastforce split: option.splits)
  ultimately show ?thesis by (simp add: selected_def)
qed

text \<open>An engine that knows two containers and fails on any other.\<close>

definition example_info :: "string \<Rightarrow> pyval res" where
  "example_info sha =
     (if sha = ''c1'' then Inr (PDict [(''Name'', PStr ''/web''),
        (''Config'', PDict [(''Labels'', PDict [(''app'', PStr ''web-front''), (''tier'', PStr ''prod'')])])])
      else if sha = ''c2'' then Inr (PDict [(''Name'', PStr ''/db''),
        (''Config'', PDict [(''Labels'', PDict [(''app'', PStr ''db'')])])])
      else Inl OSError)"

definition example_engine :: "unit engine" where
  "example_engine = \<lparr>run_inspect = (\<lambda>sha w. (example_info sha, w)), run_ps = (\<lambda>_ w. (Inr [], w)),
     stat_mntns = (\<lambda>_ w. (Inr 7, w))\<rparr>"

definition example_containers :: "unit container_state" where
  "example_containers = \<lparr>engine_world = (), inspect_cache = [], mntns_cache = []\<rparr>"

definition example_answers :: "string \<Rightarrow> (string \<times> (string \<times> string) list) option" where
  "example_answers sha =
     (if sha = ''c1'' then Some (''/web'', [(''app'', ''web-front''), (''tier'', ''prod'')])
      else if sha = ''c2'' then Some (''/db'', [(''app'', ''db'')]) else None)"

lemma label_item_iff:
  "CHR ''='' \<notin> set key \<Longrightarrow> label_item ls (key @ CHR ''='' # pattern) = (\<exists>v. map_of ls key = Some v \<and> fnmatch pattern v)"
  by (auto simp: label_item_def key_split)

theorem filter_containers_selected_witness:
  "\<exists>s'. filter_containers_with_label_patterns example_engine [''c1'', ''c2'', ''gone'']
      [''app=api'', ''app=web-*,tier=prod''] example_containers = (Inr [(''c1'', ''web'')], s')"
proof -
  have "steady example_engine example_info" by (simp add: steady_def example_engine_def)
  moreover have "describes example_info example_answers"
    by (simp add: describes_def example_info_def example_answers_def inspect_answer_def is_Exception_def)
  moreover have "cache_ok example_info example_containers"
    by (simp add: cache_ok_def example_containers_def lru_inv_def)
  moreover have items: "label_item ls ''app=api'' = (map_of ls ''app'' = Some ''api'')"
    "label_item ls ''app=web-*'' = (\<exists>v. map_of ls ''app'' = Some v \<and> fnmatch ''web-*'' v)"
    "label_item ls ''tier=prod'' = (map_of ls ''tier'' = Some ''prod'')" for ls
    using label_item_iff [of "''app''" ls "''api''"] label_item_iff [of "''app''" ls "''web-*''"]
      label_item_iff [of "''tier''" ls "''prod''"]
    by (auto simp: literal_def fnmatch_literal)
  moreover have "fnmatch ''web-*'' ''web-front''" by (simp add: fnmatch.simps)
  ultimately show ?thesis
    using filter_containers_selected [of example_engine example_info example_answers example_containers
        "[''app=api'', ''app=web-*,tier=prod'']" "[''c1'', ''c2'', ''gone'']"]
    by (auto simp: example_answers_def label_selected_def displayed_def)
qed

section \<open>Namespaces come from the first inspection\<close>

text \<open>
  What the code asks for a container's namespace is remembered under two keys, for the first and
  the second try; a container whose main process is 0 when it is inspected gets -1 under both.
\<close>

lemma mntns_cache_hit:
  "map_of (mntns_cache s) (sha, False) = Some v \<Longrightarrow> fst (get_container_mntns_id en sha s) = Inr v"
  by (simp add: get_container_mntns_id_def mntns_cached_def [of _ sha False])

lemma cache_store_hit: "0 < n \<Longrightarrow> map_of (cache_store n k v c) k = Some v"
  by (cases n) (simp_all add: cache_store_def)

lemma inspect_hit:
  "map_of (inspect_cache s) sha = Some d \<Longrightarrow>
     \<exists>c. inspect_container en sha s = (Inr d, s\<lparr>inspect_cache := c\<rparr>) \<and> map_of c sha = Some d"
  by (intro exI [of _ "cache_touch sha (inspect_cache s)"]) (simp add: inspect_container_def cache_touch_def)

lemma early_mntns:
  assumes "map_of (inspect_cache s) sha = Some d" and "main_pid_of d = Inr (PInt 0)"
    and "\<And>w. \<exists>e. fst (stat_mntns en (PInt 0) w) = Inl e \<and> is_Exception e"
    and "map_of (mntns_cache s) (sha, False) = None" and "map_of (mntns_cache s) (sha, True) = None"
  shows "\<exists>s'. get_container_mntns_id en sha s = (Inr (-1), s') \<and> map_of (mntns_cache s') (sha, False) = Some (-1)"
proof -
  obtain c1 where i1: "inspect_container en sha s = (Inr d, s\<lparr>inspect_cache := c1\<rparr>)" "map_of c1 sha = Some d"
    using inspect_hit [OF assms(1)] by blast
  let ?s1 = "s\<lparr>inspect_cache := c1\<rparr>"
  have "map_of (inspect_cache ?s1) sha = Some d" using i1(2) by simp
  from inspect_hit [OF this] obtain c2 where i2: "inspect_container en sha ?s1 = (Inr d, ?s1\<lparr>inspect_cache := c2\<rparr>)"
    by blast
  obtain e w where st: "stat_mntns en (PInt 0) (engine_world s) = (Inl e, w)" "is_Exception e"
    using assms(3) [of "engine_world s"] by (metis prod.collapse)
  let ?s2 = "?s1\<lparr>inspect_cache := c2, engine_world := w\<rparr>"
  have "mntns_id_body en r sha True ?s1 = (Inr (-1), ?s2)" for r
    using i2 assms(2) st by (simp add: mntns_id_body_def bindE_def stat_or_minus_one_def on_world_def)
  then have second: "mntns_cached (mntns_id_body en r sha True) sha True ?s1 =
      (Inr (-1), ?s2\<lparr>mntns_cache := cache_store 20000 (sha, True) (-1) (mntns_cache s)\<rparr>)" for r
    using assms(5) by (simp add: mntns_cached_def)
  have "mntns_id_body en (mntns_cached (mntns_id_body en r sha True) sha True) sha False s =
      (Inr (-1), ?s2\<lparr>mntns_cache := cache_store 20000 (sha, True) (-1) (mntns_cache s)\<rparr>)" for r
    using i1(1) assms(2) second by (simp add: mntns_id_body_def [of en _ sha False] bindE_def is_zero_def)
  then show ?thesis
    using assms(4) cache_store_hit [of 20000 "(sha, False)"]
    by (simp add: get_container_mntns_id_def mntns_cached_def [of _ sha False])
qed

lemma inspect_fresh:
  assumes "map_of (inspect_cache s) sha = Some d \<or>
      map_of (inspect_cache s) sha = None \<and> fst (run_inspect en sha (engine_world s)) = Inr d"
  shows "\<exists>s'. inspect_container en sha s = (Inr d, s') \<and> map_of (inspect_cache s') sha = Some d \<and> mntns_cache s' = mntns_cache s"
proof (cases "map_of (inspect_cache s) sha")
  case None
  with assms obtain w where "run_inspect en sha (engine_world s) = (Inr d, w)" by (cases "run_inspect en sha (engine_world s)") auto
  with None show ?thesis using cache_store_hit [of 2048 sha d] by (simp add: inspect_container_def on_world_def)
qed (use assms inspect_hit [of s sha d en] in fastforce)

lemma list_one:
  assumes "inspect_container en sha s = (Inr d, s1)" and "match_container (unpack_patterns patterns) d = Inr (Some name)"
    and "sha \<noteq> []" and "get_container_mntns_id en sha s1 = (Inr ns, s2)" and "ns \<le> 0"
  shows "list_container_mnt_namespaces en patterns (retE [sha]) s = (Inr [], s2)"
  using assms by (simp add: list_container_mnt_namespaces_def filter_containers_with_label_patterns_def bindE_def)

text \<open>
  Property C34. A container that starts is missed when the engine has not yet given it a process by
  the time its labels are looked at: the monitor yields nothing for the event, since the second try
  half a second later reads the memoised first answer, and the failure is memoised in turn. As long
  as that entry is not evicted, whatever the engine says by then, asking for the namespace of the
  container gives -1 again, and no event about it makes the monitor attach it.
\<close>

theorem early_container_missed:
  fixes s :: "'w container_state"
  assumes "event_type ev = event_start" and "event_container_id ev \<noteq> []"
    and "map_of (inspect_cache s) (event_container_id ev) = Some d \<or>
      map_of (inspect_cache s) (event_container_id ev) = None \<and>
      fst (run_inspect en (event_container_id ev) (engine_world s)) = Inr d"
    and "match_container (unpack_patterns patterns) d = Inr (Some name)" and "main_pid_of d = Inr (PInt 0)"
    and "\<And>w. \<exists>e. fst (stat_mntns en (PInt 0) w) = Inl e \<and> is_Exception e"
    and "map_of (mntns_cache s) (event_container_id ev, False) = None"
    and "map_of (mntns_cache s) (event_container_id ev, True) = None"
  shows "\<exists>s'. monitor_event en patterns ev s = (Inr [], s') \<and>
    map_of (mntns_cache s') (event_container_id ev, False) = Some (-1) \<and>
    (\<forall>(en' :: 'w engine) later. map_of (mntns_cache later) (event_container_id ev, False) = Some (-1) \<longrightarrow>
       fst (get_container_mntns_id en' (event_container_id ev) later) = Inr (-1) \<and>
       (\<forall>infos patterns' later'. monitor_event en' patterns' ev later = (Inr infos, later') \<longrightarrow> infos = []))"
proof -
  let ?sha = "event_container_id ev"
  obtain s1 where s1: "inspect_container en ?sha s = (Inr d, s1)" "map_of (inspect_cache s1) ?sha = Some d"
      "mntns_cache s1 = mntns_cache s" using inspect_fresh [OF assms(3)] by blast
  obtain s2 where s2: "get_container_mntns_id en ?sha s1 = (Inr (-1), s2)" "map_of (mntns_cache s2) (?sha, False) = Some (-1)"
    using early_mntns [OF s1(2) assms(5,6)] assms(7,8) s1(3) by auto
  have "monitor_event en patterns ev s = (Inr [], s2)"
    using list_one [OF s1(1) assms(4,2) s2(1)] assms(1) by (simp add: monitor_event_def)
  moreover have "infos = []" if h: "map_of (mntns_cache later) (?sha, False) = Some (-1)"
      and run: "monitor_event en' patterns' ev later = (Inr infos, later')" for en' :: "'w engine" and later patterns' infos later'
  proof -
    obtain found l1 where f: "filter_loop en' (unpack_patterns patterns') [?sha] later = (Inr found, l1)"
        "bindE (namespaces_of en' found) (\<lambda>infos. retE (remdups infos)) l1 = (Inr infos, later')"
      using run assms(1)
      by (auto simp: monitor_event_def list_container_mnt_namespaces_def filter_containers_with_label_patterns_def eff_simps)
    have keep: "mntns_cache (snd (inspect_container en' ?sha later)) = mntns_cache later"
      by (simp add: inspect_container_def on_world_def split: option.split prod.split sum.split)
    obtain m where found: "found = [] \<or> found = [(?sha, m)]" and l1: "mntns_cache l1 = mntns_cache later"
      using f(1) keep by (auto simp: bindE_def split: prod.splits sum.splits if_splits option.splits)
    have "fst (get_container_mntns_id en' ?sha l1) = Inr (-1)" by (rule mntns_cache_hit) (simp add: l1 h)
    with found f(2) assms(2) show ?thesis
      by (cases "get_container_mntns_id en' ?sha l1") (auto simp: bindE_def)
  qed
  ultimately show ?thesis using s2(2) mntns_cache_hit by (intro exI [of _ s2]) blast
qed

text \<open>An engine that gives the container its process after the first inspection.\<close>

definition example_late_engine :: "nat engine" where
  "example_late_engine = \<lparr>run_inspect = (\<lambda>sha n. (Inr (PDict [(''Name'', PStr ''/web''),
       (''Config'', PDict [(''Labels'', PDict [(''app'', PStr ''web'')])]), (''State'', PDict [(''Pid'', PInt (int n))])]), n + 42)),
     run_ps = (\<lambda>_ n. (Inr [], n)), stat_mntns = (\<lambda>v n. (if v = PInt 0 then Inl OSError else Inr 7, n))\<rparr>"

theorem early_container_missed_witness:
  "\<exists>s'. monitor_event example_late_engine [''app=web''] \<lparr>event_type = event_start, event_container_id = ''c1''\<rparr>
      \<lparr>engine_world = 0, inspect_cache = [], mntns_cache = []\<rparr> = (Inr [], s') \<and>
    fst (get_container_mntns_id example_late_engine ''c1'' s') = Inr (-1)"
proof -
  let ?d = "PDict [(''Name'', PStr ''/web''), (''Config'', PDict [(''Labels'', PDict [(''app'', PStr ''web'')])]),
    (''State'', PDict [(''Pid'', PInt 0)])]"
  have "inspect_answer (''/web'', [(''app'', ''web'')]) ?d" by (simp add: inspect_answer_def)
  moreover have "label_item [(''app'', ''web'')] ''app=web''"
    using label_item_iff [of "''app''" "[(''app'', ''web'')]" "''web''"] fnmatch_literal [of "''web''" "''web''"]
    by (simp add: literal_def)
  ultimately have m: "match_container (unpack_patterns [''app=web'']) ?d = Inr (Some ''web'')"
    using match_container_answer [of "''/web''" "[(''app'', ''web'')]" ?d "[''app=web'']"]
    by (simp add: label_selected_def displayed_def)
  show ?thesis
    using early_container_missed [where ev = "\<lparr>event_type = event_start, event_container_id = ''c1''\<rparr>" and
        en = example_late_engine and d = ?d and name = "''web''" and patterns = "[''app=web'']" and
        s = "\<lparr>engine_world = 0, inspect_cache = [], mntns_cache = []\<rparr>"] m
    by (auto simp: example_late_engine_def main_pid_of_def py_index_def is_Exception_def)
qed

end
