(* ===== verification/Container_Monitor.thy ===== *)
theory Container_Monitor
  imports Probes Containers Kernel_Filter
begin

text \<open>
  The thread of the base probe that keeps the table of monitored mount namespaces up to date
  (\<^verbatim>\<open>pidtree_bcc/probes/__init__.py\<close>: \<open>_running_containers_baseline\<close> and
  \<open>_monitor_running_containers\<close>), on top of the container queries. Its state joins the
  probe's two dictionaries, the caches of the queries and the table of the kernel.
\<close>

record ('w, 'c) monitor =
  mon_names :: "(int \<times> string) list"
  mon_idns :: "(string \<times> int) list"
  mon_containers :: "'w container_state"
  mon_table :: 'c
  last_baseline :: rat

text \<open>The patterns of the configuration: \<open>split\<close> is a method of strings only.\<close>

definition label_patterns :: "pyval \<Rightarrow> string list res" where
  "label_patterns v = (if \<not> truthy v then Inr []
     else bindR (py_iter v) (mapR (\<lambda>p. case p of PStr s \<Rightarrow> Inr s | _ \<Rightarrow> Inl (AttributeError ''split''))))"

definition on_containers :: "('w container_state, 'a) eff \<Rightarrow> (('w, 'c) monitor, 'a) eff" where
  "on_containers f m = (case f (mon_containers m) of (r, s) \<Rightarrow> (r, m\<lparr>mon_containers := s\<rparr>))"

definition on_table :: "('c, 'a) eff \<Rightarrow> (('w, 'c) monitor, 'a) eff" where
  "on_table f m = (case f (mon_table m) of (r, t) \<Rightarrow> (r, m\<lparr>mon_table := t\<rparr>))"

definition dict_update :: "('k \<times> 'v) list \<Rightarrow> ('k \<times> 'v) list \<Rightarrow> ('k \<times> 'v) list" where
  "dict_update d kvs = foldl (\<lambda>acc kv. AList.update (fst kv) (snd kv) acc) d kvs"

definition running_containers_baseline ::
    "'w engine \<Rightarrow> (int \<Rightarrow> 'k) \<Rightarrow> ('k \<Rightarrow> int) \<Rightarrow> (int list \<Rightarrow> int list) \<Rightarrow> ('c, 'k, u8) table_ops \<Rightarrow> pyval \<Rightarrow>
       (('w, 'c) monitor, unit) eff" where
  "running_containers_baseline en enc dec ord T labels =
     bindE (on_containers (list_containers en [])) (\<lambda>container_ids.
     bindE (liftR (label_patterns labels)) (\<lambda>patterns.
     bindE (on_containers (list_container_mnt_namespaces en patterns (retE container_ids))) (\<lambda>ns_infos.
     bindE (on_table (load_intset_into_map enc dec ord T (remdups (map ns_id ns_infos)) True False)) (\<lambda>_ m.
     (Inr (), m\<lparr>mon_names := dict_update (mon_names m) (map (\<lambda>i. (ns_id i, container_name i)) ns_infos),
                mon_idns := dict_update (mon_idns m) (map (\<lambda>i. (container_id i, ns_id i)) ns_infos)\<rparr>)))))"

definition attach_container ::
    "(int \<Rightarrow> 'k) \<Rightarrow> ('k \<Rightarrow> int) \<Rightarrow> (int list \<Rightarrow> int list) \<Rightarrow> ('c, 'k, u8) table_ops \<Rightarrow> MountNSInfo \<Rightarrow>
       (('w, 'c) monitor, unit) eff" where
  "attach_container enc dec ord T info =
     bindE (on_table (load_intset_into_map enc dec ord T [ns_id info] False False)) (\<lambda>_ m.
     (Inr (), m\<lparr>mon_names := AList.update (ns_id info) (container_name info) (mon_names m),
                mon_idns := AList.update (container_id info) (ns_id info) (mon_idns m)\<rparr>))"

definition detach_container ::
    "(int \<Rightarrow> 'k) \<Rightarrow> ('k \<Rightarrow> int) \<Rightarrow> (int list \<Rightarrow> int list) \<Rightarrow> ('c, 'k, u8) table_ops \<Rightarrow> MountNSInfo \<Rightarrow>
       (('w, 'c) monitor, unit) eff" where
  "detach_container enc dec ord T info m =
     (let m1 = m\<lparr>mon_idns := AList.delete (container_id info) (mon_idns m)\<rparr>
      in case map_of (mon_idns m) (container_id info) of
           None \<Rightarrow> (Inr (), m1)
         | Some ns \<Rightarrow> if ns = 0 then (Inr (), m1)
             else bindE (on_table (load_intset_into_map enc dec ord T [ns] False True)) (\<lambda>_ m2.
                    (Inr (), m2\<lparr>mon_names := AList.delete ns (mon_names m2)\<rparr>)) m1)"

text \<open>One notification of the monitor; a baseline that is due takes its place.\<close>

definition monitor_notification ::
    "'w engine \<Rightarrow> (int \<Rightarrow> 'k) \<Rightarrow> ('k \<Rightarrow> int) \<Rightarrow> (int list \<Rightarrow> int list) \<Rightarrow> ('c, 'k, u8) table_ops \<Rightarrow> pyval \<Rightarrow>
       rat \<times> MountNSInfo \<Rightarrow> (('w, 'c) monitor, unit) eff" where
  "monitor_notification en enc dec ord T labels ni m =
     (if CONTAINER_BASELINE_INTERVAL < fst ni - last_baseline m
      then bindE (running_containers_baseline en enc dec ord T labels) (\<lambda>_ m'.
             (Inr (), m'\<lparr>last_baseline := fst ni\<rparr>)) m
      else if info_event_type (snd ni) = event_stop then detach_container enc dec ord T (snd ni) m
      else attach_container enc dec ord T (snd ni) m)"

definition monitor_running_containers ::
    "'w engine \<Rightarrow> (int \<Rightarrow> 'k) \<Rightarrow> ('k \<Rightarrow> int) \<Rightarrow> (int list \<Rightarrow> int list) \<Rightarrow> ('c, 'k, u8) table_ops \<Rightarrow> pyval \<Rightarrow>
       rat \<Rightarrow> (rat \<times> MountNSInfo) list \<Rightarrow> (('w, 'c) monitor, unit) eff" where
  "monitor_running_containers en enc dec ord T labels now notifications m =
     bindE (running_containers_baseline en enc dec ord T labels) (\<lambda>_.
       forE notifications (monitor_notification en enc dec ord T labels)) (m\<lparr>last_baseline := now\<rparr>)"

section \<open>Every monitored namespace has a name\<close>

lemma map_of_dict_update: "map_of (dict_update d kvs) = map_of d ++ map_of (rev kvs)"
proof (induction kvs arbitrary: d)
  case Nil
  then show ?case by (simp add: dict_update_def)
next
  case (Cons kv kvs)
  have "dict_update d (kv # kvs) = dict_update (AList.update (fst kv) (snd kv) d) kvs"
    by (simp add: dict_update_def)
  then show ?case
    by (simp only: Cons update_conv') (auto simp: map_add_def fun_eq_iff split: option.splits)
qed

lemma dom_dict_update: "dom (map_of (dict_update d kvs)) = dom (map_of d) \<union> fst ` set kvs"
  by (auto simp: map_of_dict_update dom_map_of_conv_image_fst)

lemma on_table_Inr:
  "on_table f m = (Inr x, m') \<longleftrightarrow> (\<exists>t. f (mon_table m) = (Inr x, t) \<and> m' = m\<lparr>mon_table := t\<rparr>)"
  by (auto simp: on_table_def split: prod.splits)

lemma on_containers_Inr:
  "on_containers f m = (Inr x, m') \<longleftrightarrow> (\<exists>s. f (mon_containers m) = (Inr x, s) \<and> m' = m\<lparr>mon_containers := s\<rparr>)"
  by (auto simp: on_containers_def split: prod.splits)

text \<open>
  The table of the monitor: the number of a namespace and its key in the table, of which the code
  relies only on reading a key and writing it back being the same key.
\<close>

locale monitored_table = intset_table T inv fits
  for T :: "('c, 'k, u8) table_ops" and inv :: "'c \<Rightarrow> bool" and fits :: "'k set \<Rightarrow> bool" +
  fixes enc :: "int \<Rightarrow> 'k" and dec :: "'k \<Rightarrow> int"
  assumes enc_dec: "enc (dec k) = k"
begin

definition named :: "('w, 'c) monitor \<Rightarrow> bool" where
  "named m = (inv (mon_table m) \<and>
     dom (tbl_get T (mon_table m)) \<subseteq> enc ` dom (map_of (mon_names m)))"

lemma load_run:
  assumes "inv t" and "set_order ord" and "load_intset_into_map enc dec ord T xs do_diff False t = (Inr u, t')"
  shows "inv t' \<and> dom (tbl_get T t') \<subseteq> enc ` set xs \<union> (if do_diff then {} else dom (tbl_get T t))"
proof -
  define ls where "ls = filter (\<lambda>v. v \<notin> set xs) (if do_diff then remdups (map dec (tbl_keys T t)) else [])"
  from assms(3) obtain t1 where t1: "forE (ord xs) (\<lambda>v. tbl_set T (enc v) 1) t = (Inr (), t1)"
      "forE (ord ls) (\<lambda>v. tbl_del T (enc v)) t1 = (Inr u, t')"
    by (auto simp: load_intset_into_map_def Let_def eff_simps ls_def)
  from set_run [OF assms(1) t1(1)] have i1: "inv t1"
    and g1: "tbl_get T t1 = (\<lambda>k. if k \<in> enc ` set xs then Some 1 else tbl_get T t k)"
    using assms(2) by auto
  from del_run [OF i1 t1(2)] have i2: "inv t'" and g2: "tbl_get T t' = tbl_get T t1 |` (- enc ` set ls)"
    using assms(2) by auto
  have "k \<in> enc ` set ls" if "do_diff" "k \<in> dom (tbl_get T t)" "k \<notin> enc ` set xs" for k
  proof -
    have "dec k \<notin> set xs" using that(3) enc_dec by (metis imageI)
    with that have "dec k \<in> set ls" by (auto simp: ls_def keys_dom [OF assms(1)])
    then show ?thesis using enc_dec by (metis imageI)
  qed
  with i2 show ?thesis by (auto simp: g2 g1 restrict_map_def dom_def split: if_splits)
qed

lemma baseline_named:
  assumes "named m" and "set_order ord"
    and "running_containers_baseline en enc dec ord T labels m = (Inr u, m')"
  shows "named m'"
proof -
  from assms(3) obtain infos :: "MountNSInfo list" and s t where
    t: "load_intset_into_map enc dec ord T (remdups (map ns_id infos)) True False (mon_table m) = (Inr (), t)" and
    m': "m' = m\<lparr>mon_containers := s, mon_table := t,
        mon_names := dict_update (mon_names m) (map (\<lambda>i. (ns_id i, container_name i)) infos),
        mon_idns := dict_update (mon_idns m) (map (\<lambda>i. (container_id i, ns_id i)) infos)\<rparr>"
    by (auto simp: running_containers_baseline_def eff_simps on_containers_Inr on_table_Inr)
  have "inv t \<and> dom (tbl_get T t) \<subseteq> enc ` set (map ns_id infos)"
    using load_run [OF _ assms(2) t] assms(1) by (simp add: named_def)
  then show ?thesis by (auto simp: named_def m' dom_dict_update image_image)
qed

lemma attach_named:
  assumes "named m" and "set_order ord" and "attach_container enc dec ord T info m = (Inr u, m')"
  shows "named m'"
proof -
  from assms(3) obtain t where
    t: "load_intset_into_map enc dec ord T [ns_id info] False False (mon_table m) = (Inr (), t)" and
    m': "m' = m\<lparr>mon_table := t, mon_names := AList.update (ns_id info) (container_name info) (mon_names m),
        mon_idns := AList.update (container_id info) (ns_id info) (mon_idns m)\<rparr>"
    by (auto simp: attach_container_def eff_simps on_table_Inr)
  have names: "dom (map_of (mon_names m')) = insert (ns_id info) (dom (map_of (mon_names m)))"
    by (simp add: m' update_conv')
  from load_run [OF _ assms(2) t] assms(1)
  have "inv t" "dom (tbl_get T t) \<subseteq> insert (enc (ns_id info)) (dom (tbl_get T (mon_table m)))"
    by (simp_all add: named_def)
  then have "inv t" "dom (tbl_get T t) \<subseteq> enc ` insert (ns_id info) (dom (map_of (mon_names m)))"
    using assms(1) unfolding named_def by blast+
  then show ?thesis unfolding named_def names by (simp add: m')
qed

lemma detach_named:
  assumes "named m" and "set_order ord" and "detach_container enc dec ord T info m = (Inr u, m')"
  shows "named m'"
proof (cases "map_of (mon_idns m) (container_id info)")
  case None
  with assms(3) have "m' = m\<lparr>mon_idns := AList.delete (container_id info) (mon_idns m)\<rparr>"
    by (simp add: detach_container_def Let_def)
  with assms(1) show ?thesis by (simp add: named_def)
next
  case (Some ns)
  show ?thesis
  proof (cases "ns = 0")
    case True
    with Some assms(3) have "m' = m\<lparr>mon_idns := AList.delete (container_id info) (mon_idns m)\<rparr>"
      by (simp add: detach_container_def Let_def)
    with assms(1) show ?thesis by (simp add: named_def)
  next
    case False
    with Some assms(3) obtain t where
      t: "forE (ord [ns]) (\<lambda>v. tbl_del T (enc v)) (mon_table m) = (Inr (), t)" and
      m': "m' = m\<lparr>mon_idns := AList.delete (container_id info) (mon_idns m), mon_table := t,
         mon_names := AList.delete ns (mon_names m)\<rparr>"
      by (auto simp: detach_container_def Let_def eff_simps on_table_Inr load_intset_into_map_def)
    from del_run [OF _ t] assms(1,2)
    have "inv t" "tbl_get T t = tbl_get T (mon_table m) |` (- {enc ns})" by (auto simp: named_def)
    moreover have "dom (map_of (AList.delete ns (mon_names m))) = dom (map_of (mon_names m)) - {ns}"
      by (auto simp: delete_conv' split: if_splits)
    moreover have "dom (tbl_get T (mon_table m) |` (- {enc ns})) \<subseteq> enc ` (dom (map_of (mon_names m)) - {ns})"
      using assms(1) unfolding named_def dom_restrict by blast
    ultimately show ?thesis by (simp add: named_def m')
  qed
qed

lemma notification_named:
  assumes "named m" and "set_order ord"
    and "monitor_notification en enc dec ord T labels ni m = (Inr u, m')"
  shows "named m'"
  using assms(3) baseline_named [OF assms(1,2)] attach_named [OF assms(1,2)] detach_named [OF assms(1,2)]
  by (fastforce simp: monitor_notification_def eff_simps named_def split: if_splits)

lemma notifications_named:
  "named m \<Longrightarrow> set_order ord \<Longrightarrow>
     forE nis (monitor_notification en enc dec ord T labels) m = (Inr u, m') \<Longrightarrow> named m'"
proof (induction nis arbitrary: m)
  case Nil
  then show ?case by simp
next
  case (Cons ni nis)
  then obtain m1 where "monitor_notification en enc dec ord T labels ni m = (Inr (), m1)"
      "forE nis (monitor_notification en enc dec ord T labels) m1 = (Inr u, m')" by (auto simp: eff_simps)
  with Cons.IH Cons.prems(1,2) notification_named show ?case by blast
qed

lemma run_named:
  assumes "named m" and "set_order ord"
    and "monitor_running_containers en enc dec ord T labels now nis m = (Inr u, m')"
  shows "named m'"
proof -
  have "named (m\<lparr>last_baseline := now\<rparr>)" using assms(1) by (simp add: named_def)
  with assms(2,3) show ?thesis
    by (auto simp: monitor_running_containers_def eff_simps dest: baseline_named intro: notifications_named)
qed

end

interpretation mntns_monitor:
  monitored_table "bounded_table max_entries" table_inv "table_fits max_entries" "of_int :: int \<Rightarrow> u64" uint
  by (rule monitored_table.intro [OF mntns_filter_map.intset_table_axioms]) (unfold_locales, simp)

text \<open>
  Property C16. The monitor names everything it lets through: from an empty table, after the first
  baseline and any sequence of containers starting and stopping that it has handled without an
  error, the kernel takes an event of a mount namespace for included only when the namespace is
  that of a container whose name is known.
\<close>

theorem monitored_namespaces_named:
  assumes "set_order ord" and "mon_table m = []"
    and "monitor_running_containers en (of_int :: int \<Rightarrow> u64) uint ord (bounded_table max_entries) labels now
      notifications m = (Inr (), m')"
  shows "is_mntns_included (map_of (mon_table m')) ns \<longrightarrow> ns \<in> of_int ` dom (map_of (mon_names m'))"
proof -
  have get: "tbl_get (bounded_table max_entries) = (map_of :: (u64 \<times> u8) list \<Rightarrow> u64 \<Rightarrow> u8 option)"
    by (simp add: bounded_table_def)
  have "mntns_monitor.named max_entries m"
    using assms(2) by (simp add: mntns_monitor.named_def get table_inv_def)
  from mntns_monitor.run_named [OF this assms(1,3)]
  have "dom (map_of (mon_table m')) \<subseteq> of_int ` dom (map_of (mon_names m'))"
    by (simp add: mntns_monitor.named_def get)
  then show ?thesis by (simp add: is_mntns_included_def domIff subset_iff)
qed

theorem monitored_namespaces_named_witness:
  "\<exists>m'. monitor_running_containers example_engine (of_int :: int \<Rightarrow> u64) uint (\<lambda>xs. xs) (bounded_table (Some 512))
        (PList [PStr ''app=web-*'']) 0
        [(1, \<lparr>container_id = ''c1'', container_name = ''web'', ns_id = 7, info_event_type = event_start\<rparr>)]
        \<lparr>mon_names = [], mon_idns = [], mon_containers = example_containers, mon_table = [], last_baseline = 0\<rparr>
      = (Inr (), m') \<and> is_mntns_included (map_of (mon_table m')) 7 \<and> 7 \<in> of_int ` dom (map_of (mon_names m'))"
proof -
  let ?m = "\<lparr>mon_names = [], mon_idns = [], mon_containers = example_containers, mon_table = [], last_baseline = 0\<rparr>"
  let ?m' = "\<lparr>mon_names = [(7, ''web'')], mon_idns = [(''c1'', 7)], mon_containers = example_containers,
    mon_table = [(7, 1)], last_baseline = 0\<rparr>"
  have run: "monitor_running_containers example_engine (of_int :: int \<Rightarrow> u64) uint (\<lambda>xs. xs) (bounded_table (Some 512))
        (PList [PStr ''app=web-*'']) 0
        [(1, \<lparr>container_id = ''c1'', container_name = ''web'', ns_id = 7, info_event_type = event_start\<rparr>)] ?m
      = (Inr (), ?m')"
    by (simp add: monitor_running_containers_def running_containers_baseline_def label_patterns_def truthy_def
        py_iter_def bindE_def on_containers_def on_table_def list_container_mnt_namespaces_def list_containers_def
        on_world_def example_engine_def example_containers_def splitlines_def
        filter_containers_with_label_patterns_def load_intset_into_map_def bounded_table_def dict_update_def
        monitor_notification_def CONTAINER_BASELINE_INTERVAL_def attach_container_def)
  have "is_mntns_included (map_of (mon_table ?m')) 7" by (simp add: is_mntns_included_def)
  with monitored_namespaces_named [OF set_order_id _ run, of 7] run show ?thesis
    by (intro exI [of _ ?m']) simp
qed

end
