(* ===== verification/Yaml_Loader.thy ===== *)
theory Yaml_Loader
  imports Proc_Utils
begin

text \<open>
  \<^verbatim>\<open>pidtree_bcc/yaml_loader.py\<close>: a YAML loader whose \<open>!include\<close> nodes are
  replaced with the contents of other files, local or fetched over HTTP by a thread of its own.
  The YAML parser is an argument that turns a text into a document tree; the network and the MD5
  function are arguments too. Nested includes recurse on Python's stack: \<open>depth\<close> is the
  number of nested loaders it has room for.
\<close>

section \<open>Paths\<close>

definition path_isabs :: "string \<Rightarrow> bool" where
  "path_isabs p = startswith p ''/''"

text \<open>The text up to the last slash, without trailing slashes unless it is all slashes.\<close>

definition path_dirname :: "string \<Rightarrow> string" where
  "path_dirname p =
     (let head = rev (dropWhile (\<lambda>c. c \<noteq> CHR ''/'') (rev p));
          bare = rev (dropWhile (\<lambda>c. c = CHR ''/'') (rev head))
      in if bare = [] then head else bare)"

definition path_join :: "string \<Rightarrow> string \<Rightarrow> string" where
  "path_join a b = (if path_isabs b then b else if a = [] \<or> endswith a ''/'' then a @ b else a @ ''/'' @ b)"

definition is_url :: "string \<Rightarrow> bool" where
  "is_url name = (startswith name ''http://'' \<or> startswith name ''https://'')"

section \<open>Includes\<close>

datatype ynode =
    YScalar pyval
  | YSeq "ynode list"
  | YMap "(string \<times> ynode) list"
  | YInclude string

record yaml_env =
  read_file :: "string \<Rightarrow> string res"
  yaml_parse :: "string \<Rightarrow> ynode res"
  fetch_remote :: "string \<Rightarrow> string res"

definition YAMLError :: exn where "YAMLError = OtherException ''YAMLError''"
definition RecursionError :: exn where "RecursionError = OtherException ''RecursionError''"

definition include_path :: "yaml_env \<Rightarrow> string \<Rightarrow> string \<Rightarrow> string res" where
  "include_path en loader_name name =
     (if is_url name then fetch_remote en name
      else Inr (if \<not> path_isabs name then path_join (path_dirname loader_name) name else name))"

text \<open>
  The value of a node and the files it included; \<open>inc\<close> is the constructor of
  \<open>!include\<close> nodes.
\<close>

fun construct :: "(string \<Rightarrow> (pyval \<times> string list) res) \<Rightarrow> ynode \<Rightarrow> (pyval \<times> string list) res"
  and construct_seq :: "(string \<Rightarrow> (pyval \<times> string list) res) \<Rightarrow> ynode list \<Rightarrow> (pyval list \<times> string list) res"
  and construct_map :: "(string \<Rightarrow> (pyval \<times> string list) res) \<Rightarrow> (string \<times> ynode) list \<Rightarrow>
        ((string \<times> pyval) list \<times> string list) res" where
  "construct inc (YScalar v) = Inr (v, [])"
| "construct inc (YSeq ns) = bindR (construct_seq inc ns) (\<lambda>(vs, fs). Inr (PList vs, fs))"
| "construct inc (YMap kns) = bindR (construct_map inc kns) (\<lambda>(kvs, fs). Inr (PDict kvs, fs))"
| "construct inc (YInclude name) = inc name"
| "construct_seq inc [] = Inr ([], [])"
| "construct_seq inc (n # ns) = bindR (construct inc n) (\<lambda>(v, fs).
     bindR (construct_seq inc ns) (\<lambda>(vs, gs). Inr (v # vs, fs @ gs)))"
| "construct_map inc [] = Inr ([], [])"
| "construct_map inc ((k, n) # kns) = bindR (construct inc n) (\<lambda>(v, fs).
     bindR (construct_map inc kns) (\<lambda>(kvs, gs). Inr ((k, v) # kvs, fs @ gs)))"

definition wrap_OSError :: "'a res \<Rightarrow> 'a res" where
  "wrap_OSError r = (case r of Inl OSError \<Rightarrow> Inl YAMLError | _ \<Rightarrow> r)"

text \<open>
  \<open>yaml.load\<close> of an open file, and the constructor of an include inside it. Opening a file
  and loading it is one guarded block.
\<close>

fun load_file :: "yaml_env \<Rightarrow> nat \<Rightarrow> string \<Rightarrow> (pyval \<times> string list) res" where
  "load_file en 0 path = Inl RecursionError"
| "load_file en (Suc depth) path =
     bindR (read_file en path) (\<lambda>text.
     bindR (yaml_parse en text) (construct (\<lambda>name.
       bindR (include_path en path name) (\<lambda>filepath.
       wrap_OSError (bindR (load_file en depth filepath) (\<lambda>(v, fs). Inr (v, filepath # fs)))))))"

section \<open>The fetcher thread\<close>

text \<open>Files by path, and the outside world: MD5, the requests, a fresh temporary path.\<close>

record remote_env =
  md5 :: "string \<Rightarrow> string"
  head_etag :: "string \<Rightarrow> string option res"
  http_get :: "string \<Rightarrow> string res"
  mkstemp :: "(string \<times> string) list \<Rightarrow> string"

definition md5sum :: "remote_env \<Rightarrow> string \<Rightarrow> ((string \<times> string) list, string) eff" where
  "md5sum en path fs = (case map_of fs path of None \<Rightarrow> (Inl OSError, fs) | Some c \<Rightarrow> (Inr (md5 en c), fs))"

fun occurs_in :: "string \<Rightarrow> string \<Rightarrow> bool" where
  "occurs_in p [] = (p = [])"
| "occurs_in p (c # cs) = (startswith (c # cs) p \<or> occurs_in p cs)"

definition strip_quotes :: "string \<Rightarrow> string" where
  "strip_quotes s = rev (dropWhile (\<lambda>c. c = CHR 0x22) (rev (dropWhile (\<lambda>c. c = CHR 0x22) s)))"

definition lower_char :: "char \<Rightarrow> char" where
  "lower_char c = (if 65 \<le> (of_char c :: nat) \<and> (of_char c :: nat) \<le> 90 then char_of (of_char c + 32 :: nat) else c)"

text \<open>Whether the checksum an S3 server reports makes the download unnecessary.\<close>

definition s3_unchanged :: "remote_env \<Rightarrow> string \<Rightarrow> string \<Rightarrow> bool res" where
  "s3_unchanged en url checksum =
     (if checksum \<noteq> [] \<and> occurs_in ''.s3.amazonaws.'' url
      then bindR (head_etag en url) (\<lambda>etag. case etag of
             None \<Rightarrow> Inl (AttributeError ''strip'')
           | Some e \<Rightarrow> Inr (map lower_char (strip_quotes e) = checksum))
      else Inr False)"

definition write_tmp :: "string \<Rightarrow> string \<Rightarrow> ((string \<times> string) list, unit) eff" where
  "write_tmp path content fs = (Inr (), AList.update path content fs)"

definition rename_file :: "string \<Rightarrow> string \<Rightarrow> ((string \<times> string) list, unit) eff" where
  "rename_file src dst fs = (case map_of fs src of
     None \<Rightarrow> (Inl OSError, fs) | Some c \<Rightarrow> (Inr (), AList.update dst c (AList.delete src fs)))"

definition fetch_remote_configuration_impl ::
    "remote_env \<Rightarrow> string \<Rightarrow> string \<Rightarrow> ((string \<times> string) list, unit) eff" where
  "fetch_remote_configuration_impl en url output_path =
     bindE (\<lambda>fs. if map_of fs output_path \<noteq> None then md5sum en output_path fs else (Inr [], fs)) (\<lambda>checksum.
     bindE (liftR (s3_unchanged en url checksum)) (\<lambda>unchanged.
     if unchanged then retE ()
     else bindE (\<lambda>fs. let tmp = mkstemp en fs in (Inr tmp, AList.update tmp [] fs)) (\<lambda>tmppath.
          bindE (liftR (http_get en url)) (\<lambda>content.
          bindE (write_tmp tmppath content) (\<lambda>_.
          bindE (md5sum en tmppath) (\<lambda>sum.
          if sum \<noteq> checksum then rename_file tmppath output_path else retE ()))))))"

text \<open>
  The class attributes of the loader and the directories that exist. A fetcher thread is known by
  whether it runs and whether it was given a stop flag; \<open>mkdtemp\<close> names a new directory.
\<close>

record fetcher_thread =
  is_alive :: bool
  has_stop_flag :: bool

record loader_class =
  remote_fetcher :: "fetcher_thread option"
  remote_fetcher_outdir :: string
  remote_fetcher_fence :: bool
  remote_fetch_workload :: "(string \<times> string) list"
  directories :: "string list"

text \<open>
  A loader object: the list it appends included files to, shared with the loaders of the files it
  includes, and whether it has a stop flag. The loader of an included file is made with the list
  but without the flag.
\<close>

record include_loader =
  included_files :: "string list"
  loader_stop_flag :: bool

definition new_loader :: "string list \<Rightarrow> bool \<Rightarrow> include_loader" where
  "new_loader files stop_flag = \<lparr>included_files = files, loader_stop_flag = stop_flag\<rparr>"

definition get_loader_instance :: "bool \<Rightarrow> include_loader" where
  "get_loader_instance stop_flag = new_loader [] stop_flag"

definition next_loader :: "string \<Rightarrow> include_loader \<Rightarrow> include_loader" where
  "next_loader filepath self = new_loader (included_files self @ [filepath]) False"

definition ensure_fetcher :: "(string list \<Rightarrow> string) \<Rightarrow> bool \<Rightarrow> loader_class \<Rightarrow> loader_class" where
  "ensure_fetcher mkdtemp stop_flag cls =
     (if (case remote_fetcher cls of None \<Rightarrow> True | Some th \<Rightarrow> \<not> is_alive th)
      then let dir = mkdtemp (directories cls) in
        cls\<lparr>remote_fetcher_fence := True, remote_fetcher_outdir := dir, directories := dir # directories cls,
            remote_fetcher := Some \<lparr>is_alive = True, has_stop_flag = stop_flag\<rparr>\<rparr>
      else cls)"

definition register_remote ::
    "(string list \<Rightarrow> string) \<Rightarrow> (string \<Rightarrow> string) \<Rightarrow> string \<Rightarrow> bool \<Rightarrow> loader_class \<Rightarrow> string \<times> loader_class" where
  "register_remote mkdtemp sha256 url stop_flag cls0 =
     (let cls = ensure_fetcher mkdtemp stop_flag cls0;
          output_path = path_join (remote_fetcher_outdir cls) (sha256 url @ ''.yaml'')
      in (output_path, cls\<lparr>remote_fetch_workload := AList.update url output_path (remote_fetch_workload cls)\<rparr>))"

definition cleanup :: "loader_class \<Rightarrow> loader_class" where
  "cleanup cls = (if remote_fetcher_fence cls
      then cls\<lparr>directories := removeAll (remote_fetcher_outdir cls) (directories cls)\<rparr> else cls)
      \<lparr>remote_fetch_workload := []\<rparr>"

text \<open>The fetcher woken with its stop flag set: the loop ends if it has one.\<close>

definition fetcher_stops :: "loader_class \<Rightarrow> loader_class" where
  "fetcher_stops cls = cls\<lparr>remote_fetcher := map_option
     (\<lambda>th. if has_stop_flag th then th\<lparr>is_alive := False\<rparr> else th) (remote_fetcher cls)\<rparr>"

text \<open>
  The includer of one URL and the fetcher, interleaved. The includer registers the URL with a
  condition of its own, wakes the fetcher and waits on the condition; the fetcher goes through a
  snapshot of the workload, holding the condition of an entry while it fetches it, then waits
  for the fence. Taking a condition and waiting on it is one step, since waiting gives it up.
\<close>

datatype includer_pc = Registering | NotifyingFence | TakingReady | WaitingReady | Returned | TimedOut

datatype fetcher_pc =
    LoopStart
  | InRound "(string \<times> nat) list"
  | Fetching string nat "(string \<times> nat) list"
  | WaitingFence

record sync_state =
  workload :: "(string \<times> nat) list"
  includer :: includer_pc
  fetcher :: fetcher_pc
  downloaded :: "string set"

inductive sync_step :: "string \<Rightarrow> nat \<Rightarrow> sync_state \<Rightarrow> sync_state \<Rightarrow> bool" for url ready where
  register: "includer s = Registering \<Longrightarrow>
    sync_step url ready s (s\<lparr>workload := AList.update url ready (workload s), includer := NotifyingFence\<rparr>)"
| notify_fence: "includer s = NotifyingFence \<Longrightarrow>
    sync_step url ready s (s\<lparr>includer := TakingReady,
      fetcher := (if fetcher s = WaitingFence then LoopStart else fetcher s)\<rparr>)"
| wait_ready: "includer s = TakingReady \<Longrightarrow> (\<nexists>u rest. fetcher s = Fetching u ready rest) \<Longrightarrow>
    sync_step url ready s (s\<lparr>includer := WaitingReady\<rparr>)"
| time_out: "includer s = WaitingReady \<Longrightarrow> sync_step url ready s (s\<lparr>includer := TimedOut\<rparr>)"
| start_round: "fetcher s = LoopStart \<Longrightarrow> sync_step url ready s (s\<lparr>fetcher := InRound (workload s)\<rparr>)"
| take_entry: "fetcher s = InRound ((u, c) # rest) \<Longrightarrow> sync_step url ready s (s\<lparr>fetcher := Fetching u c rest\<rparr>)"
| fetched: "fetcher s = Fetching u c rest \<Longrightarrow>
    sync_step url ready s (s\<lparr>fetcher := InRound rest, downloaded := insert u (downloaded s),
      includer := (if includer s = WaitingReady \<and> c = ready then Returned else includer s)\<rparr>)"
| fetch_error: "fetcher s = Fetching u c rest \<Longrightarrow> sync_step url ready s (s\<lparr>fetcher := LoopStart\<rparr>)"
| end_round: "fetcher s = InRound [] \<Longrightarrow> sync_step url ready s (s\<lparr>fetcher := WaitingFence\<rparr>)"
| fence_timeout: "fetcher s = WaitingFence \<Longrightarrow> sync_step url ready s (s\<lparr>fetcher := LoopStart\<rparr>)"

inductive_cases sync_stepE: "sync_step url ready s s'"

section \<open>What loading returns\<close>

fun include_names :: "ynode \<Rightarrow> string set" where
  "include_names (YScalar v) = {}"
| "include_names (YSeq ns) = (\<Union>n \<in> set ns. include_names n)"
| "include_names (YMap kns) = (\<Union>kn \<in> set kns. include_names (snd kn))"
| "include_names (YInclude name) = {name}"

definition refers :: "yaml_env \<Rightarrow> string \<Rightarrow> string \<Rightarrow> bool" where
  "refers en path p = (\<exists>text node. read_file en path = Inr text \<and> yaml_parse en text = Inr node \<and>
     (\<exists>name \<in> include_names node. include_path en path name = Inr p))"

lemma wrap_OSError_Inr [simp]: "(wrap_OSError r = Inr x) = (r = Inr x)"
  by (auto simp: wrap_OSError_def split: sum.splits exn.splits)

lemma construct_files:
  "construct inc node = Inr (v, fs) \<Longrightarrow>
     (\<forall>name \<in> include_names node. \<exists>r. inc name = Inr r) \<and>
     set fs = (\<Union>name \<in> include_names node. case inc name of Inr (_, gs) \<Rightarrow> set gs | Inl _ \<Rightarrow> {})"
  "construct_seq inc ns = Inr (vs, fs) \<Longrightarrow>
     (\<forall>name \<in> (\<Union>n \<in> set ns. include_names n). \<exists>r. inc name = Inr r) \<and>
     set fs = (\<Union>name \<in> (\<Union>n \<in> set ns. include_names n). case inc name of Inr (_, gs) \<Rightarrow> set gs | Inl _ \<Rightarrow> {})"
  "construct_map inc kns = Inr (kvs, fs) \<Longrightarrow>
     (\<forall>name \<in> (\<Union>kn \<in> set kns. include_names (snd kn)). \<exists>r. inc name = Inr r) \<and>
     set fs = (\<Union>name \<in> (\<Union>kn \<in> set kns. include_names (snd kn)). case inc name of Inr (_, gs) \<Rightarrow> set gs | Inl _ \<Rightarrow> {})"
  by (induction inc node and inc ns and inc kns arbitrary: v fs and vs fs and kvs fs
      rule: construct_construct_seq_construct_map.induct)
     (auto simp: res_simps split: prod.splits, fastforce+)

lemma construct_cong:
  "(\<And>name. name \<in> include_names node \<Longrightarrow> f name = g name) \<Longrightarrow> construct f node = construct g node"
  "(\<And>name n. n \<in> set ns \<Longrightarrow> name \<in> include_names n \<Longrightarrow> f name = g name) \<Longrightarrow> construct_seq f ns = construct_seq g ns"
  "(\<And>name kn. kn \<in> set kns \<Longrightarrow> name \<in> include_names (snd kn) \<Longrightarrow> f name = g name) \<Longrightarrow>
     construct_map f kns = construct_map g kns"
proof (induction f node and f ns and f kns rule: construct_construct_seq_construct_map.induct)
  case (2 f ns)
  then have "construct_seq f ns = construct_seq g ns" by auto
  then show ?case by simp
next
  case (3 f kns)
  then have "construct_map f kns = construct_map g kns" by auto
  then show ?case by simp
next
  case (6 f n ns)
  then have "construct f n = construct g n" "construct_seq f ns = construct_seq g ns" by auto
  then show ?case by simp
next
  case (8 f k n kns)
  have "construct f n = construct g n" using 8(1) 8(3) [of "(k, n)"] by simp
  moreover have "construct_map f kns = construct_map g kns" using 8(2) 8(3) by (meson list.set_intros(2))
  ultimately show ?case by simp
qed simp_all

lemma load_file_refers:
  assumes "load_file en (Suc depth) path = Inr (v, fs)"
  shows "refers en path p \<Longrightarrow> \<exists>r. load_file en depth p = Inr r"
    and "set fs = (\<Union>p \<in> {p. refers en path p}.
      insert p (case load_file en depth p of Inr (_, gs) \<Rightarrow> set gs | Inl _ \<Rightarrow> {}))"
proof -
  define inc where "inc name = bindR (include_path en path name) (\<lambda>filepath.
       wrap_OSError (bindR (load_file en depth filepath) (\<lambda>(v, fs). Inr (v, filepath # fs))))" for name
  obtain doc node where n: "read_file en path = Inr doc" "yaml_parse en doc = Inr node"
      "construct inc node = Inr (v, fs)"
    using assms by (auto simp: res_simps inc_def [symmetric])
  have ref: "refers en path p \<longleftrightarrow> (\<exists>name \<in> include_names node. include_path en path name = Inr p)" for p
    using n by (simp add: refers_def)
  have inc: "\<exists>p v gs. include_path en path name = Inr p \<and> load_file en depth p = Inr (v, gs) \<and> inc name = Inr (v, p # gs)"
    if "name \<in> include_names node" for name
    using construct_files(1) [OF n(3)] that by (force simp: inc_def res_simps)
  show "\<exists>r. load_file en depth p = Inr r" if "refers en path p" using that inc unfolding ref by fastforce
  have "(case inc name of Inr (_, gs) \<Rightarrow> set gs | Inl _ \<Rightarrow> {}) =
      (\<Union>p \<in> {p. include_path en path name = Inr p}. insert p (case load_file en depth p of Inr (_, gs) \<Rightarrow> set gs | Inl _ \<Rightarrow> {}))"
    if "name \<in> include_names node" for name using inc [OF that] by auto
  then show "set fs = (\<Union>p \<in> {p. refers en path p}.
      insert p (case load_file en depth p of Inr (_, gs) \<Rightarrow> set gs | Inl _ \<Rightarrow> {}))"
    using construct_files(1) [OF n(3)] unfolding ref by auto
qed

lemma load_file_reaches:
  "(refers en)\<^sup>+\<^sup>+ path p \<Longrightarrow> load_file en depth path = Inr r \<Longrightarrow> \<exists>d < depth. \<exists>r. load_file en d p = Inr r"
proof (induction rule: tranclp_induct)
  case (base p)
  then obtain d where "depth = Suc d" by (cases depth) auto
  with base load_file_refers(1) show ?case by (metis lessI surj_pair)
next
  case (step p p')
  then obtain d r' where d: "d < depth" "load_file en d p = Inr r'" by blast
  then obtain d' where "d = Suc d'" by (cases d) auto
  with d step(2) load_file_refers(1) show ?case by (metis Suc_lessD surj_pair)
qed

lemma load_file_files:
  "load_file en depth path = Inr (v, fs) \<Longrightarrow> set fs = {p. (refers en)\<^sup>+\<^sup>+ path p}"
proof (induction depth arbitrary: path v fs)
  case 0
  then show ?case by simp
next
  case (Suc depth)
  have each: "(case load_file en depth p of Inr (_, gs) \<Rightarrow> set gs | Inl _ \<Rightarrow> {}) = {q. (refers en)\<^sup>+\<^sup>+ p q}"
    if "refers en path p" for p
    using load_file_refers(1) [OF Suc.prems that] Suc.IH by fastforce
  have "set fs = (\<Union>p \<in> {p. refers en path p}. insert p {q. (refers en)\<^sup>+\<^sup>+ p q})"
    unfolding load_file_refers(2) [OF Suc.prems] using each by auto
  also have "\<dots> = {p. (refers en)\<^sup>+\<^sup>+ path p}"
    by (auto intro: tranclp_into_tranclp2 dest: tranclpD rtranclpD)
  finally show ?case .
qed

lemma load_file_deep_enough:
  fixes rank :: "string \<Rightarrow> nat"
  assumes "\<And>path p. refers en path p \<Longrightarrow> rank p < rank path"
  shows "rank path < depth \<Longrightarrow> load_file en depth path = load_file en (Suc (rank path)) path"
proof (induction "rank path" arbitrary: path depth rule: less_induct)
  case less
  obtain d where d: "depth = Suc d" "rank path \<le> d" using less.prems by (cases depth) auto
  have "bindR (yaml_parse en doc) (construct (\<lambda>name. bindR (include_path en path name) (\<lambda>p.
          wrap_OSError (bindR (load_file en d p) (\<lambda>(v, fs). Inr (v, p # fs)))))) =
        bindR (yaml_parse en doc) (construct (\<lambda>name. bindR (include_path en path name) (\<lambda>p.
          wrap_OSError (bindR (load_file en (rank path) p) (\<lambda>(v, fs). Inr (v, p # fs))))))"
    if "read_file en path = Inr doc" for doc
  proof (cases "yaml_parse en doc")
    case (Inr node)
    have "load_file en d p = load_file en (rank path) p"
      if "name \<in> include_names node" "include_path en path name = Inr p" for name p
    proof -
      have "refers en path p" using that Inr \<open>read_file en path = Inr doc\<close> by (auto simp: refers_def)
      then have "rank p < rank path" by (rule assms)
      with less.hyps [of p d] less.hyps [of p "rank path"] d(2) show ?thesis by simp
    qed
    then show ?thesis unfolding Inr bindR_simps
      by (intro construct_cong(1)) (auto simp: bindR_def split: sum.splits)
  qed simp
  then show ?case by (cases "read_file en path") (simp_all add: d(1))
qed

lemma construct_error:
  "construct inc node = Inl e \<Longrightarrow> \<exists>name \<in> include_names node. inc name = Inl e"
  "construct_seq inc ns = Inl e \<Longrightarrow> \<exists>n \<in> set ns. \<exists>name \<in> include_names n. inc name = Inl e"
  "construct_map inc kns = Inl e \<Longrightarrow> \<exists>kn \<in> set kns. \<exists>name \<in> include_names (snd kn). inc name = Inl e"
  by (induction inc node and inc ns and inc kns rule: construct_construct_seq_construct_map.induct)
     (auto simp: res_simps split: prod.splits)

text \<open>Reading, parsing and fetching do not run out of stack themselves.\<close>

definition no_recursion :: "yaml_env \<Rightarrow> bool" where
  "no_recursion en = (\<forall>x. read_file en x \<noteq> Inl RecursionError \<and> yaml_parse en x \<noteq> Inl RecursionError \<and>
     fetch_remote en x \<noteq> Inl RecursionError)"

lemma load_file_recursion:
  assumes "no_recursion en" and "load_file en (Suc depth) path = Inl RecursionError"
  shows "\<exists>p. refers en path p \<and> load_file en depth p = Inl RecursionError"
proof -
  define inc where "inc name = bindR (include_path en path name) (\<lambda>filepath.
       wrap_OSError (bindR (load_file en depth filepath) (\<lambda>(v, fs). Inr (v, filepath # fs))))" for name
  obtain doc node where n: "read_file en path = Inr doc" "yaml_parse en doc = Inr node"
      "construct inc node = Inl RecursionError"
    using assms by (auto simp: res_simps inc_def [symmetric] no_recursion_def)
  from construct_error(1) [OF n(3)] obtain name where name: "name \<in> include_names node" "inc name = Inl RecursionError"
    by blast
  have "include_path en path name \<noteq> Inl RecursionError"
    using assms(1) by (simp add: include_path_def no_recursion_def)
  with name(2) obtain p where p: "include_path en path name = Inr p"
      "wrap_OSError (bindR (load_file en depth p) (\<lambda>(v, fs). Inr (v, p # fs))) = Inl RecursionError"
    by (auto simp: inc_def res_simps)
  have "load_file en depth p = Inl RecursionError"
    using p(2) by (auto simp: wrap_OSError_def YAMLError_def RecursionError_def res_simps
        split: sum.splits exn.splits prod.splits)
  moreover have "refers en path p" using n name(1) p(1) by (auto simp: refers_def)
  ultimately show ?thesis by blast
qed

text \<open>
  The files a load reports, besides the one it was asked for, are exactly the files
  reached through includes, directly or nested, so watching them watches everything the
  configuration depends on; and a load that returns met no file that includes itself.
\<close>

theorem include_files_complete:
  assumes "load_file en depth path = Inr (v, fs)"
  shows "set fs = {p. (refers en)\<^sup>+\<^sup>+ path p} \<and> (\<forall>p \<in> insert path (set fs). \<not> (refers en)\<^sup>+\<^sup>+ p p)"
proof -
  have no: False if "load_file en d p = Inr r" "(refers en)\<^sup>+\<^sup>+ p p" for d p r
    using that
  proof (induction d arbitrary: r rule: less_induct)
    case (less d)
    then show ?case using load_file_reaches [OF less.prems(2,1)] by blast
  qed
  have "\<exists>d r. load_file en d p = Inr r" if "p \<in> insert path (set fs)" for p
  proof (cases "p = path")
    case False
    with that have "(refers en)\<^sup>+\<^sup>+ path p" using load_file_files [OF assms] by blast
    from load_file_reaches [OF this assms] show ?thesis by blast
  qed (use assms in blast)
  with no load_file_files [OF assms] show ?thesis by blast
qed

text \<open>
  Property C20. Where includes are well-founded, a load with room for the longest chain of
  includes below the file never runs out of stack, and more room gives the same result.
\<close>

theorem include_load_terminates:
  fixes rank :: "string \<Rightarrow> nat"
  assumes "\<And>path p. refers en path p \<Longrightarrow> rank p < rank path" and "no_recursion en" and "rank path < depth"
  shows "load_file en depth path = load_file en (Suc (rank path)) path \<and> load_file en depth path \<noteq> Inl RecursionError"
proof -
  have "rank path < depth \<Longrightarrow> load_file en depth path \<noteq> Inl RecursionError" for depth path
  proof (induction depth arbitrary: path)
    case (Suc d)
    have "load_file en d p \<noteq> Inl RecursionError" if "refers en path p" for p
      using assms(1) [OF that] Suc.prems by (intro Suc.IH) simp
    then show ?case using load_file_recursion [OF assms(2)] by blast
  qed simp
  with load_file_deep_enough [of en rank, OF assms(1) assms(3)] assms(3) show ?thesis by blast
qed

text \<open>A configuration that includes two files of its directory, one nested in the other.\<close>

definition example_yaml :: yaml_env where
  "example_yaml = \<lparr>read_file = (\<lambda>p. if p \<in> {''/etc/c.yml'', ''/etc/f.yml'', ''/etc/g.yml''} then Inr p else Inl OSError),
     yaml_parse = (\<lambda>d. Inr (if d = ''/etc/c.yml'' then YMap [(''tcp_connect'', YInclude ''f.yml'')]
        else if d = ''/etc/f.yml'' then YSeq [YInclude ''/etc/g.yml''] else YScalar (PInt 1))),
     fetch_remote = (\<lambda>u. Inl ValueError)\<rparr>"

lemmas path_simps = path_isabs_def path_dirname_def path_join_def is_url_def startswith_def endswith_def
  include_path_def Let_def

theorem include_files_complete_witness:
  "load_file example_yaml 4 ''/etc/c.yml'' =
     Inr (PDict [(''tcp_connect'', PList [PInt 1])], [''/etc/f.yml'', ''/etc/g.yml'']) \<and>
   {p. (refers example_yaml)\<^sup>+\<^sup>+ ''/etc/c.yml'' p} = {''/etc/f.yml'', ''/etc/g.yml''}"
proof -
  have four: "(4 :: nat) = Suc (Suc (Suc (Suc 0)))" by simp
  have "load_file example_yaml 4 ''/etc/c.yml'' =
     Inr (PDict [(''tcp_connect'', PList [PInt 1])], [''/etc/f.yml'', ''/etc/g.yml''])"
    unfolding four by (simp add: example_yaml_def path_simps wrap_OSError_def)
  with include_files_complete [OF this] show ?thesis by simp
qed

definition example_rank :: "string \<Rightarrow> nat" where
  "example_rank p = (if p = ''/etc/c.yml'' then 2 else if p = ''/etc/f.yml'' then 1 else 0)"

theorem include_load_terminates_witness:
  "load_file example_yaml 1000 ''/etc/c.yml'' = load_file example_yaml 3 ''/etc/c.yml''"
proof -
  have "example_rank p < example_rank path" if "refers example_yaml path p" for path p
    using that by (auto simp: refers_def example_yaml_def example_rank_def path_simps split: if_splits)
  moreover have "no_recursion example_yaml"
    by (simp add: no_recursion_def example_yaml_def RecursionError_def)
  ultimately show ?thesis
    using include_load_terminates [of example_yaml example_rank "''/etc/c.yml''" 1000]
    by (simp add: example_rank_def del: load_file.simps)
qed

section \<open>What a fetch writes\<close>

definition stored_sum :: "remote_env \<Rightarrow> (string \<times> string) list \<Rightarrow> string \<Rightarrow> string" where
  "stored_sum en fs path = (case map_of fs path of None \<Rightarrow> [] | Some c \<Rightarrow> md5 en c)"

lemma fetch_impl:
  assumes "http_get en url = Inr content"
    and "s3_unchanged en url (stored_sum en fs output_path) = Inr False"
    and "map_of fs (mkstemp en fs) = None" and "mkstemp en fs \<noteq> output_path"
  shows "\<exists>fs'. fetch_remote_configuration_impl en url output_path fs = (Inr (), fs') \<and>
    map_of fs' = (if md5 en content \<noteq> stored_sum en fs output_path
                  then (map_of fs)(output_path \<mapsto> content)
                  else (map_of fs)(mkstemp en fs \<mapsto> content))"
proof -
  define tmp where "tmp = mkstemp en fs"
  define fs1 where "fs1 = AList.update tmp content (AList.update tmp [] fs)"
  have m1: "map_of fs1 = (map_of fs)(tmp \<mapsto> content)" by (auto simp: fs1_def update_conv')
  have sum: "(if map_of fs output_path \<noteq> None then md5sum en output_path fs else (Inr [], fs)) =
      (Inr (stored_sum en fs output_path), fs)"
    by (simp add: md5sum_def stored_sum_def split: option.split)
  have run: "fetch_remote_configuration_impl en url output_path fs =
      (if md5 en content \<noteq> stored_sum en fs output_path then rename_file tmp output_path fs1 else (Inr (), fs1))"
  proof -
    have "md5sum en tmp fs1 = (Inr (md5 en content), fs1)" by (simp add: md5sum_def m1)
    then show ?thesis using assms(1,2) sum unfolding tmp_def fs1_def
      by (simp add: fetch_remote_configuration_impl_def bindE_def Let_def write_tmp_def)
  qed
  have "map_of (AList.update output_path content (AList.delete tmp fs1)) = (map_of fs)(output_path \<mapsto> content)"
    using assms(3,4) by (auto simp: update_conv' delete_conv' m1 tmp_def fun_eq_iff)
  with run show ?thesis by (auto simp: rename_file_def m1 tmp_def)
qed

text \<open>
  A fetch that downloads replaces the output file with exactly what was served when
  the checksums differ and leaves it alone otherwise; no other file changes, except that the
  temporary file of a download with nothing new stays behind.
\<close>

theorem fetch_remote_updates:
  assumes "http_get en url = Inr content"
    and "s3_unchanged en url (stored_sum en fs output_path) = Inr False"
    and "map_of fs (mkstemp en fs) = None" and "mkstemp en fs \<noteq> output_path"
  shows "\<exists>fs'. fetch_remote_configuration_impl en url output_path fs = (Inr (), fs') \<and>
    map_of fs' = (if md5 en content \<noteq> stored_sum en fs output_path
                  then (map_of fs)(output_path \<mapsto> content)
                  else (map_of fs)(mkstemp en fs \<mapsto> content))"
  using assms by (rule fetch_impl)

definition example_remote :: remote_env where
  "example_remote = \<lparr>md5 = (\<lambda>c. ''sum-'' @ c), head_etag = (\<lambda>_. Inr None), http_get = (\<lambda>_. Inr ''new''),
     mkstemp = (\<lambda>fs. ''/tmp/'' @ show_nat (length fs))\<rparr>"

theorem fetch_remote_updates_witness:
  "\<exists>fs'. fetch_remote_configuration_impl example_remote ''http://h/c.yml'' ''/out/c.yml'' [(''/out/c.yml'', ''old'')]
     = (Inr (), fs') \<and> map_of fs' ''/out/c.yml'' = Some ''new''"
  using fetch_remote_updates [of example_remote "''http://h/c.yml''" "''new''"
      "[(''/out/c.yml'', ''old'')]" "''/out/c.yml''"]
  by (auto simp: example_remote_def s3_unchanged_def stored_sum_def startswith_def)

text \<open>One round of the fetcher's loop: the entries of a snapshot of the workload, in turn.\<close>

definition fetch_round :: "remote_env \<Rightarrow> (string \<times> string) list \<Rightarrow> ((string \<times> string) list, unit) eff" where
  "fetch_round en snapshot = forE snapshot (\<lambda>(url, output_path). fetch_remote_configuration_impl en url output_path)"

text \<open>A path whose file has the checksum of what its URL serves.\<close>

definition synced :: "remote_env \<Rightarrow> (string \<times> string) list \<Rightarrow> string \<times> string \<Rightarrow> bool" where
  "synced en fs entry = (\<exists>content c. http_get en (fst entry) = Inr content \<and> map_of fs (snd entry) = Some c \<and> md5 en c = md5 en content)"

text \<open>
  What a URL serves; an S3 server also reports its checksum in the header, quoted and in either case.
\<close>

definition serves :: "remote_env \<Rightarrow> string \<Rightarrow> string \<Rightarrow> bool" where
  "serves en url content = (http_get en url = Inr content \<and> (occurs_in ''.s3.amazonaws.'' url \<longrightarrow>
     (\<exists>etag. head_etag en url = Inr (Some etag) \<and> map lower_char (strip_quotes etag) = md5 en content)))"

lemma fetch_skips:
  assumes "s3_unchanged en url (stored_sum en fs path) = Inr True"
  shows "fetch_remote_configuration_impl en url path fs = (Inr (), fs)"
  using assms by (auto simp: fetch_remote_configuration_impl_def bindE_def md5sum_def stored_sum_def split: option.split)

lemma fetch_syncs:
  assumes "serves en url content" and "\<And>c. md5 en c \<noteq> []"
    and "map_of fs (mkstemp en fs) = None" and "mkstemp en fs \<notin> insert path paths"
  shows "\<exists>fs'. fetch_remote_configuration_impl en url path fs = (Inr (), fs') \<and> synced en fs' (url, path) \<and>
    (\<forall>p \<in> paths. p \<noteq> path \<longrightarrow> map_of fs' p = map_of fs p)"
proof -
  have get: "http_get en url = Inr content" using assms(1) by (simp add: serves_def)
  define sum where "sum = stored_sum en fs path"
  have stored: "\<exists>c. map_of fs path = Some c \<and> md5 en c = sum" if "sum \<noteq> []"
    using that by (auto simp: sum_def stored_sum_def split: option.splits)
  have "s3_unchanged en url sum = Inr (sum \<noteq> [] \<and> occurs_in ''.s3.amazonaws.'' url \<and> sum = md5 en content)"
    using assms(1) by (auto simp: s3_unchanged_def serves_def)
  then consider (skip) "s3_unchanged en url sum = Inr True" "sum \<noteq> []" "sum = md5 en content"
    | (download) "s3_unchanged en url sum = Inr False" by fastforce
  then show ?thesis
  proof cases
    case skip
    with fetch_skips [OF skip(1) [unfolded sum_def]] stored get show ?thesis by (auto simp: synced_def)
  next
    case download
    from fetch_impl [OF get download [unfolded sum_def] assms(3)] assms(4) obtain fs' where
      fs': "fetch_remote_configuration_impl en url path fs = (Inr (), fs')"
        "map_of fs' = (if md5 en content \<noteq> sum then (map_of fs)(path \<mapsto> content)
                       else (map_of fs)(mkstemp en fs \<mapsto> content))" by (auto simp: sum_def)
    have "synced en fs' (url, path)"
    proof (cases "md5 en content = sum")
      case True
      then have "sum \<noteq> []" using assms(2) by metis
      with stored True fs'(2) get assms(4) show ?thesis by (auto simp: synced_def)
    qed (use fs'(2) get in \<open>auto simp: synced_def\<close>)
    with fs' assms(4) show ?thesis by auto
  qed
qed

text \<open>
  Property C21. A round of the fetcher leaves the file of every registered URL with the checksum of
  what the URL serves, whether it was missing, out of date or current before, and whether the
  download was made or, on S3, skipped because of the checksum in the header. This needs every
  request to succeed, S3 to report the checksum of what it serves, temporary files to get names of
  their own, and no two URLs to share a file.
\<close>

theorem fetch_round_syncs:
  assumes "distinct (map snd snapshot)" and "\<And>c. md5 en c \<noteq> []"
    and "\<forall>(url, path) \<in> set snapshot. \<exists>content. serves en url content"
    and "\<And>fs. map_of fs (mkstemp en fs) = None \<and> mkstemp en fs \<notin> snd ` set snapshot"
  shows "\<exists>fs'. fetch_round en snapshot fs = (Inr (), fs') \<and> (\<forall>entry \<in> set snapshot. synced en fs' entry)"
proof -
  have "\<exists>fs'. fetch_round en todo fs = (Inr (), fs') \<and> (\<forall>entry \<in> set todo. synced en fs' entry) \<and>
      (\<forall>p \<in> snd ` set snapshot. p \<notin> snd ` set todo \<longrightarrow> map_of fs' p = map_of fs p)"
    if "set todo \<subseteq> set snapshot" "distinct (map snd todo)" for todo fs
    using that
  proof (induction todo arbitrary: fs)
    case (Cons entry todo)
    obtain url path where e: "entry = (url, path)" by (cases entry)
    with Cons.prems(1) assms(3) obtain content where c: "serves en url content" by auto
    have "mkstemp en fs \<notin> insert path (snd ` set snapshot)" using assms(4) [of fs] Cons.prems(1) e by force
    from fetch_syncs [OF c assms(2) _ this] assms(4) [of fs] obtain fs1 where
      fs1: "fetch_remote_configuration_impl en url path fs = (Inr (), fs1)" "synced en fs1 entry"
        "\<forall>p \<in> snd ` set snapshot. p \<noteq> path \<longrightarrow> map_of fs1 p = map_of fs p" by (auto simp: e)
    from Cons.IH [of fs1] Cons.prems obtain fs' where
      fs': "fetch_round en todo fs1 = (Inr (), fs')" "\<forall>entry \<in> set todo. synced en fs' entry"
        "\<forall>p \<in> snd ` set snapshot. p \<notin> snd ` set todo \<longrightarrow> map_of fs' p = map_of fs1 p" by auto
    have "map_of fs' path = map_of fs1 path" using fs'(3) Cons.prems e by force
    then have "synced en fs' entry" using fs1(2) by (simp add: synced_def e)
    with fs1 fs' show ?case by (auto simp: e fetch_round_def bindE_def)
  qed (simp add: fetch_round_def)
  from this [OF subset_refl assms(1)] show ?thesis by blast
qed

definition example_server :: remote_env where
  "example_server = \<lparr>md5 = (\<lambda>c. ''sum-'' @ c), head_etag = (\<lambda>u. Inr (Some (CHR 0x22 # ''sum-'' @ u @ [CHR 0x22]))), http_get = (\<lambda>u. Inr u),
     mkstemp = (\<lambda>fs. ''/tmp/'' @ concat (map fst fs))\<rparr>"

theorem fetch_round_syncs_witness:
  "\<exists>fs'. fetch_round example_server [(''http://a'', ''/out/a''), (''http://b.s3.amazonaws.com'', ''/out/b'')]
      [(''/out/b'', ''old'')] = (Inr (), fs') \<and>
    (\<exists>c. map_of fs' ''/out/b'' = Some c \<and> md5 example_server c = ''sum-http://b.s3.amazonaws.com'')"
proof -
  let ?todo = "[(''http://a'', ''/out/a''), (''http://b.s3.amazonaws.com'', ''/out/b'')]"
  have tmp: "map_of fs (mkstemp example_server fs) = None \<and> mkstemp example_server fs \<notin> snd ` set ?todo" for fs
  proof -
    have "length p \<le> length (concat (map fst fs))" if "p \<in> fst ` set fs" for p
    proof -
      from that obtain us vs v where "fs = us @ (p, v) # vs" by (metis (no_types, lifting) imageE prod.collapse split_list)
      then show ?thesis by simp
    qed
    then have "mkstemp example_server fs \<notin> fst ` set fs" by (fastforce simp: example_server_def)
    then show ?thesis by (auto simp: map_of_eq_None_iff) (auto simp: example_server_def)
  qed
  have "serves example_server ''http://a'' ''http://a''"
    by (simp add: serves_def example_server_def startswith_def)
  moreover have "map lower_char (strip_quotes (CHR 0x22 # ''sum-http://b.s3.amazonaws.com'' @ [CHR 0x22])) =
      ''sum-http://b.s3.amazonaws.com''" by code_simp
  then have "serves example_server ''http://b.s3.amazonaws.com'' ''http://b.s3.amazonaws.com''"
    by (simp add: serves_def example_server_def)
  ultimately have "\<forall>(url, path) \<in> set ?todo. \<exists>content. serves example_server url content" by auto
  moreover have "md5 example_server c \<noteq> []" for c by (simp add: example_server_def)
  ultimately obtain fs' where "fetch_round example_server ?todo [(''/out/b'', ''old'')] = (Inr (), fs')"
    "\<forall>entry \<in> set ?todo. synced example_server fs' entry"
    using fetch_round_syncs [OF _ _ _ tmp, of "[(''/out/b'', ''old'')]"] by auto
  moreover have "http_get example_server url = Inr url" "md5 example_server url = ''sum-'' @ url" for url
    by (simp_all add: example_server_def)
  ultimately show ?thesis by (auto simp: synced_def)
qed

section \<open>The includer and the fetcher\<close>

definition sync_start :: "(string \<times> nat) list \<Rightarrow> fetcher_pc \<Rightarrow> sync_state" where
  "sync_start others pc = \<lparr>workload = others, includer = Registering, fetcher = pc, downloaded = {}\<rparr>"

fun pending :: "fetcher_pc \<Rightarrow> (string \<times> nat) set" where
  "pending LoopStart = {}"
| "pending (InRound es) = set es"
| "pending (Fetching u c es) = insert (u, c) (set es)"
| "pending WaitingFence = {}"

text \<open>
  The condition of the includer is its own: every entry that carries it is for its URL, and the
  includer has returned only after a fetch of the URL.
\<close>

definition sync_inv :: "string \<Rightarrow> nat \<Rightarrow> sync_state \<Rightarrow> bool" where
  "sync_inv url ready s = ((\<forall>u. (u, ready) \<in> set (workload s) \<union> pending (fetcher s) \<longrightarrow> u = url) \<and>
     (includer s = Returned \<longrightarrow> url \<in> downloaded s))"

lemma set_update_sub: "set (AList.update k v xs) \<subseteq> insert (k, v) (set xs)"
  by (induction xs) auto

lemma sync_inv_step: "sync_step url ready s s' \<Longrightarrow> sync_inv url ready s \<Longrightarrow> sync_inv url ready s'"
proof (induction rule: sync_step.induct)
  case (register s)
  then show ?case using set_update_sub [of url ready "workload s"] by (auto simp: sync_inv_def)
qed (auto simp: sync_inv_def)

text \<open>
  Property C22. An include of a URL returns only when its file was fetched: in every interleaving
  with the fetcher, and whatever else is in the workload, a notification of the includer's
  condition follows a successful download of its own URL.
\<close>

theorem include_remote_returns_fetched:
  assumes "(sync_step url ready)\<^sup>*\<^sup>* (sync_start others pc) s" and "includer s = Returned"
    and "\<forall>u. (u, ready) \<notin> set others \<union> pending pc"
  shows "url \<in> downloaded s"
proof -
  have "sync_inv url ready (sync_start others pc)" using assms(3) by (simp add: sync_inv_def sync_start_def)
  from assms(1) this have "sync_inv url ready s"
    by (induction rule: rtranclp_induct) (auto intro: sync_inv_step)
  with assms(2) show ?thesis by (simp add: sync_inv_def)
qed

theorem include_remote_returns_fetched_witness:
  "\<exists>s. (sync_step ''http://h'' 0)\<^sup>*\<^sup>* (sync_start [] LoopStart) s \<and> includer s = Returned \<and> ''http://h'' \<in> downloaded s"
proof -
  let ?S = "\<lambda>i f d. \<lparr>workload = [(''http://h'', 0)], includer = i, fetcher = f, downloaded = d\<rparr> :: sync_state"
  let ?R = "sync_step ''http://h'' 0"
  have "?R (sync_start [] LoopStart) (?S NotifyingFence LoopStart {})"
    using sync_step.register [of "sync_start [] LoopStart"] by (simp add: sync_start_def)
  moreover have "?R (?S NotifyingFence LoopStart {}) (?S TakingReady LoopStart {})"
    using sync_step.notify_fence [of "?S NotifyingFence LoopStart {}"] by simp
  moreover have "?R (?S TakingReady LoopStart {}) (?S WaitingReady LoopStart {})"
    using sync_step.wait_ready [of "?S TakingReady LoopStart {}" 0] by simp
  moreover have "?R (?S WaitingReady LoopStart {}) (?S WaitingReady (InRound [(''http://h'', 0)]) {})"
    using sync_step.start_round [of "?S WaitingReady LoopStart {}"] by simp
  moreover have "?R (?S WaitingReady (InRound [(''http://h'', 0)]) {}) (?S WaitingReady (Fetching ''http://h'' 0 []) {})"
    using sync_step.take_entry [of "?S WaitingReady (InRound [(''http://h'', 0)]) {}"] by simp
  moreover have "?R (?S WaitingReady (Fetching ''http://h'' 0 []) {}) (?S Returned (InRound []) {''http://h''})"
    using sync_step.fetched [of "?S WaitingReady (Fetching ''http://h'' 0 []) {}" "''http://h''" 0 "[]" "''http://h''" 0] by simp
  ultimately have run: "?R\<^sup>*\<^sup>* (sync_start [] LoopStart) (?S Returned (InRound []) {''http://h''})"
    by (meson converse_rtranclp_into_rtranclp rtranclp.rtrancl_refl)
  from include_remote_returns_fetched [OF this] run show ?thesis by (intro exI conjI) auto
qed

text \<open>
  Property C23. An include of a URL can be left waiting although its file was fetched: when the
  fetcher takes up the new entry after it was woken and before the includer waits, the
  notification meets no waiter, the fetcher goes back to wait for the fence, and nothing but the
  two timeouts, of seconds for the includer and an hour for the fetcher, can happen.
\<close>

theorem include_remote_lost_wakeup:
  "\<exists>s. (sync_step url ready)\<^sup>*\<^sup>* (sync_start [] LoopStart) s \<and> url \<in> downloaded s \<and> includer s = WaitingReady \<and>
     (\<forall>s'. sync_step url ready s s' \<longrightarrow> includer s' = TimedOut \<or> s' = s\<lparr>fetcher := LoopStart\<rparr> \<and> fetcher s = WaitingFence)"
proof -
  let ?S = "\<lambda>i f d. \<lparr>workload = [(url, ready)], includer = i, fetcher = f, downloaded = d\<rparr> :: sync_state"
  let ?R = "sync_step url ready"
  have "?R (sync_start [] LoopStart) (?S NotifyingFence LoopStart {})"
    using sync_step.register [of "sync_start [] LoopStart"] by (simp add: sync_start_def)
  moreover have "?R (?S NotifyingFence LoopStart {}) (?S TakingReady LoopStart {})"
    using sync_step.notify_fence [of "?S NotifyingFence LoopStart {}"] by simp
  moreover have "?R (?S TakingReady LoopStart {}) (?S TakingReady (InRound [(url, ready)]) {})"
    using sync_step.start_round [of "?S TakingReady LoopStart {}"] by simp
  moreover have "?R (?S TakingReady (InRound [(url, ready)]) {}) (?S TakingReady (Fetching url ready []) {})"
    using sync_step.take_entry [of "?S TakingReady (InRound [(url, ready)]) {}"] by simp
  moreover have "?R (?S TakingReady (Fetching url ready []) {}) (?S TakingReady (InRound []) {url})"
    using sync_step.fetched [of "?S TakingReady (Fetching url ready []) {}" url ready "[]" url ready] by simp
  moreover have "?R (?S TakingReady (InRound []) {url}) (?S TakingReady WaitingFence {url})"
    using sync_step.end_round [of "?S TakingReady (InRound []) {url}"] by simp
  moreover have "?R (?S TakingReady WaitingFence {url}) (?S WaitingReady WaitingFence {url})"
    using sync_step.wait_ready [of "?S TakingReady WaitingFence {url}" ready] by simp
  ultimately have "?R\<^sup>*\<^sup>* (sync_start [] LoopStart) (?S WaitingReady WaitingFence {url})"
    by (meson converse_rtranclp_into_rtranclp rtranclp.rtrancl_refl)
  moreover have "includer s' = TimedOut \<or> s' = ?S WaitingReady WaitingFence {url}\<lparr>fetcher := LoopStart\<rparr>"
    if "?R (?S WaitingReady WaitingFence {url}) s'" for s'
    using that by (cases rule: sync_stepE) auto
  ultimately show ?thesis by (intro exI [of _ "?S WaitingReady WaitingFence {url}"]) auto
qed

theorem include_remote_lost_wakeup_witness:
  "\<exists>s. (sync_step ''http://h'' 0)\<^sup>*\<^sup>* (sync_start [] LoopStart) s \<and> ''http://h'' \<in> downloaded s \<and> includer s = WaitingReady"
  using include_remote_lost_wakeup [of "''http://h''" 0] by blast

text \<open>
  After a restart, when the fetcher was told to stop and the loader cleaned up, the
  directory the next remote include writes to exists exactly when the fetcher had been given a
  stop flag. So it exists when the configuration file itself has the first remote include, and is
  gone when a file it includes has, because the loaders of included files are made without it.
\<close>

theorem remote_dir_after_restart:
  assumes "\<And>ds. mkdtemp ds \<notin> set ds" and "remote_fetcher cls = None"
    and "l = (if nested then next_loader filepath (get_loader_instance True) else get_loader_instance True)"
    and "cls1 = snd (register_remote mkdtemp sha256 url (loader_stop_flag l) cls)"
    and "cls2 = snd (register_remote mkdtemp sha256 url2 True (cleanup (fetcher_stops cls1)))"
  shows "remote_fetcher_outdir cls2 \<in> set (directories cls2) \<longleftrightarrow> \<not> nested"
  unfolding assms(5,4,3) using assms(1,2)
  by (auto simp: new_loader_def next_loader_def get_loader_instance_def register_remote_def ensure_fetcher_def cleanup_def fetcher_stops_def Let_def)

definition example_loader :: loader_class where
  "example_loader = \<lparr>remote_fetcher = None, remote_fetcher_outdir = [], remote_fetcher_fence = False,
     remote_fetch_workload = [], directories = []\<rparr>"

definition example_mkdtemp :: "string list \<Rightarrow> string" where
  "example_mkdtemp ds = ''/tmp/'' @ concat ds"

theorem remote_dir_after_restart_witness:
  "let l = next_loader ''/etc/f.yml'' (get_loader_instance True);
       cls1 = snd (register_remote example_mkdtemp (\<lambda>u. u) ''http://h'' (loader_stop_flag l) example_loader);
       cls2 = snd (register_remote example_mkdtemp (\<lambda>u. u) ''http://h'' True (cleanup (fetcher_stops cls1)))
   in remote_fetcher_outdir cls2 \<notin> set (directories cls2)"
proof -
  have "example_mkdtemp ds \<notin> set ds" for ds
  proof
    assume "example_mkdtemp ds \<in> set ds"
    then obtain us vs where ds: "ds = us @ example_mkdtemp ds # vs" using split_list by metis
    have "length (example_mkdtemp ds) \<le> length (concat ds)" by (subst (2) ds) simp
    then show False by (simp add: example_mkdtemp_def)
  qed
  then show ?thesis
    using remote_dir_after_restart [of example_mkdtemp example_loader _ True "''/etc/f.yml''" _ "\<lambda>u. u" "''http://h''" _ "''http://h''"]
    by (simp add: example_loader_def Let_def)
qed

end
