(* ===== verification/Arguments.thy ===== *)
theory Arguments
  imports Prelude
begin

text \<open>
  The command line of \<^verbatim>\<open>pidtree_bcc/main.py\<close>, function \<open>parse_args\<close>:
  the options it declares and how \<open>argparse\<close> reads a list of argument strings with them:
  classifying every string first (exact names, \<open>name=value\<close>, unique prefixes, flags and
  values run together), then taking the actions from left to right. The usage and help texts
  that are printed before the program exits are left out; errors are the exit code 2.
\<close>

section \<open>The options\<close>

datatype arg_action = A_help | A_config | A_print_and_quit | A_output_file | A_watch_config
  | A_health_check_period | A_lost_event_telemetry | A_extra_probe_path | A_extra_plugin_path | A_version

definition option_string_actions :: "(string \<times> arg_action) list" where
  "option_string_actions =
    [(''-h'', A_help), (''--help'', A_help),
     (''-c'', A_config), (''--config'', A_config),
     (''-p'', A_print_and_quit), (''--print-and-quit'', A_print_and_quit),
     (''-f'', A_output_file), (''--output_file'', A_output_file),
     (''-w'', A_watch_config), (''--watch-config'', A_watch_config),
     (''--health-check-period'', A_health_check_period),
     (''--lost-event-telemetry'', A_lost_event_telemetry),
     (''--extra-probe-path'', A_extra_probe_path),
     (''--extra-plugin-path'', A_extra_plugin_path),
     (''-v'', A_version), (''--version'', A_version)]"

text \<open>The options that take one value; the others take none.\<close>

definition takes_value :: "arg_action \<Rightarrow> bool" where
  "takes_value a = (a \<notin> {A_help, A_print_and_quit, A_watch_config, A_version})"

record arguments =
  config :: "string option"
  print_and_quit :: bool
  output_file :: string
  watch_config :: bool
  health_check_period :: int
  lost_event_telemetry_arg :: int
  extra_probe_path :: "string option"
  extra_plugin_path :: "string option"

definition HEALTH_CHECK_PERIOD_DEFAULT :: int where "HEALTH_CHECK_PERIOD_DEFAULT = 60"

definition default_arguments :: arguments where
  "default_arguments = \<lparr>config = None, print_and_quit = False, output_file = ''-'', watch_config = False,
     health_check_period = HEALTH_CHECK_PERIOD_DEFAULT, lost_event_telemetry_arg = -1,
     extra_probe_path = None, extra_plugin_path = None\<rparr>"

definition program_name :: string where "program_name = ''pidtree-bcc''"
definition program_version :: string where "program_version = ''2.7.0''"

section \<open>Classifying a string\<close>

text \<open>
  An argument, the separator \<open>--\<close>, or an option: its action (none when it is unknown), its
  name, and a value given in the same string with what separates it (\<open>=\<close> or nothing).
\<close>

datatype arg_kind = Argument | Separator | Option "arg_action option" string "(string \<times> string) option"

definition partition_eq :: "string \<Rightarrow> string \<times> (string \<times> string) option" where
  "partition_eq s = (case dropWhile (\<lambda>c. c \<noteq> CHR ''='') s of
     [] \<Rightarrow> (s, None) | _ # value \<Rightarrow> (takeWhile (\<lambda>c. c \<noteq> CHR ''='') s, Some (''='', value)))"

definition get_option_tuples :: "string \<Rightarrow> (arg_action \<times> string \<times> (string \<times> string) option) list" where
  "get_option_tuples s =
     (if startswith s ''--''
      then (case partition_eq s of (prefix, value) \<Rightarrow>
        map (\<lambda>(name, a). (a, name, value)) (filter (\<lambda>(name, a). startswith name prefix) option_string_actions))
      else List.map_filter (\<lambda>(name, a).
        if name = take 2 s then Some (a, name, Some ('''', drop 2 s))
        else if startswith name s then Some (a, name, None) else None) option_string_actions)"

text \<open>The pattern \<^verbatim>\<open>^-\d+$|^-\d*\.\d+$\<close>; its end may stand before a final newline.\<close>

definition negative_number :: "string \<Rightarrow> bool" where
  "negative_number s = (case (if s \<noteq> [] \<and> last s = CHR 10 then butlast s else s) of
       [] \<Rightarrow> False
     | m # ds \<Rightarrow> m = CHR ''-'' \<and>
        (ds \<noteq> [] \<and> list_all is_digit ds \<or>
         (case dropWhile is_digit ds of [] \<Rightarrow> False
          | dot # es \<Rightarrow> dot = CHR ''.'' \<and> es \<noteq> [] \<and> list_all is_digit es)))"

definition parse_optional :: "string \<Rightarrow> arg_kind res" where
  "parse_optional s =
     (if s = [] \<or> hd s \<noteq> CHR ''-'' then Inr Argument
      else case map_of option_string_actions s of
        Some a \<Rightarrow> Inr (Option (Some a) s None)
      | None \<Rightarrow>
        if length s = 1 then Inr Argument
        else case partition_eq s of (name, value) \<Rightarrow>
          (case (value, map_of option_string_actions name) of
             (Some v, Some a) \<Rightarrow> Inr (Option (Some a) name (Some v))
           | _ \<Rightarrow>
             (case get_option_tuples s of
                [(a, name', value')] \<Rightarrow> Inr (Option (Some a) name' value')
              | _ # _ # _ \<Rightarrow> Inl (SystemExit 2)
              | [] \<Rightarrow> if negative_number s \<or> CHR '' '' \<in> set s then Inr Argument
                      else Inr (Option None s None))))"

fun classify :: "string list \<Rightarrow> (string \<times> arg_kind) list res" where
  "classify [] = Inr []"
| "classify (s # ss) =
     (if s = ''--'' then Inr ((s, Separator) # map (\<lambda>t. (t, Argument)) ss)
      else bindR (parse_optional s) (\<lambda>k. bindR (classify ss) (\<lambda>ks. Inr ((s, k) # ks))))"

section \<open>Taking the actions\<close>

definition take_action :: "arg_action \<Rightarrow> string \<Rightarrow> arguments \<Rightarrow> arguments res" where
  "take_action a v ns =
     (let int_value = (case int_of_str v of Inl _ \<Rightarrow> Inl (SystemExit 2) | Inr i \<Rightarrow> Inr i)
      in case a of
       A_help \<Rightarrow> Inl (SystemExit 0)
     | A_version \<Rightarrow> Inl (SystemExit 0)
     | A_config \<Rightarrow> Inr (ns\<lparr>config := Some v\<rparr>)
     | A_print_and_quit \<Rightarrow> Inr (ns\<lparr>print_and_quit := True\<rparr>)
     | A_output_file \<Rightarrow> Inr (ns\<lparr>output_file := v\<rparr>)
     | A_watch_config \<Rightarrow> Inr (ns\<lparr>watch_config := True\<rparr>)
     | A_health_check_period \<Rightarrow> bindR int_value (\<lambda>i. Inr (ns\<lparr>health_check_period := i\<rparr>))
     | A_lost_event_telemetry \<Rightarrow> bindR int_value (\<lambda>i. Inr (ns\<lparr>lost_event_telemetry_arg := i\<rparr>))
     | A_extra_probe_path \<Rightarrow> Inr (ns\<lparr>extra_probe_path := Some v\<rparr>)
     | A_extra_plugin_path \<Rightarrow> Inr (ns\<lparr>extra_plugin_path := Some v\<rparr>))"

text \<open>
  The actions of one string: flags may be run together, and the last one may have its value in
  the rest of the string. What comes back are the actions with their values, the strings nobody
  understood, and the option whose value is still to come.
\<close>

function expand_option ::
    "arg_action \<Rightarrow> string \<Rightarrow> (string \<times> string) option \<Rightarrow>
       ((arg_action \<times> string) list \<times> string list \<times> arg_action option) res" where
  "expand_option a name None = Inr (if takes_value a then ([], [], Some a) else ([(a, [])], [], None))"
| "expand_option a name (Some (sep, value)) =
     (if \<not> takes_value a \<and> name ! 1 \<noteq> CHR ''-'' \<and> value \<noteq> []
      then if sep \<noteq> [] \<or> hd value = CHR ''-'' then Inl (SystemExit 2)
        else (case map_of option_string_actions [hd name, hd value] of
               None \<Rightarrow> Inr ([(a, [])], [hd name # value], None)
             | Some a' \<Rightarrow>
                bindR (expand_option a' [hd name, hd value]
                         (if tl value = [] then None
                          else if hd (tl value) = CHR ''='' then Some (''='', tl (tl value))
                          else Some ('''', tl value)))
                  (\<lambda>(acts, extras, pend). Inr ((a, []) # acts, extras, pend)))
      else if takes_value a then Inr ([(a, value)], [], None)
      else Inl (SystemExit 2))"
  by pat_completeness auto
termination
  by (relation "measure (\<lambda>(a, name, v). case v of None \<Rightarrow> 0 | Some (sep, value) \<Rightarrow> Suc (length value))")
     (auto simp: neq_Nil_conv)

fun take_actions :: "(arg_action \<times> string) list \<Rightarrow> arguments \<Rightarrow> arguments res" where
  "take_actions [] ns = Inr ns"
| "take_actions ((a, v) # acts) ns = bindR (take_action a v ns) (take_actions acts)"

fun consume :: "(string \<times> arg_kind) list \<Rightarrow> string list \<Rightarrow> arguments \<Rightarrow> (arguments \<times> string list) res" where
  "consume [] extras ns = Inr (ns, extras)"
| "consume ((s, Option (Some a) name value) # rest) extras ns =
     bindR (expand_option a name value) (\<lambda>(acts, more_extras, pend).
       case pend of
         None \<Rightarrow> bindR (take_actions acts ns) (consume rest (extras @ more_extras))
       | Some a' \<Rightarrow>
          (case rest of
             (v, Argument) # rest' \<Rightarrow>
               bindR (take_actions (acts @ [(a', v)]) ns) (consume rest' (extras @ more_extras))
           | _ \<Rightarrow> Inl (SystemExit 2)))"
| "consume ((s, _) # rest) extras ns = consume rest (extras @ [s]) ns"

text \<open>The arguments, and what is written to the error output on the way.\<close>

definition parse_args :: "(string \<Rightarrow> bool) \<Rightarrow> string list \<Rightarrow> arguments res \<times> string list" where
  "parse_args path_exists argv =
     (case bindR (classify argv) (\<lambda>ks. consume ks [] default_arguments) of
        Inl e \<Rightarrow> (Inl e, [])
      | Inr (ns, extras) \<Rightarrow>
          if extras \<noteq> [] then (Inl (SystemExit 2), [])
          else (Inr ns, case config ns of
                  Some f \<Rightarrow> if path_exists f then [] else [''--config file does not exist'' @ [CHR 10]]
                | None \<Rightarrow> []))"

section \<open>Spellings\<close>

text \<open>
  The ways to write an option: a name is one of the declared ones or a prefix of exactly one long
  name; a value follows in a string of its own that does not look like an option, or after an
  equals sign, or directly after a short name.
\<close>

definition option_name :: "string \<Rightarrow> arg_action \<Rightarrow> bool" where
  "option_name p a = (map_of option_string_actions p = Some a \<or>
     map_of option_string_actions p = None \<and> startswith p ''--'' \<and> CHR ''='' \<notin> set p \<and>
     map snd (filter (\<lambda>(name, b). startswith name p) option_string_actions) = [a])"

definition spells :: "arg_action \<Rightarrow> string \<Rightarrow> string list \<Rightarrow> bool" where
  "spells a v ss = (\<exists>p. option_name p a \<and>
     (if takes_value a
      then ss = [p, v] \<and> parse_optional v = Inr Argument \<or> ss = [p @ CHR ''='' # v] \<or>
           ss = [p @ v] \<and> length p = 2 \<and> v \<noteq> [] \<and> hd v \<noteq> CHR ''=''
      else ss = [p] \<and> v = []))"

lemma option_table:
  "list_all (\<lambda>(p, a). CHR ''='' \<notin> set p \<and> hd p = CHR ''-'' \<and> 2 \<le> length p \<and>
     (p ! 1 = CHR ''-'' \<or> length p = 2) \<and> p \<noteq> ''--'') option_string_actions"
  by (simp add: option_string_actions_def)

lemma option_tableD:
  "map_of option_string_actions p = Some a \<Longrightarrow> CHR ''='' \<notin> set p \<and> hd p = CHR ''-'' \<and> 2 \<le> length p \<and>
     (p ! 1 = CHR ''-'' \<or> length p = 2) \<and> p \<noteq> ''--''"
  using option_table by (auto simp: list_all_iff dest!: map_of_SomeD)

lemma partition_eq_simps [simp]:
  "CHR ''='' \<notin> set p \<Longrightarrow> partition_eq (p @ CHR ''='' # v) = (p, Some (''='', v))"
  "CHR ''='' \<notin> set p \<Longrightarrow> partition_eq p = (p, None)"
proof -
  assume p: "CHR ''='' \<notin> set p"
  then have "dropWhile (\<lambda>c. c \<noteq> CHR ''='') p = []" by auto
  then show "partition_eq p = (p, None)" by (simp only: partition_eq_def list.case)
  have "dropWhile (\<lambda>c. c \<noteq> CHR ''='') (p @ CHR ''='' # v) = CHR ''='' # v"
    "takeWhile (\<lambda>c. c \<noteq> CHR ''='') (p @ CHR ''='' # v) = p"
    using p by (induction p) auto
  then show "partition_eq (p @ CHR ''='' # v) = (p, Some (''='', v))" by (simp only: partition_eq_def list.case)
qed

lemma optional_declared: "map_of option_string_actions p = Some a \<Longrightarrow> parse_optional p = Inr (Option (Some a) p None)"
  using option_tableD [of p a] by (auto simp: parse_optional_def)

lemma no_eq_in_table: "CHR ''='' \<in> set p \<Longrightarrow> map_of option_string_actions p = None"
  using option_tableD [of p] by (cases "map_of option_string_actions p") auto

lemma startswith_append: "startswith s p = (\<exists>t. s = p @ t)"
  by (metis append_eq_conv_conj append_take_drop_id startswith_def)

lemma startswith_trans: "startswith s p \<Longrightarrow> startswith p q \<Longrightarrow> startswith s q"
  by (auto simp: startswith_append)

lemma get_tuples_prefix:
  assumes "startswith p ''--''" and "partition_eq s = (p, value)" and "startswith s ''--''"
    and "map snd (filter (\<lambda>(name, b). startswith name p) option_string_actions) = [a]"
  shows "\<exists>name. get_option_tuples s = [(a, name, value)] \<and> map_of option_string_actions name = Some a \<and> startswith name ''--''"
proof -
  obtain name where f: "filter (\<lambda>(name, b). startswith name p) option_string_actions = [(name, a)]"
    using assms(4) by auto
  then have "(name, a) \<in> set (filter (\<lambda>(name, b). startswith name p) option_string_actions)" by simp
  then have m: "(name, a) \<in> set option_string_actions" "startswith name p" by auto
  moreover have "distinct (map fst option_string_actions)" by (simp add: option_string_actions_def)
  ultimately have "map_of option_string_actions name = Some a" by simp
  moreover have "startswith name ''--''"
    using m(2) assms(1) by (rule startswith_trans)
  ultimately show ?thesis using f assms(2,3) by (simp add: get_option_tuples_def)
qed

text \<open>An option name alone and with a value after an equals sign.\<close>

lemma optional_name:
  assumes "option_name p a"
  shows "\<exists>name. parse_optional p = Inr (Option (Some a) name None) \<and> p \<noteq> ''--'' \<and>
      map_of option_string_actions name = Some a"
    and "\<exists>name. parse_optional (p @ CHR ''='' # v) = Inr (Option (Some a) name (Some (''='', v)))"
proof -
  have p2: "2 \<le> length p \<and> hd p = CHR ''-'' \<and> CHR ''='' \<notin> set p \<and> p \<noteq> ''--''"
    using assms option_tableD [of p a]
    by (auto simp: option_name_def startswith_append) (auto simp: startswith_def option_string_actions_def)
  then have ne: "p \<noteq> []" "length p \<noteq> 1" by auto
  have no: "map_of option_string_actions (p @ CHR ''='' # v) = None" by (rule no_eq_in_table) simp
  show "\<exists>name. parse_optional p = Inr (Option (Some a) name None) \<and> p \<noteq> ''--'' \<and>
      map_of option_string_actions name = Some a"
  proof (cases "map_of option_string_actions p")
    case None
    then have "startswith p ''--''" "map snd (filter (\<lambda>(name, b). startswith name p) option_string_actions) = [a]"
      using assms by (auto simp: option_name_def)
    from get_tuples_prefix [OF this(1) partition_eq_simps(2) this] p2 None ne show ?thesis
      by (auto simp: parse_optional_def)
  qed (use assms p2 optional_declared in \<open>auto simp: option_name_def\<close>)
  show "\<exists>name. parse_optional (p @ CHR ''='' # v) = Inr (Option (Some a) name (Some (''='', v)))"
  proof (cases "map_of option_string_actions p")
    case None
    then have "startswith p ''--''" "map snd (filter (\<lambda>(name, b). startswith name p) option_string_actions) = [a]"
      using assms by (auto simp: option_name_def)
    moreover have "startswith (p @ CHR ''='' # v) ''--''" using calculation(1) by (auto simp: startswith_append)
    ultimately obtain name where "get_option_tuples (p @ CHR ''='' # v) = [(a, name, Some (''='', v))]"
      using get_tuples_prefix [of p "p @ CHR ''='' # v"] p2 by auto
    with p2 None ne no show ?thesis by (simp add: parse_optional_def)
  qed (use assms p2 ne no in \<open>auto simp: option_name_def parse_optional_def\<close>)
qed

lemma optional_joined:
  assumes "map_of option_string_actions p = Some a" and "length p = 2" and "v \<noteq> []" and "hd v \<noteq> CHR ''=''"
  shows "parse_optional (p @ v) = Inr (Option (Some a) p (Some ('''', v)))"
proof -
  obtain d where d: "p = [CHR ''-'', d]"
    using assms(2) option_tableD [OF assms(1)] by (auto simp: length_Suc_conv numeral_2_eq_2)
  obtain e t where "v = e # t" using assms(3) by (cases v) auto
  with d assms(4) option_tableD [OF assms(1)]
  have s: "p = [CHR ''-'', d]" "v = e # t" "e \<noteq> CHR ''=''" "d \<noteq> CHR ''-''" "d \<noteq> CHR ''=''" by auto
  have no: "map_of option_string_actions (CHR ''-'' # d # e # u) = None" for u
    using s option_tableD [of "CHR ''-'' # d # e # u"] by (cases "map_of option_string_actions (CHR ''-'' # d # e # u)") auto
  obtain u w where pe: "partition_eq (p @ v) = (CHR ''-'' # d # e # u, w)"
    using s by (cases "dropWhile (\<lambda>c. c \<noteq> CHR ''='') t") (auto simp: partition_eq_def)
  have "list_all (\<lambda>(p, a). length p = 2 \<longrightarrow> get_option_tuples (p @ e # t) = [(a, p, Some ('''', e # t))]) option_string_actions"
    by (simp add: get_option_tuples_def startswith_def option_string_actions_def List.map_filter_simps)
  then have "get_option_tuples (p @ v) = [(a, p, Some ('''', v))]"
    using map_of_SomeD [OF assms(1)] assms(2) s(2) by (auto simp: list_all_iff)
  with pe no s show ?thesis by (auto simp: parse_optional_def split: option.splits)
qed

lemma bindR_assoc: "bindR (bindR r f) g = bindR r (\<lambda>x. bindR (f x) g)"
  by (cases r) simp_all

lemma take_one_action [simp]: "bindR (take_action a v ns) (take_actions []) = take_action a v ns"
  by (cases "take_action a v ns") simp_all

text \<open>How the two passes take one option, whatever follows it.\<close>

lemma spells_read:
  assumes "spells a v ss"
  shows "\<exists>ks. (\<forall>rest. classify (ss @ rest) = bindR (classify rest) (\<lambda>r. Inr (ks @ r))) \<and>
    (\<forall>rest extras ns. consume (ks @ rest) extras ns = bindR (take_action a v ns) (consume rest extras))"
proof -
  obtain p where p: "option_name p a" and
    ss: "if takes_value a
      then ss = [p, v] \<and> parse_optional v = Inr Argument \<or> ss = [p @ CHR ''='' # v] \<or>
           ss = [p @ v] \<and> length p = 2 \<and> v \<noteq> [] \<and> hd v \<noteq> CHR ''=''
      else ss = [p] \<and> v = []" using assms by (auto simp: spells_def)
  obtain name name' where n: "parse_optional p = Inr (Option (Some a) name None)" "p \<noteq> ''--''"
      "parse_optional (p @ CHR ''='' # v) = Inr (Option (Some a) name' (Some (''='', v)))"
    using optional_name [OF p] by blast
  show ?thesis
  proof (cases "takes_value a")
    case False
    with ss n show ?thesis
      by (intro exI [of _ "[(p, Option (Some a) name None)]"]) auto
  next
    case True
    then consider "ss = [p, v]" "parse_optional v = Inr Argument" | "ss = [p @ CHR ''='' # v]"
      | "ss = [p @ v]" "length p = 2" "v \<noteq> []" "hd v \<noteq> CHR ''=''" using ss by auto
    then show ?thesis
    proof cases
      case 1
      have "parse_optional ''--'' \<noteq> Inr Argument" by code_simp
      with 1 n True show ?thesis
        by (intro exI [of _ "[(p, Option (Some a) name None), (v, Argument)]"]) (auto simp: bindR_assoc)
    next
      case 2
      have "p @ CHR ''='' # v \<noteq> ''--''"
      proof
        assume "p @ CHR ''='' # v = ''--''"
        then have "CHR ''='' \<in> set ''--''" by (metis in_set_conv_decomp)
        then show False by simp
      qed
      with 2 n True show ?thesis
        by (intro exI [of _ "[(p @ CHR ''='' # v, Option (Some a) name' (Some (''='', v)))]"]) auto
    next
      case 3
      then have "map_of option_string_actions p = Some a" "p @ v \<noteq> ''--''"
        using p n(2) by (auto simp: option_name_def startswith_append dest: arg_cong [of _ _ length])
      with 3 True optional_joined [of p a v] show ?thesis
        by (intro exI [of _ "[(p @ v, Option (Some a) p (Some ('''', v)))]"]) auto
    qed
  qed
qed

text \<open>
  Short flags run together, the last of them possibly followed by a short option and its value.
\<close>

definition short_flag :: "char \<Rightarrow> arg_action \<Rightarrow> bool" where
  "short_flag c a = (map_of option_string_actions [CHR ''-'', c] = Some a \<and> \<not> takes_value a)"

definition cluster_end :: "string \<Rightarrow> (arg_action \<times> string) list \<Rightarrow> bool" where
  "cluster_end cs acts = (cs = [] \<and> acts = [] \<or>
     (\<exists>c v a. cs = c # v \<and> v \<noteq> [] \<and> hd v \<noteq> CHR ''='' \<and> acts = [(a, v)] \<and>
        map_of option_string_actions [CHR ''-'', c] = Some a \<and> takes_value a))"

definition spells_cluster :: "(arg_action \<times> string) list \<Rightarrow> string list \<Rightarrow> bool" where
  "spells_cluster acts ss = (\<exists>f flags bs cs last_acts.
     ss = [CHR ''-'' # f # flags @ cs] \<and> flags @ cs \<noteq> [] \<and> list_all2 short_flag (f # flags) bs \<and>
     cluster_end cs last_acts \<and> acts = map (\<lambda>a. (a, [])) bs @ last_acts)"

lemma short_name: "map_of option_string_actions [CHR ''-'', c] = Some a \<Longrightarrow> c \<noteq> CHR ''-'' \<and> c \<noteq> CHR ''=''"
  using option_tableD [of "[CHR ''-'', c]" a] by auto

lemma expand_flag:
  assumes "short_flag f b" and "map_of option_string_actions [CHR ''-'', g] = Some b'"
    and "rest = [] \<or> hd rest \<noteq> CHR ''=''"
  shows "expand_option b [CHR ''-'', f] (Some ('''', g # rest)) =
    bindR (expand_option b' [CHR ''-'', g] (if rest = [] then None else Some ('''', rest)))
      (\<lambda>(acts, extras, pend). Inr ((b, []) # acts, extras, pend))"
  using assms short_name [of g b'] short_name [of f b]
  by (subst expand_option.simps) (auto simp: short_flag_def simp del: expand_option.simps)

lemma expand_cluster:
  "list_all2 short_flag (f # flags) bs \<Longrightarrow> cluster_end cs last_acts \<Longrightarrow>
   expand_option (hd bs) [CHR ''-'', f] (if flags @ cs = [] then None else Some ('''', flags @ cs)) =
     Inr (map (\<lambda>a. (a, [])) bs @ last_acts, [], None)"
proof (induction flags arbitrary: f bs)
  case Nil
  then obtain b where b: "bs = [b]" "short_flag f b" by (auto simp: list_all2_Cons1)
  show ?case
  proof (cases "cs = []")
    case False
    then obtain c v a where c: "cs = c # v" "v \<noteq> []" "hd v \<noteq> CHR ''=''" "last_acts = [(a, v)]"
        "map_of option_string_actions [CHR ''-'', c] = Some a" "takes_value a"
      using Nil.prems(2) by (auto simp: cluster_end_def)
    have "expand_option b [CHR ''-'', f] (Some ('''', c # v)) = Inr ([(b, []), (a, v)], [], None)"
      using expand_flag [OF b(2) c(5), of v] c(2,3,6) by simp
    with b c show ?thesis by simp
  qed (use b Nil.prems(2) in \<open>auto simp: short_flag_def cluster_end_def\<close>)
next
  case (Cons g flags)
  then obtain b bs' where b: "bs = b # bs'" "short_flag f b" "list_all2 short_flag (g # flags) bs'"
    by (auto simp: list_all2_Cons1)
  then obtain b' where b': "short_flag g b'" "hd bs' = b'" by (auto simp: list_all2_Cons1)
  have ne: "hd (flags @ cs) \<noteq> CHR ''=''" if "flags @ cs \<noteq> []"
    using that b(3) Cons.prems(2) by (cases flags) (auto simp: list_all2_Cons1 short_flag_def cluster_end_def dest: short_name)
  have "expand_option b [CHR ''-'', f] (Some ('''', g # flags @ cs)) =
      bindR (expand_option b' [CHR ''-'', g] (if flags @ cs = [] then None else Some ('''', flags @ cs)))
        (\<lambda>(acts, extras, pend). Inr ((b, []) # acts, extras, pend))"
    using b(2) b'(1) ne by (intro expand_flag) (auto simp: short_flag_def)
  with Cons.IH [OF b(3) Cons.prems(2)] b(1) b'(2) show ?case by simp
qed

lemma cluster_read:
  assumes "spells_cluster acts ss"
  shows "\<exists>ks. (\<forall>rest. classify (ss @ rest) = bindR (classify rest) (\<lambda>r. Inr (ks @ r))) \<and>
    (\<forall>rest extras ns. consume (ks @ rest) extras ns = bindR (take_actions acts ns) (consume rest extras))"
proof -
  obtain f flags bs cs last_acts where c: "ss = [CHR ''-'' # f # flags @ cs]" "flags @ cs \<noteq> []"
      "list_all2 short_flag (f # flags) bs" "cluster_end cs last_acts" "acts = map (\<lambda>a. (a, [])) bs @ last_acts"
    using assms by (auto simp: spells_cluster_def)
  then obtain b where b: "short_flag f b" "hd bs = b" by (auto simp: list_all2_Cons1)
  have ne: "hd (flags @ cs) \<noteq> CHR ''=''"
    using c(2-4) by (cases flags) (auto simp: list_all2_Cons1 short_flag_def cluster_end_def dest: short_name)
  have "parse_optional ([CHR ''-'', f] @ flags @ cs) = Inr (Option (Some b) [CHR ''-'', f] (Some ('''', flags @ cs)))"
    using b(1) c(2) ne by (intro optional_joined) (auto simp: short_flag_def)
  moreover have "CHR ''-'' # f # flags @ cs \<noteq> ''--''" using c(2) by auto
  moreover have "expand_option b [CHR ''-'', f] (Some ('''', flags @ cs)) = Inr (acts, [], None)"
    using expand_cluster [OF c(3,4)] b(2) c(2,5) by (simp del: expand_option.simps append_is_Nil_conv)
  ultimately show ?thesis
    using c(1) by (intro exI [of _ "[(CHR ''-'' # f # flags @ cs, Option (Some b) [CHR ''-'', f] (Some ('''', flags @ cs)))]"])
      (auto simp del: expand_option.simps)
qed

definition spelled :: "(arg_action \<times> string) list \<Rightarrow> string list \<Rightarrow> bool" where
  "spelled acts ss = ((\<exists>a v. acts = [(a, v)] \<and> spells a v ss) \<or> spells_cluster acts ss)"

lemma spelled_read:
  assumes "spelled acts ss"
  shows "\<exists>ks. (\<forall>rest. classify (ss @ rest) = bindR (classify rest) (\<lambda>r. Inr (ks @ r))) \<and>
    (\<forall>rest extras ns. consume (ks @ rest) extras ns = bindR (take_actions acts ns) (consume rest extras))"
  using assms cluster_read [of acts ss] spells_read [of _ _ ss] by (auto simp: spelled_def)

lemma take_actions_append: "take_actions (as @ bs) ns = bindR (take_actions as ns) (take_actions bs)"
  by (induction as arbitrary: ns) (auto simp: bindR_def split: sum.split)

lemma spellings_read:
  "list_all (\<lambda>(acts, ss). spelled acts ss) items \<Longrightarrow>
    \<exists>ks. classify (concat (map snd items)) = Inr ks \<and>
      (\<forall>ns. consume ks [] ns = bindR (take_actions (concat (map fst items)) ns) (\<lambda>ns'. Inr (ns', [])))"
proof (induction items)
  case Nil
  then show ?case by simp
next
  case (Cons item items)
  obtain acts ss where i: "item = (acts, ss)" by (metis prod.exhaust)
  with Cons.prems have sp: "spelled acts ss" "list_all (\<lambda>(acts, ss). spelled acts ss) items" by simp_all
  obtain ks where ks: "classify (concat (map snd items)) = Inr ks"
      "\<forall>ns. consume ks [] ns = bindR (take_actions (concat (map fst items)) ns) (\<lambda>ns'. Inr (ns', []))"
    using Cons.IH [OF sp(2)] by blast
  obtain ks1 where ks1: "\<forall>rest. classify (ss @ rest) = bindR (classify rest) (\<lambda>r. Inr (ks1 @ r))"
      "\<forall>rest extras ns. consume (ks1 @ rest) extras ns = bindR (take_actions acts ns) (consume rest extras)"
    using spelled_read [OF sp(1)] by blast
  have "consume (ks1 @ ks) [] ns = bindR (take_actions (concat (map fst (item # items))) ns) (\<lambda>ns'. Inr (ns', []))" for ns
    using ks1(2) ks(2) by (cases "take_actions acts ns") (simp_all add: i take_actions_append)
  with ks(1) ks1(1) show ?case by (intro exI [of _ "ks1 @ ks"]) (simp add: i)
qed

lemma parse_args_items:
  assumes "list_all (\<lambda>(acts, ss). spelled acts ss) items"
  shows "fst (parse_args path_exists (concat (map snd items))) =
    take_actions (concat (map fst items)) default_arguments"
proof -
  obtain ks where ks: "classify (concat (map snd items)) = Inr ks"
      "\<forall>ns. consume ks [] ns = bindR (take_actions (concat (map fst items)) ns) (\<lambda>ns'. Inr (ns', []))"
    using spellings_read [OF assms] by blast
  then show ?thesis
    by (cases "take_actions (concat (map fst items)) default_arguments") (simp_all add: parse_args_def)
qed

section \<open>What a command line means\<close>

text \<open>
  The options as they are documented, apart from the tables of the parser: the long name, the
  letter, and which take a value.
\<close>

definition usage :: "(arg_action \<times> string \<times> char option) list" where
  "usage =
     [(A_help, ''--help'', Some CHR ''h''), (A_config, ''--config'', Some CHR ''c''),
      (A_print_and_quit, ''--print-and-quit'', Some CHR ''p''), (A_output_file, ''--output_file'', Some CHR ''f''),
      (A_watch_config, ''--watch-config'', Some CHR ''w''), (A_health_check_period, ''--health-check-period'', None),
      (A_lost_event_telemetry, ''--lost-event-telemetry'', None), (A_extra_probe_path, ''--extra-probe-path'', None),
      (A_extra_plugin_path, ''--extra-plugin-path'', None), (A_version, ''--version'', Some CHR ''v'')]"

fun wants_value :: "arg_action \<Rightarrow> bool" where
  "wants_value A_config = True"
| "wants_value A_output_file = True"
| "wants_value A_health_check_period = True"
| "wants_value A_lost_event_telemetry = True"
| "wants_value A_extra_probe_path = True"
| "wants_value A_extra_plugin_path = True"
| "wants_value _ = False"

text \<open>
  The ways to write an option. A name is the long name, the letter, or so much of the long name that
  no other begins with it; a value may follow in a string of its own, after an equals sign, or
  directly after the letter; letters may be run together, the last one with its value.
\<close>

definition documented_name :: "string \<Rightarrow> arg_action \<Rightarrow> bool" where
  "documented_name p a = (\<exists>long letter. (a, long, letter) \<in> set usage \<and>
     (p = long \<or> (\<exists>c. letter = Some c \<and> p = [CHR ''-'', c]) \<or>
      2 < length p \<and> startswith long p \<and>
      (\<forall>(a', long', letter') \<in> set usage. a' \<noteq> a \<longrightarrow> \<not> startswith long' p)))"

definition plain_value :: "string \<Rightarrow> bool" where
  "plain_value v = (v = [] \<or> v = ''-'' \<or> hd v \<noteq> CHR ''-'' \<or> (\<exists>i. v = show_int i))"

definition letter_of :: "char \<Rightarrow> arg_action \<Rightarrow> bool" where
  "letter_of c a = (\<exists>long. (a, long, Some c) \<in> set usage)"

definition documented :: "(arg_action \<times> string) list \<Rightarrow> string list \<Rightarrow> bool" where
  "documented acts ss =
     ((\<exists>a p. \<not> wants_value a \<and> documented_name p a \<and> acts = [(a, [])] \<and> ss = [p]) \<or>
      (\<exists>a p v. wants_value a \<and> documented_name p a \<and> acts = [(a, v)] \<and>
         (plain_value v \<and> ss = [p, v] \<or> ss = [p @ CHR ''='' # v])) \<or>
      (\<exists>cs as c a v. list_all2 letter_of cs as \<and> list_all (\<lambda>a. \<not> wants_value a) as \<and> letter_of c a \<and> wants_value a \<and>
         v \<noteq> [] \<and> hd v \<noteq> CHR ''='' \<and> acts = map (\<lambda>a. (a, [])) as @ [(a, v)] \<and> ss = [CHR ''-'' # cs @ c # v]) \<or>
      (\<exists>cs as. cs \<noteq> [] \<and> list_all2 letter_of cs as \<and> list_all (\<lambda>a. \<not> wants_value a) as \<and>
         acts = map (\<lambda>a. (a, [])) as \<and> ss = [CHR ''-'' # cs]))"

text \<open>
  What the options ask for: asking for help or the version ends the program with code 0 and a value
  that is no number with code 2, whichever comes first; else the last value of an option counts.
\<close>

definition last_value :: "arg_action \<Rightarrow> (arg_action \<times> string) list \<Rightarrow> string option" where
  "last_value a acts = (case filter (\<lambda>x. fst x = a) acts of [] \<Rightarrow> None | xs \<Rightarrow> Some (snd (last xs)))"

definition is_number :: "string \<Rightarrow> bool" where
  "is_number v = (\<exists>i. int_of_str v = Inr i)"

definition ends_program :: "arg_action \<times> string \<Rightarrow> bool" where
  "ends_program x = (fst x \<in> {A_help, A_version} \<or>
     fst x \<in> {A_health_check_period, A_lost_event_telemetry} \<and> \<not> is_number (snd x))"

definition meaning :: "(arg_action \<times> string) list \<Rightarrow> arguments \<Rightarrow> arguments res" where
  "meaning acts ns = (case filter ends_program acts of
       x # _ \<Rightarrow> Inl (SystemExit (if fst x \<in> {A_help, A_version} then 0 else 2))
     | [] \<Rightarrow> Inr
        \<lparr>config = (case last_value A_config acts of None \<Rightarrow> config ns | Some v \<Rightarrow> Some v),
         print_and_quit = (print_and_quit ns \<or> A_print_and_quit \<in> fst ` set acts),
         output_file = (case last_value A_output_file acts of None \<Rightarrow> output_file ns | Some v \<Rightarrow> v),
         watch_config = (watch_config ns \<or> A_watch_config \<in> fst ` set acts),
         health_check_period = (case last_value A_health_check_period acts of
            None \<Rightarrow> health_check_period ns | Some v \<Rightarrow> projr (int_of_str v)),
         lost_event_telemetry_arg = (case last_value A_lost_event_telemetry acts of
            None \<Rightarrow> lost_event_telemetry_arg ns | Some v \<Rightarrow> projr (int_of_str v)),
         extra_probe_path = (case last_value A_extra_probe_path acts of None \<Rightarrow> extra_probe_path ns | Some v \<Rightarrow> Some v),
         extra_plugin_path = (case last_value A_extra_plugin_path acts of None \<Rightarrow> extra_plugin_path ns | Some v \<Rightarrow> Some v)\<rparr>)"

lemma last_value_simps [simp]:
  "last_value a [] = None"
  "last_value a ((b, v) # acts) = (case last_value a acts of None \<Rightarrow> if a = b then Some v else None | Some w \<Rightarrow> Some w)"
  by (auto simp: last_value_def split: list.split)

lemma case_last_value:
  "(case last_value a ((b, v) # acts) of None \<Rightarrow> d | Some w \<Rightarrow> g w) =
     (case last_value a acts of None \<Rightarrow> if a = b then g v else d | Some w \<Rightarrow> g w)"
  by (simp split: option.split)

lemma take_actions_meaning: "take_actions acts ns = meaning acts ns"
proof (induction acts arbitrary: ns)
  case Nil
  then show ?case by (simp add: meaning_def)
next
  case (Cons x acts)
  obtain a v where x: "x = (a, v)" by (cases x)
  show ?case
  proof (cases "ends_program x")
    case True
    then show ?thesis
      by (auto simp: x ends_program_def is_number_def meaning_def take_action_def split: sum.split)
  next
    case False
    then have n: "a \<noteq> A_help" "a \<noteq> A_version"
      "a = A_health_check_period \<or> a = A_lost_event_telemetry \<longrightarrow> (\<exists>i. int_of_str v = Inr i)"
      by (auto simp: x ends_program_def is_number_def)
    have ne: "\<not> ends_program (a, v)" using False x by simp
    show ?thesis
    proof (cases "filter ends_program acts")
      case Nil
      with n ne show ?thesis
        by (cases a) (auto simp: x Cons.IH meaning_def take_action_def case_last_value
            simp del: last_value_simps cong: option.case_cong)
    next
      case (Cons y ys)
      with n ne show ?thesis
        by (cases a) (auto simp: x Cons.IH meaning_def take_action_def)
    qed
  qed
qed

lemma usage_rows:
  "list_all (\<lambda>(a, long, letter). map_of option_string_actions long = Some a \<and>
      (case letter of None \<Rightarrow> True | Some c \<Rightarrow> map_of option_string_actions [CHR ''-'', c] = Some a) \<and>
      map snd (filter (\<lambda>(name, b). name = long) option_string_actions) = [a] \<and>
      take 2 long = ''--'' \<and> CHR ''='' \<notin> set long) usage"
  by (simp add: usage_def option_string_actions_def)

lemma option_rows:
  "list_all (\<lambda>(name, b). length name = 2 \<or> list_ex (\<lambda>(a, long, letter). a = b \<and> long = name) usage) option_string_actions"
  by (simp add: usage_def option_string_actions_def)

lemma usage_key: "(a, long, l) \<in> set usage \<Longrightarrow> (a, long', l') \<in> set usage \<Longrightarrow> long = long'"
proof -
  have "distinct (map fst usage)" by (simp add: usage_def)
  then show "(a, long, l) \<in> set usage \<Longrightarrow> (a, long', l') \<in> set usage \<Longrightarrow> long = long'"
    by (auto dest: eq_key_imp_eq_value)
qed

lemma usage_tables:
  "takes_value a = wants_value a"
  "(a, long, letter) \<in> set usage \<Longrightarrow> map_of option_string_actions long = Some a"
  "(a, long, Some c) \<in> set usage \<Longrightarrow> map_of option_string_actions [CHR ''-'', c] = Some a"
proof -
  show "takes_value a = wants_value a" by (cases a) (simp_all add: takes_value_def)
  show "(a, long, letter) \<in> set usage \<Longrightarrow> map_of option_string_actions long = Some a"
    "(a, long, Some c) \<in> set usage \<Longrightarrow> map_of option_string_actions [CHR ''-'', c] = Some a"
    using usage_rows by (fastforce simp: list_all_iff)+
qed

lemma documented_option_name:
  assumes "documented_name p a"
  shows "option_name p a"
proof -
  obtain long letter where u: "(a, long, letter) \<in> set usage" and
    p: "p = long \<or> (\<exists>c. letter = Some c \<and> p = [CHR ''-'', c]) \<or> 2 < length p \<and> startswith long p \<and>
      (\<forall>(a', long', letter') \<in> set usage. a' \<noteq> a \<longrightarrow> \<not> startswith long' p)"
    using assms by (auto simp: documented_name_def)
  show ?thesis
  proof (cases "map_of option_string_actions p = Some a")
    case False
    then have h: "2 < length p" "startswith long p" "\<And>a' long' letter'. (a', long', letter') \<in> set usage \<Longrightarrow> a' \<noteq> a \<Longrightarrow> \<not> startswith long' p"
      using p u usage_tables(2,3) by fastforce+
    have rows: "length name = 2 \<or> (\<exists>letter. (b, name, letter) \<in> set usage)" if "(name, b) \<in> set option_string_actions" for name b
      using option_rows that by (fastforce simp: list_all_iff list_ex_iff)
    have "startswith name p \<longleftrightarrow> name = long" if "(name, b) \<in> set option_string_actions" for name b
    proof
      assume s: "startswith name p"
      then have "length p \<le> length name" by (auto simp: startswith_append)
      with rows [OF that] h(1) obtain l where l: "(b, name, l) \<in> set usage" by auto
      with h(3) s have "b = a" by blast
      with l u usage_key show "name = long" by blast
    qed (use h(2) in simp)
    then have "filter (\<lambda>(name, b). startswith name p) option_string_actions = filter (\<lambda>(name, b). name = long) option_string_actions"
      by (intro filter_cong) auto
    moreover have long: "map snd (filter (\<lambda>(name, b). name = long) option_string_actions) = [a]" "take 2 long = ''--''"
      "CHR ''='' \<notin> set long" using usage_rows u by (auto simp: list_all_iff)
    ultimately have f: "map snd (filter (\<lambda>(name, b). startswith name p) option_string_actions) = [a]" by simp
    obtain t where t: "long = p @ t" using h(2) by (auto simp: startswith_append)
    with long(2,3) h(1) have pre: "startswith p ''--''" "CHR ''='' \<notin> set p"
      by (auto simp: startswith_def numeral_2_eq_2)
    have "map_of option_string_actions p = None"
    proof (rule ccontr)
      assume "map_of option_string_actions p \<noteq> None"
      then obtain b where b: "map_of option_string_actions p = Some b" by blast
      from rows [OF map_of_SomeD [OF b]] h(1) obtain l where "(b, p, l) \<in> set usage" by auto
      with h(3) [of b p l] False b show False by (auto simp: startswith_def)
    qed
    with f pre show ?thesis by (simp add: option_name_def)
  qed (simp add: option_name_def)
qed

lemma plain_value_argument:
  assumes "plain_value v"
  shows "parse_optional v = Inr Argument"
proof -
  consider "v = [] \<or> hd v \<noteq> CHR ''-''" | "v = ''-''" | i where "i < 0" "v = show_int i" "v \<noteq> []" "hd v = CHR ''-''"
  proof (cases "v = [] \<or> hd v \<noteq> CHR ''-'' \<or> v = ''-''")
    case False
    then obtain i where i: "v = show_int i" using assms by (auto simp: plain_value_def)
    have "i < 0"
    proof (rule ccontr)
      assume "\<not> i < 0"
      then have "v = show_nat (nat i)" by (simp add: i show_int_def)
      then have "is_digit (hd v)" using show_nat_digits [of "nat i"] False by (metis list.set_sel(1))
      then show False using False by (simp add: is_digit_def)
    qed
    with i False that(3) show ?thesis by auto
  qed (use that in blast)
  then show ?thesis
  proof cases
    case 2
    show ?thesis unfolding 2 by code_simp
  next
    case 3
    then have v: "v = CHR ''-'' # show_nat (nat (- i))" by (simp add: show_int_def)
    define ds where "ds = show_nat (nat (- i))"
    have ds: "list_all is_digit ds" "ds \<noteq> []"
      using show_nat_digits [of "nat (- i)"] by (auto simp: ds_def list_all_iff)
    then obtain d r where d: "ds = d # r" "is_digit d" by (cases ds) auto
    have eq: "CHR ''='' \<notin> set v" "CHR '' '' \<notin> set ds" "last v \<noteq> CHR 10"
      using ds d last_in_set [of ds] by (auto simp: v ds_def [symmetric] list_all_iff is_digit_def)
    have none: "list_all (\<lambda>(name, a). 2 \<le> length name \<and> \<not> is_digit (name ! 1)) option_string_actions"
      by (simp add: option_string_actions_def is_digit_def)
    have differ: "name \<noteq> take 2 v \<and> \<not> startswith name v" if "(name, a) \<in> set option_string_actions" for name a
    proof -
      have "2 \<le> length name" "\<not> is_digit (name ! 1)" using none that by (auto simp: list_all_iff)
      then obtain c1 c2 q where "name = c1 # c2 # q" "\<not> is_digit c2" by (cases name; cases "tl name") auto
      with d show ?thesis by (auto simp: v ds_def [symmetric] startswith_def)
    qed
    then have tuples: "get_option_tuples v = []"
      using d by (auto simp: get_option_tuples_def v ds_def [symmetric] startswith_def is_digit_def List.map_filter_def
          filter_empty_conv split: if_splits)
    have "map_of option_string_actions v = None"
      using differ [of v] by (auto simp: map_of_eq_None_iff startswith_def)
    moreover have "negative_number v" using ds eq(3) by (simp add: negative_number_def v ds_def [symmetric])
    ultimately show ?thesis using tuples partition_eq_simps(2) [OF eq(1)] d
      by (simp add: parse_optional_def v ds_def [symmetric])
  qed (simp add: parse_optional_def)
qed

lemma documented_spelled:
  assumes "documented acts ss"
  shows "spelled acts ss"
proof -
  have flags: "list_all2 short_flag cs as" if "list_all2 letter_of cs as" "list_all (\<lambda>a. \<not> wants_value a) as" for cs as
    using that by (induction rule: list_all2_induct) (auto simp: letter_of_def short_flag_def usage_tables(1) dest: usage_tables(3))
  have letter: "option_name [CHR ''-'', c] a" if "letter_of c a" for c a
    using that usage_tables(3) by (auto simp: letter_of_def option_name_def)
  from assms consider
      (flag) a p where "\<not> wants_value a" "documented_name p a" "acts = [(a, [])]" "ss = [p]"
    | (value_) a p v where "wants_value a" "documented_name p a" "acts = [(a, v)]" "plain_value v \<and> ss = [p, v] \<or> ss = [p @ CHR ''='' # v]"
    | (cluster) cs as c a v where "list_all2 letter_of cs as" "list_all (\<lambda>a. \<not> wants_value a) as" "letter_of c a" "wants_value a"
        "v \<noteq> []" "hd v \<noteq> CHR ''=''" "acts = map (\<lambda>a. (a, [])) as @ [(a, v)]" "ss = [CHR ''-'' # cs @ c # v]"
    | (letters) cs as where "cs \<noteq> []" "list_all2 letter_of cs as" "list_all (\<lambda>a. \<not> wants_value a) as"
        "acts = map (\<lambda>a. (a, [])) as" "ss = [CHR ''-'' # cs]"
    unfolding documented_def by blast
  then show ?thesis
  proof cases
    case flag
    with documented_option_name show ?thesis by (auto simp: spelled_def spells_def usage_tables(1))
  next
    case value_
    with documented_option_name plain_value_argument show ?thesis by (auto simp: spelled_def spells_def usage_tables(1))
  next
    case cluster
    obtain long where "(a, long, Some c) \<in> set usage" using cluster(3) by (auto simp: letter_of_def)
    then have m: "map_of option_string_actions [CHR ''-'', c] = Some a" by (rule usage_tables(3))
    show ?thesis
    proof (cases cs)
      case Nil
      with cluster letter [OF cluster(3)] show ?thesis
        by (auto simp: spelled_def spells_def usage_tables(1) intro!: exI [of _ "[CHR ''-'', c]"])
    next
      case (Cons f fs)
      have "cluster_end (c # v) [(a, v)]" using cluster m by (simp add: cluster_end_def usage_tables(1))
      with flags [OF cluster(1,2)] Cons cluster(7,8) show ?thesis
        unfolding spelled_def spells_cluster_def by (intro disjI2 exI [of _ f] exI [of _ fs] exI [of _ as] exI [of _ "c # v"]
          exI [of _ "[(a, v)]"]) simp
    qed
  next
    case letters
    obtain f fs where f: "cs = f # fs" using letters(1) by (cases cs) auto
    show ?thesis
    proof (cases fs)
      case Nil
      with f letters(2,3) obtain a where "as = [a]" "letter_of f a" "\<not> wants_value a" by (auto simp: list_all2_Cons1)
      with f Nil letters(4,5) letter show ?thesis
        by (auto simp: spelled_def spells_def usage_tables(1) intro!: exI [of _ "[CHR ''-'', f]"])
    next
      case (Cons g gs)
      with flags [OF letters(2,3)] f letters(4,5) show ?thesis
        unfolding spelled_def spells_cluster_def by (intro disjI2 exI [of _ f] exI [of _ fs] exI [of _ as] exI [of _ "[]"]
          exI [of _ "[]"]) (simp add: cluster_end_def)
    qed
  qed
qed

text \<open>
  Property C25. However the documented options are spelled, grouped and ordered on a command line,
  the arguments are what the options ask for, read one after the other: for each option that takes a
  value its last one, with the documented defaults for those that are missing, and the flags that
  occur. If a number is asked for and the value is none, the program ends with code 2; if help or
  the version is asked for before that, with code 0.
\<close>

theorem parse_args_spellings:
  assumes "list_all (\<lambda>(acts, ss). documented acts ss) items"
  shows "fst (parse_args path_exists (concat (map snd items))) =
    meaning (concat (map fst items)) \<lparr>config = None, print_and_quit = False, output_file = ''-'', watch_config = False,
      health_check_period = 60, lost_event_telemetry_arg = -1, extra_probe_path = None, extra_plugin_path = None\<rparr>"
proof -
  have "list_all (\<lambda>(acts, ss). spelled acts ss) items"
    using assms documented_spelled by (auto simp: list_all_iff)
  then show ?thesis
    by (simp add: parse_args_items take_actions_meaning default_arguments_def HEALTH_CHECK_PERIOD_DEFAULT_def)
qed

definition example_items :: "((arg_action \<times> string) list \<times> string list) list" where
  "example_items =
     [([(A_print_and_quit, []), (A_output_file, ''out'')], [''-pfout'']),
      ([(A_config, ''c.yml'')], [''--conf'', ''c.yml'']),
      ([(A_lost_event_telemetry, ''-1'')], [''--lost-event-telemetry=-1'']),
      ([(A_health_check_period, ''5'')], [''--health'', ''5''])]"

lemma example_documented: "list_all (\<lambda>(acts, ss). documented acts ss) example_items"
proof -
  have letters: "letter_of CHR ''p'' A_print_and_quit" "letter_of CHR ''f'' A_output_file"
    by (simp_all add: letter_of_def usage_def)
  have "documented [(A_print_and_quit, []), (A_output_file, ''out'')] [''-pfout'']"
    unfolding documented_def
    by (rule disjI2, rule disjI2, rule disjI1, rule exI [of _ "[CHR ''p'']"], rule exI [of _ "[A_print_and_quit]"],
        rule exI [of _ "CHR ''f''"], rule exI [of _ A_output_file], rule exI [of _ "''out''"]) (simp add: letters)
  moreover have n: "documented_name ''--conf'' A_config" "documented_name ''--health'' A_health_check_period"
    "documented_name ''--lost-event-telemetry'' A_lost_event_telemetry"
    by (auto simp: documented_name_def usage_def startswith_def)
  have "documented [(A_config, ''c.yml'')] [''--conf'', ''c.yml'']" "documented [(A_health_check_period, ''5'')] [''--health'', ''5'']"
    "documented [(A_lost_event_telemetry, ''-1'')] [''--lost-event-telemetry=-1'']"
    using n by (auto simp: documented_def plain_value_def)
  ultimately show ?thesis by (simp add: example_items_def)
qed

theorem parse_args_spellings_witness:
  "fst (parse_args (\<lambda>_. True) [''-pfout'', ''--conf'', ''c.yml'', ''--lost-event-telemetry=-1'', ''--health'', ''5'']) =
     Inr \<lparr>config = Some ''c.yml'', print_and_quit = True, output_file = ''out'', watch_config = False,
       health_check_period = 5, lost_event_telemetry_arg = -1, extra_probe_path = None, extra_plugin_path = None\<rparr>"
proof -
  have "int_of_str ''-1'' = Inr (-1)" "int_of_str ''5'' = Inr 5" by code_simp+
  with parse_args_spellings [OF example_documented, of "\<lambda>_. True"] show ?thesis
    by (simp add: example_items_def meaning_def ends_program_def is_number_def)
qed

section \<open>Round trip\<close>

text \<open>A command line that asks for given arguments, whatever characters their values have.\<close>

definition render_args :: "arguments \<Rightarrow> ((arg_action \<times> string) list \<times> string list) list" where
  "render_args ns =
     (case config ns of None \<Rightarrow> [] | Some f \<Rightarrow> [([(A_config, f)], [''--config='' @ f])]) @
     (if print_and_quit ns then [([(A_print_and_quit, [])], [''--print-and-quit''])] else []) @
     [([(A_output_file, output_file ns)], [''--output_file='' @ output_file ns])] @
     (if watch_config ns then [([(A_watch_config, [])], [''--watch-config''])] else []) @
     [([(A_health_check_period, show_int (health_check_period ns))],
        [''--health-check-period='' @ show_int (health_check_period ns)]),
      ([(A_lost_event_telemetry, show_int (lost_event_telemetry_arg ns))],
        [''--lost-event-telemetry='' @ show_int (lost_event_telemetry_arg ns)])] @
     (case extra_probe_path ns of None \<Rightarrow> [] | Some f \<Rightarrow> [([(A_extra_probe_path, f)], [''--extra-probe-path='' @ f])]) @
     (case extra_plugin_path ns of None \<Rightarrow> [] | Some f \<Rightarrow> [([(A_extra_plugin_path, f)], [''--extra-plugin-path='' @ f])])"

lemma spelled_eq:
  "map_of option_string_actions p = Some a \<Longrightarrow> takes_value a \<Longrightarrow> spelled [(a, v)] [p @ CHR ''='' # v]"
  by (auto simp: spelled_def spells_def option_name_def)

lemma render_spelled: "list_all (\<lambda>(acts, ss). spelled acts ss) (render_args ns)"
proof -
  have "spelled [(A_config, v)] [''--config='' @ v]" "spelled [(A_output_file, v)] [''--output_file='' @ v]"
    "spelled [(A_health_check_period, v)] [''--health-check-period='' @ v]"
    "spelled [(A_lost_event_telemetry, v)] [''--lost-event-telemetry='' @ v]"
    "spelled [(A_extra_probe_path, v)] [''--extra-probe-path='' @ v]"
    "spelled [(A_extra_plugin_path, v)] [''--extra-plugin-path='' @ v]" for v
    using spelled_eq [of "''--config''" A_config v] spelled_eq [of "''--output_file''" A_output_file v]
      spelled_eq [of "''--health-check-period''" A_health_check_period v]
      spelled_eq [of "''--lost-event-telemetry''" A_lost_event_telemetry v]
      spelled_eq [of "''--extra-probe-path''" A_extra_probe_path v]
      spelled_eq [of "''--extra-plugin-path''" A_extra_plugin_path v]
    by (simp_all add: option_string_actions_def takes_value_def)
  moreover have "spelled [(A_print_and_quit, [])] [''--print-and-quit'']" "spelled [(A_watch_config, [])] [''--watch-config'']"
    by (simp_all add: spelled_def spells_def option_name_def option_string_actions_def takes_value_def)
  ultimately show ?thesis by (simp add: render_args_def split: option.split)
qed

text \<open>
  Property C26. Every combination of arguments can be asked for on the command line, with any
  characters in its values: writing each option with its long name and an equals sign gives back
  exactly those arguments.
\<close>

theorem parse_args_roundtrip:
  "fst (parse_args path_exists (concat (map snd (render_args ns)))) = Inr ns"
proof -
  have "fst (parse_args path_exists (concat (map snd (render_args ns)))) =
      take_actions (concat (map fst (render_args ns))) default_arguments"
    by (rule parse_args_items) (rule render_spelled)
  also have "\<dots> = Inr ns"
    by (cases ns) (auto simp: render_args_def take_action_def default_arguments_def int_of_str_show_int split: option.split)
  finally show ?thesis .
qed

end
