(* ===== verification/Main_Program.thy ===== *)
theory Main_Program
  imports Proc_Utils Arguments
begin

text \<open>
  \<^verbatim>\<open>pidtree_bcc/main.py\<close>: the signal handler, the watchdog thread, the loop that
  writes events to the output, and the loop around it that restarts the program. What the
  operating system reports (signals, dead workers, broken files) comes as lists of observations;
  a run of a loop over a finite list that does not end it is a run still going on.
\<close>

section \<open>State\<close>

datatype signal = SIGINT | SIGTERM | SIGHUP

datatype disposition = SIG_DFL | Curried_handler

definition MAX_RESTARTS :: nat where "MAX_RESTARTS = 100"
definition HANDLED_SIGNALS :: "signal list" where "HANDLED_SIGNALS = [SIGINT, SIGTERM, SIGHUP]"

text \<open>
  The module's exit code, the workers of the running instance (whether each runs), the lines
  written to the output and to the terminal, the stop flag handed to the threads, the handlers,
  the signals the process sent to itself and how often the YAML loader was cleaned up.
\<close>

record main_state =
  EXIT_CODE :: int
  probe_workers :: "bool list"
  out_lines :: "string list"
  stdout_lines :: "string list"
  stop_wrapper :: StopFlagWrapper
  handlers :: "(signal \<times> disposition) list"
  sent_signals :: "signal list"
  cleanups :: nat

section \<open>Signals\<close>

definition terminate_workers :: "'z main_state_scheme \<Rightarrow> 'z main_state_scheme" where
  "terminate_workers s = s\<lparr>probe_workers := map (\<lambda>_. False) (probe_workers s)\<rparr>"

definition termination_handler :: "signal \<Rightarrow> 'z main_state_scheme \<Rightarrow> exn \<times> 'z main_state_scheme" where
  "termination_handler signum s =
     (let s' = terminate_workers s
      in if signum = SIGHUP then (RestartSignal, s') else (SystemExit (EXIT_CODE s'), s'))"

text \<open>A worker process starts with the handlers it inherits removed.\<close>

definition deregister_signals :: "('a \<Rightarrow> 'z main_state_scheme \<Rightarrow> 'b) \<Rightarrow> 'a \<Rightarrow> 'z main_state_scheme \<Rightarrow> 'b" where
  "deregister_signals func args s =
     func args (s\<lparr>handlers := foldl (\<lambda>h sg. AList.update sg SIG_DFL h) (handlers s) HANDLED_SIGNALS\<rparr>)"

section \<open>The watchdog\<close>

text \<open>
  What the watchdog meets in a round: which workers run, whether the output file is broken, and,
  with a watcher, what checking the configuration gives: whether the reload asked for a restart
  itself (\<open>self_restart\<close>), or the error it raised.
\<close>

record observation =
  workers_alive :: "bool list"
  bad_fds :: bool
  reload_result :: "bool res option"

text \<open>
  One round: whether the thread goes on, or the exception that ends it; sleeping raises when the
  period is negative.
\<close>

definition watchdog_round :: "int \<Rightarrow> observation \<Rightarrow> 'z main_state_scheme \<Rightarrow> bool res \<times> 'z main_state_scheme" where
  "watchdog_round check_period obs s =
     (if check_period < 0 then (Inl ValueError, s)
      else if do_stop (stop_wrapper s) then (Inr False, s)
      else if \<not> list_all (\<lambda>a. a) (workers_alive obs) \<or> bad_fds obs
      then (Inr False, s\<lparr>EXIT_CODE := 1, sent_signals := sent_signals s @ [SIGTERM]\<rparr>)
      else (case reload_result obs of
              None \<Rightarrow> (Inr True, s)
            | Some (Inr restarts) \<Rightarrow> (Inr True, if restarts then s\<lparr>sent_signals := sent_signals s @ [SIGHUP]\<rparr> else s)
            | Some (Inl e) \<Rightarrow> if is_Exception e then (Inr True, s\<lparr>sent_signals := sent_signals s @ [SIGHUP]\<rparr>)
                              else (Inl e, s)))"

fun health_and_config_watchdog :: "int \<Rightarrow> observation list \<Rightarrow> 'z main_state_scheme \<Rightarrow> 'z main_state_scheme" where
  "health_and_config_watchdog check_period [] s = s"
| "health_and_config_watchdog check_period (obs # rest) s = (case watchdog_round check_period obs s of
     (Inr True, s') \<Rightarrow> health_and_config_watchdog check_period rest s' | (_, s') \<Rightarrow> s')"

section \<open>The main loop\<close>

text \<open>
  What the main thread meets while it waits for output: a line, a signal, an error of the queue
  or of the output file, or the exit code being set by the watchdog.
\<close>

datatype main_event = Line string | Signalled signal | Failed exn | Exit_code_set

fun output_loop :: "main_event list \<Rightarrow> 'z main_state_scheme \<Rightarrow> exn option \<times> 'z main_state_scheme" where
  "output_loop [] s = (None, s)"
| "output_loop (ev # rest) s = (case ev of
       Line l \<Rightarrow> output_loop rest (s\<lparr>out_lines := out_lines s @ [l]\<rparr>)
     | Signalled sg \<Rightarrow> (case termination_handler sg s of (e, s') \<Rightarrow> (Some e, s'))
     | Failed e \<Rightarrow> (Some e, s)
     | Exit_code_set \<Rightarrow> output_loop rest (s\<lparr>EXIT_CODE := 1\<rparr>))"

text \<open>The \<open>except\<close> clauses around the loop.\<close>

definition main_except :: "exn \<Rightarrow> 'z main_state_scheme \<Rightarrow> exn \<times> 'z main_state_scheme" where
  "main_except e s =
     (if e = RestartSignal
      then (RestartSignal, s\<lparr>stop_wrapper := stop (stop_wrapper s), cleanups := Suc (cleanups s)\<rparr>)
      else if is_Exception e
      then (let s' = terminate_workers (s\<lparr>EXIT_CODE := 1\<rparr>) in (SystemExit (EXIT_CODE s'), s'))
      else (e, s))"

text \<open>
  The whole of \<open>main\<close>: \<open>load\<close> is what setting up the configuration, opening the
  output and loading the probes gives, as names and expanded programs.
\<close>

definition main_start :: "'z main_state_scheme \<Rightarrow> 'z main_state_scheme" where
  "main_start s = s\<lparr>probe_workers := [], stop_wrapper := new_StopFlagWrapper,
     handlers := foldl (\<lambda>h sg. AList.update sg Curried_handler h) (handlers s) HANDLED_SIGNALS\<rparr>"

definition print_probes :: "(string \<times> string) list \<Rightarrow> 'z main_state_scheme \<Rightarrow> 'z main_state_scheme" where
  "print_probes probes s = s\<lparr>stdout_lines := stdout_lines s @
     concat (map (\<lambda>(name, prog). [''----- '' @ name @ '' -----'', prog, [CHR 10]]) probes)\<rparr>"

definition main_program ::
    "arguments \<Rightarrow> ('z main_state_scheme \<Rightarrow> (string \<times> string) list res \<times> 'z main_state_scheme) \<Rightarrow> main_event list \<Rightarrow>
       'z main_state_scheme \<Rightarrow> exn option \<times> 'z main_state_scheme" where
  "main_program args load events s =
     (case load (main_start s) of
        (Inl e, s1) \<Rightarrow> (Some e, s1)
      | (Inr probes, s1) \<Rightarrow>
          if print_and_quit args then (Some (SystemExit 0), print_probes probes s1)
          else (case output_loop events (s1\<lparr>probe_workers := map (\<lambda>_. True) probes\<rparr>) of
                  (None, s2) \<Rightarrow> (None, s2)
                | (Some e, s2) \<Rightarrow> (case main_except e s2 of (e', s3) \<Rightarrow> (Some e', s3))))"

section \<open>Restarts\<close>

text \<open>
  How a run of the program ends: it is still running, an exception leaves it, or the loop gave up
  after too many restarts.
\<close>

datatype 's outcome = Running 's | Exits exn 's | Gave_up 's

function run_program :: "(nat \<Rightarrow> 's \<Rightarrow> exn option \<times> 's) \<Rightarrow> nat \<Rightarrow> 's \<Rightarrow> 's outcome" where
  "run_program main restart_attempts s =
     (if restart_attempts < MAX_RESTARTS
      then (case main restart_attempts s of
              (None, s') \<Rightarrow> Running s'
            | (Some e, s') \<Rightarrow> if e = RestartSignal then run_program main (Suc restart_attempts) s' else Exits e s')
      else Gave_up s)"
  by pat_completeness auto
termination
  by (relation "measure (\<lambda>(main, n, s). MAX_RESTARTS - n)") auto

declare run_program.simps [simp del]

section \<open>How a run ends\<close>

lemma workers_terminated: "list_all Not (probe_workers (terminate_workers s))"
  by (simp add: terminate_workers_def list_all_iff)

lemma output_loop_end:
  "output_loop events s = (Some e, s') \<Longrightarrow> \<forall>x. Failed x \<in> set events \<longrightarrow> is_Exception x \<Longrightarrow>
     is_Exception e \<or> list_all Not (probe_workers s') \<and>
       (e = RestartSignal \<and> Signalled SIGHUP \<in> set events \<or> e = SystemExit (EXIT_CODE s'))"
proof (induction events arbitrary: s)
  case (Cons ev events)
  show ?case
  proof (cases ev)
    case (Signalled sg)
    with Cons.prems show ?thesis
      using workers_terminated [of s] by (auto simp: termination_handler_def Let_def split: if_splits)
  next
    case (Failed x)
    with Cons.prems show ?thesis by auto
  qed (use Cons in \<open>auto split: if_splits\<close>)
qed simp

text \<open>
  Once the probes are started, the program ends only with every worker told to
  terminate: with a restart when a hang-up signal asked for it, after the threads were told to
  stop and the fetched files cleaned up, or else with an exit code, which is 1 after an error.
\<close>

theorem main_leaves_no_worker:
  assumes "main_program args load events s = (Some e, s')" and "\<not> print_and_quit args"
    and "\<forall>x. Failed x \<in> set events \<longrightarrow> is_Exception x"
    and "load (main_start s) = (Inr probes, s1)"
  shows "list_all Not (probe_workers s') \<and>
    (e = RestartSignal \<and> Signalled SIGHUP \<in> set events \<and> do_stop (stop_wrapper s') \<and> 0 < cleanups s' \<or>
     e = SystemExit (EXIT_CODE s'))"
proof -
  define s2 where "s2 = s1\<lparr>probe_workers := map (\<lambda>_. True) probes\<rparr>"
  obtain e0 s3 where l: "output_loop events s2 = (Some e0, s3)" "main_except e0 s3 = (e, s')"
    using assms(1,2,4) by (auto simp: main_program_def s2_def split: prod.splits option.splits)
  from output_loop_end [OF l(1) assms(3)] l(2) show ?thesis
    using workers_terminated [of "s3\<lparr>EXIT_CODE := 1\<rparr>"]
    by (auto simp: main_except_def Let_def stop_def is_Exception_def terminate_workers_def split: if_splits)
qed

definition example_main :: main_state where
  "example_main = \<lparr>EXIT_CODE = 0, probe_workers = [], out_lines = [], stdout_lines = [],
     stop_wrapper = new_StopFlagWrapper, handlers = [], sent_signals = [], cleanups = 0\<rparr>"

theorem main_leaves_no_worker_witness:
  "\<exists>s'. main_program default_arguments (\<lambda>s. (Inr [(''tcp_connect'', ''int main;'')], s)) [Line ''{}'', Signalled SIGTERM] example_main
     = (Some (SystemExit 0), s') \<and> list_all Not (probe_workers s')"
proof -
  let ?load = "\<lambda>s. (Inr [(''tcp_connect'', ''int main;'')], s)" and ?evs = "[Line ''{}'', Signalled SIGTERM]"
  obtain s' where s': "main_program default_arguments ?load ?evs example_main = (Some (SystemExit 0), s')"
    by (simp add: main_program_def main_start_def example_main_def termination_handler_def terminate_workers_def
        main_except_def is_Exception_def default_arguments_def)
  from main_leaves_no_worker [OF this] s' show ?thesis by (simp add: default_arguments_def)
qed

text \<open>An observation the watchdog takes no action on other than asking for a restart.\<close>

definition healthy :: "observation \<Rightarrow> bool" where
  "healthy obs = (list_all (\<lambda>a. a) (workers_alive obs) \<and> \<not> bad_fds obs \<and>
     (\<forall>e. reload_result obs = Some (Inl e) \<longrightarrow> is_Exception e))"

lemma watchdog_round_healthy:
  "healthy obs \<Longrightarrow> \<not> do_stop (stop_wrapper s) \<Longrightarrow> 0 \<le> period \<Longrightarrow>
     \<exists>q. watchdog_round period obs s = (Inr True, s\<lparr>sent_signals := q\<rparr>)"
  by (auto simp: healthy_def watchdog_round_def intro: exI [of _ "sent_signals s"] split: option.split sum.split)

lemma watchdog_prefix:
  "list_all healthy pre \<Longrightarrow> \<not> do_stop (stop_wrapper s) \<Longrightarrow> 0 \<le> period \<Longrightarrow>
     \<exists>q. health_and_config_watchdog period (pre @ rest) s = health_and_config_watchdog period rest (s\<lparr>sent_signals := q\<rparr>)"
proof (induction pre arbitrary: s)
  case Nil
  then show ?case by (auto intro: exI [of _ "sent_signals s"])
next
  case (Cons obs pre)
  then obtain q where "watchdog_round period obs s = (Inr True, s\<lparr>sent_signals := q\<rparr>)"
    using watchdog_round_healthy [of obs s period] by auto
  with Cons.IH [of "s\<lparr>sent_signals := q\<rparr>"] Cons.prems show ?case by simp
qed

text \<open>
  Property C18. The first time a worker is found dead or the output file broken, the watchdog sends
  the process one termination signal as its last act, and handling it ends the program with exit
  code 1 and no worker left running.
\<close>

theorem watchdog_failure_exits:
  assumes "list_all healthy pre" and "\<not> do_stop (stop_wrapper s)"
    and "\<not> list_all (\<lambda>a. a) (workers_alive obs) \<or> bad_fds obs" and "0 \<le> period"
  shows "last (sent_signals (health_and_config_watchdog period (pre @ obs # rest) s)) = SIGTERM \<and>
    fst (termination_handler SIGTERM (health_and_config_watchdog period (pre @ obs # rest) s)) = SystemExit 1 \<and>
    list_all Not (probe_workers (snd (termination_handler SIGTERM (health_and_config_watchdog period (pre @ obs # rest) s))))"
proof -
  obtain q where "health_and_config_watchdog period (pre @ obs # rest) s =
      health_and_config_watchdog period (obs # rest) (s\<lparr>sent_signals := q\<rparr>)"
    using watchdog_prefix [OF assms(1,2,4)] by blast
  also have "\<dots> = s\<lparr>sent_signals := q @ [SIGTERM], EXIT_CODE := 1\<rparr>"
    using assms(2-4) by (auto simp: watchdog_round_def)
  finally show ?thesis
    by (simp add: termination_handler_def Let_def terminate_workers_def list_all_iff)
qed

theorem watchdog_failure_exits_witness:
  "fst (termination_handler SIGTERM (health_and_config_watchdog 60
     [\<lparr>workers_alive = [True], bad_fds = False, reload_result = None\<rparr>,
      \<lparr>workers_alive = [False], bad_fds = False, reload_result = None\<rparr>] example_main)) = SystemExit 1"
  using watchdog_failure_exits [of "[\<lparr>workers_alive = [True], bad_fds = False, reload_result = None\<rparr>]"
      example_main "\<lparr>workers_alive = [False], bad_fds = False, reload_result = None\<rparr>" 60 "[]"]
  by (simp add: healthy_def example_main_def new_StopFlagWrapper_def)

text \<open>
  A negative period is accepted on the command line, and the watchdog thread ends at its first
  sleep: no dead worker, broken output or changed file is noticed.
\<close>

theorem negative_period_no_watchdog:
  assumes "fst (parse_args path_exists argv) = Inr args" and "health_check_period args < 0"
  shows "health_and_config_watchdog (health_check_period args) obs s = s"
  using assms(2) by (cases obs) (simp_all add: watchdog_round_def)

theorem negative_period_no_watchdog_witness:
  "health_and_config_watchdog (- 5) [\<lparr>workers_alive = [False], bad_fds = True, reload_result = None\<rparr>] example_main = example_main"
proof -
  have "fst (parse_args (\<lambda>_. True) [''--health-check-period'', ''-5'']) = Inr (default_arguments\<lparr>health_check_period := - 5\<rparr>)"
    by code_simp
  from negative_period_no_watchdog [OF this] show ?thesis by (simp del: health_and_config_watchdog.simps)
qed

text \<open>The state after \<open>n\<close> runs in a row, from the \<open>k\<close>th on, that asked for a restart.\<close>

fun restarted :: "(nat \<Rightarrow> 's \<Rightarrow> exn option \<times> 's) \<Rightarrow> nat \<Rightarrow> nat \<Rightarrow> 's \<Rightarrow> 's option" where
  "restarted main k 0 s = Some s"
| "restarted main k (Suc n) s = (case main k s of
     (Some RestartSignal, s') \<Rightarrow> restarted main (Suc k) n s' | _ \<Rightarrow> None)"

lemma restarted_Suc:
  "(restarted main k (Suc n) s = Some s') =
     (\<exists>s1. main k s = (Some RestartSignal, s1) \<and> restarted main (Suc k) n s1 = Some s')"
  by (auto split: prod.splits option.splits exn.splits)

declare restarted.simps(2) [simp del]

lemma run_program_outcome:
  "k \<le> MAX_RESTARTS \<Longrightarrow>
   (run_program main k s = Gave_up s' \<longleftrightarrow> restarted main k (MAX_RESTARTS - k) s = Some s') \<and>
   (run_program main k s = Exits e s' \<longleftrightarrow> e \<noteq> RestartSignal \<and>
      (\<exists>n s1. k + n < MAX_RESTARTS \<and> restarted main k n s = Some s1 \<and> main (k + n) s1 = (Some e, s')))"
proof (induction "MAX_RESTARTS - k" arbitrary: k s)
  case 0
  then show ?case by (subst (1 2) run_program.simps) auto
next
  case (Suc m)
  then have k: "k < MAX_RESTARTS" "MAX_RESTARTS - k = Suc (MAX_RESTARTS - Suc k)" by simp_all
  obtain r s1 where m: "main k s = (r, s1)" by (cases "main k s")
  show ?case
  proof (cases "r = Some RestartSignal")
    case True
    have run: "run_program main k s = run_program main (Suc k) s1"
      using k(1) m True by (subst run_program.simps) simp
    have IH: "(run_program main (Suc k) s1 = Gave_up s' \<longleftrightarrow> restarted main (Suc k) (MAX_RESTARTS - Suc k) s1 = Some s') \<and>
        (run_program main (Suc k) s1 = Exits e s' \<longleftrightarrow> e \<noteq> RestartSignal \<and>
          (\<exists>n s2. Suc k + n < MAX_RESTARTS \<and> restarted main (Suc k) n s1 = Some s2 \<and> main (Suc k + n) s2 = (Some e, s')))"
      using Suc k by (intro Suc.hyps(1)) simp_all
    have "(k + n < MAX_RESTARTS \<and> restarted main k n s = Some s2 \<and> main (k + n) s2 = (Some e, s')) \<longleftrightarrow>
        (\<exists>n'. n = Suc n' \<and> Suc k + n' < MAX_RESTARTS \<and> restarted main (Suc k) n' s1 = Some s2 \<and> main (Suc k + n') s2 = (Some e, s'))"
      if "e \<noteq> RestartSignal" for n s2
      using that m True by (cases n) (auto simp: restarted_Suc)
    then have "(\<exists>n s2. k + n < MAX_RESTARTS \<and> restarted main k n s = Some s2 \<and> main (k + n) s2 = (Some e, s')) \<longleftrightarrow>
        (\<exists>n s2. Suc k + n < MAX_RESTARTS \<and> restarted main (Suc k) n s1 = Some s2 \<and> main (Suc k + n) s2 = (Some e, s'))"
      if "e \<noteq> RestartSignal"
      using that by blast
    then show ?thesis using IH unfolding run k(2) restarted_Suc by (auto simp: m True)
  next
    case False
    then have "run_program main k s = (case r of None \<Rightarrow> Running s1 | Some x \<Rightarrow> Exits x s1)"
      using k(1) m by (subst run_program.simps) (auto split: option.splits)
    moreover have "restarted main k n s = Some s2 \<longleftrightarrow> n = 0 \<and> s2 = s" for n s2
      using False m by (cases n) (auto simp: restarted_Suc)
    ultimately show ?thesis using False k m by (auto split: option.splits)
  qed
qed

text \<open>
  Property C17. The program gives up exactly when a hundred runs in a row ask for a restart, and
  any other exception that leaves it is that of the first run that does not, among the first
  hundred; either way it ends.
\<close>

theorem run_program_restarts:
  "(run_program main 0 s = Gave_up s' \<longleftrightarrow> restarted main 0 100 s = Some s') \<and>
   (run_program main 0 s = Exits e s' \<longleftrightarrow> e \<noteq> RestartSignal \<and>
      (\<exists>n < 100. \<exists>s1. restarted main 0 n s = Some s1 \<and> main n s1 = (Some e, s')))"
  using run_program_outcome [of 0 main s s' e] by (auto simp: MAX_RESTARTS_def)

end
