(* ===== verification/Startup.thy ===== *)
theory Startup
  imports Probe_Loading Yaml_Loader Main_Program
begin

text \<open>
  The whole of \<open>main\<close> in \<^verbatim>\<open>pidtree_bcc/main.py\<close>: the configuration is set
  up through the YAML loader, the output is opened and the probes are built, on the main thread;
  then \<open>Main_Program\<close> takes over. The state adds the configuration to that of
  \<open>Main_Program\<close>; it outlives a restart, as module variables do.
\<close>

section \<open>The program\<close>

record 'w program_state = main_state +
  conf :: "'w config_state"

text \<open>
  What the program is given: the configuration store, the order in which sets are visited, the
  files and the network behind the YAML loader with the room on the stack, the way files open,
  and the packages probes are imported from, whose constructors know the extra plugin path.
\<close>

record ('w, 'o) program_env =
  staticconf :: "'w staticconf_ops"
  set_iteration :: "string list \<Rightarrow> string list"
  yaml :: yaml_env
  stack_depth :: nat
  open_file :: "string \<Rightarrow> string \<Rightarrow> unit res"
  import_probe :: "string option \<Rightarrow> string \<Rightarrow>
    (pyval pydict \<Rightarrow> int \<Rightarrow> string option \<Rightarrow> ('o \<times> sidecar list \<times> string) res) member list res"

definition on_conf :: "('w config_state, 'a) eff \<Rightarrow> ('w program_state, 'a) eff" where
  "on_conf m s = (case m (conf s) of (r, c) \<Rightarrow> (r, s\<lparr>conf := c\<rparr>))"

text \<open>Opening a regular file for writing empties it.\<close>

definition open_out :: "('w, 'o) program_env \<Rightarrow> output_handle \<Rightarrow> ('w program_state, unit) eff" where
  "open_out E h s = (case h of
       Stdout \<Rightarrow> (Inr (), s)
     | File f fmode \<Rightarrow> (case open_file E f fmode of
           Inl e \<Rightarrow> (Inl e, s)
         | Inr _ \<Rightarrow> (Inr (), s\<lparr>out_lines := []\<rparr>)))"

definition setup_main :: "arguments \<Rightarrow> ('w, 'o) program_env \<Rightarrow> ('w config_state, config_watcher option) eff" where
  "setup_main args E = (case config args of
       None \<Rightarrow> raiseE TypeError
     | Some f \<Rightarrow> setup_config self_restart_main (staticconf E) (set_iteration E) (load_file (yaml E) (stack_depth E))
                   f (watch_config args) (health_check_period args))"

definition main_probes ::
    "arguments \<Rightarrow> ('w, 'o) program_env \<Rightarrow> 'w config_state \<Rightarrow> (string \<times> 'o \<times> sidecar list \<times> string) list res" where
  "main_probes args E c = load_probes (import_probe E (extra_plugin_path args)) (extra_probe_path args)
     (lost_event_telemetry_arg args) (enumerate_probe_configs (staticconf E) c)"

definition main_load ::
    "arguments \<Rightarrow> ('w, 'o) program_env \<Rightarrow> ('w program_state, (string \<times> string) list) eff" where
  "main_load args E =
     bindE (on_conf (setup_main args E)) (\<lambda>watcher.
     bindE (open_out E (smart_open (Some (output_file args)) ''w'')) (\<lambda>_ s.
     bindE (liftR (main_probes args E (conf s))) (\<lambda>probes.
     retE (map (\<lambda>(name, p, sidecars, expanded_bpf_text). (name, expanded_bpf_text)) probes)) s))"

definition main ::
    "arguments \<Rightarrow> ('w, 'o) program_env \<Rightarrow> main_event list \<Rightarrow> 'w program_state \<Rightarrow> exn option \<times> 'w program_state" where
  "main args E = main_program args (main_load args E)"

text \<open>
  The whole program: every run parses the command line and calls \<open>main\<close>; \<open>events k\<close>
  is what the \<open>k\<close>th run meets in its loop.
\<close>

definition run_main ::
    "(string \<Rightarrow> bool) \<Rightarrow> string list \<Rightarrow> ('w, 'o) program_env \<Rightarrow> (nat \<Rightarrow> main_event list) \<Rightarrow> nat \<Rightarrow>
       'w program_state \<Rightarrow> 'w program_state outcome" where
  "run_main path_exists argv E events = run_program (\<lambda>k s. case fst (parse_args path_exists argv) of
       Inl e \<Rightarrow> (Some e, s)
     | Inr args \<Rightarrow> main args E (events k) s)"

section \<open>Setting up\<close>

lemma conf_main_start [simp]: "conf (main_start s) = conf s"
  by (simp add: main_start_def)

lemma setup_main_parse:
  "config args = Some f \<Longrightarrow> setup_main args E c =
     bindE (parse_config self_restart_main (staticconf E) (set_iteration E) (load_file (yaml E) (stack_depth E)) f (watch_config args))
       (\<lambda>fs. retE (if watch_config args then Some \<lparr>watched_files = fs, watch_interval = health_check_period args\<rparr> else None)) c"
  by (simp add: setup_main_def setup_config_def)

text \<open>What loading gives once the configuration is parsed and the output opens.\<close>

lemma main_load_parsed:
  assumes "config args = Some f"
    and "parse_config self_restart_main (staticconf E) (set_iteration E) (load_file (yaml E) (stack_depth E)) f
           (watch_config args) (conf s) = (Inr fs, c)"
    and "\<And>p m. open_file E p m = Inr ()"
    and "main_probes args E c = Inr probes"
  shows "\<exists>s'. main_load args E s = (Inr (map (\<lambda>(name, p, sidecars, prog). (name, prog)) probes), s') \<and>
    conf s' = c \<and> probe_workers s' = probe_workers s \<and> stdout_lines s' = stdout_lines s"
  using assms by (auto simp: main_load_def bindE_def on_conf_def setup_main_parse open_out_def split: output_handle.split)

section \<open>What is watched\<close>

lemma parse_config_files:
  assumes "parse_config restart C ord yaml_load f watch s = (Inr fs, s')"
  shows "\<exists>v inc. yaml_load f = Inr (v, inc) \<and> fs = all_files f inc"
  using assms
  by (auto simp: parse_config_def eff_simps all_files_def Let_def simp del: remdups.simps split: if_splits)

text \<open>
  Property C19. The watcher that setting up the configuration returns watches the configuration file
  and every file it includes, directly, nested or fetched, each once, in order: a change anywhere
  in what the configuration was read from is noticed.
\<close>

theorem watcher_covers_includes:
  assumes "setup_config restart C ord (load_file en depth) f True period s = (Inr (Some w), s')"
  shows "set (watched_files w) = {p. (refers en)\<^sup>*\<^sup>* f p} \<and> sorted (watched_files w) \<and> distinct (watched_files w) \<and>
    watch_interval w = period"
proof -
  obtain v inc where "load_file en depth f = Inr (v, inc)" "watched_files w = all_files f inc" "watch_interval w = period"
    using assms parse_config_files [of restart C ord "load_file en depth" f True s]
    by (fastforce simp: setup_config_def eff_simps)
  then show ?thesis
    using load_file_files [of en depth f v inc] unfolding all_files_def
    by (auto dest: rtranclpD intro: tranclp_into_rtranclp)
qed

lemma main_starts:
  assumes "config args = Some f" and "\<not> print_and_quit args"
    and "parse_config self_restart_main (staticconf E) (set_iteration E) (load_file (yaml E) (stack_depth E)) f
           (watch_config args) (conf s) = (Inr fs, c)"
    and "\<And>p m. open_file E p m = Inr ()"
    and "main_probes args E c = Inr probes"
  shows "\<exists>s'. main args E [] s = (None, s') \<and> conf s' = c \<and> probe_workers s' = map (\<lambda>_. True) probes"
proof -
  have "parse_config self_restart_main (staticconf E) (set_iteration E) (load_file (yaml E) (stack_depth E)) f
           (watch_config args) (conf (main_start s)) = (Inr fs, c)" using assms(3) by simp
  from main_load_parsed [OF assms(1) this assms(4,5)]
  obtain s1 where "main_load args E (main_start s) = (Inr (map (\<lambda>(name, p, sidecars, prog). (name, prog)) probes), s1)" "conf s1 = c"
    by blast
  with assms(2) show ?thesis by (simp add: main_def main_program_def comp_def split_def)
qed

section \<open>Restarts while setting up\<close>

text \<open>
  A restart signal the main thread sends to itself while it sets up leaves \<open>main\<close> at once,
  before any worker runs.
\<close>

lemma main_restarts:
  assumes "config args = Some f" and "watch_config args"
    and "parse_config self_restart_main (staticconf E) (set_iteration E) (load_file (yaml E) (stack_depth E)) f
           True (conf s) = (Inl RestartSignal, c)"
  shows "\<exists>s'. main args E evs s = (Some RestartSignal, s') \<and> conf s' = c"
  using assms by (simp add: main_def main_program_def main_load_def bindE_def on_conf_def setup_main_parse)

lemma run_main_program:
  "fst (parse_args path_exists argv) = Inr args \<Longrightarrow>
     run_main path_exists argv E events = run_program (\<lambda>k. main args E (events k))"
  by (simp add: run_main_def fun_eq_iff)

lemma added_probe_restarted:
  assumes "config_store (staticconf E) view" and "load_file (yaml E) (stack_depth E) f = Inr (PDict cfg, inc)"
    and "dict_config cfg" and "set_order (set_iteration E)" and "config args = Some f" and "watch_config args"
  shows "set (get_probe_namespaces (staticconf E) (namespaces (conf s))) \<inter> set (probe_names cfg) \<noteq> {} \<Longrightarrow>
    \<not> set (probe_names cfg) \<subseteq> set (get_probe_namespaces (staticconf E) (namespaces (conf s))) \<Longrightarrow>
    \<exists>s'. restarted (\<lambda>k. main args E (events k)) k n s = Some s' \<and>
      \<not> set (probe_names cfg) \<subseteq> set (get_probe_namespaces (staticconf E) (namespaces (conf s')))"
proof (induction n arbitrary: k s)
  case 0
  then show ?case by auto
next
  case (Suc n)
  from config_store.added_probe_step [where ord = "set_iteration E" and yaml_load = "load_file (yaml E) (stack_depth E)"
      and f = f, OF assms(1-4) Suc.prems]
  obtain c where c: "parse_config self_restart_main (staticconf E) (set_iteration E) (load_file (yaml E) (stack_depth E)) f
      True (conf s) = (Inl RestartSignal, c)"
    "set (get_probe_namespaces (staticconf E) (namespaces c)) \<inter> set (probe_names cfg) \<noteq> {}"
    "\<not> set (probe_names cfg) \<subseteq> set (get_probe_namespaces (staticconf E) (namespaces c))" by blast
  obtain s1 where s1: "main args E (events k) s = (Some RestartSignal, s1)" "conf s1 = c"
    using main_restarts [OF assms(5,6) c(1)] by blast
  with Suc.IH [of s1 "Suc k"] c(2,3) show ?case unfolding restarted_Suc by blast
qed

section \<open>An example\<close>

definition example_watch_args :: arguments where
  "example_watch_args = default_arguments\<lparr>config := Some ''c.yml'', watch_config := True\<rparr>"

lemma example_watch_argv: "fst (parse_args path_exists [''-w'', ''-c'', ''c.yml'']) = Inr example_watch_args"
proof -
  have "spelled [(A_watch_config, [])] [''-w'']" "spelled [(A_config, ''c.yml'')] [''-c'', ''c.yml'']"
    by (auto simp: spelled_def spells_def option_name_def option_string_actions_def takes_value_def parse_optional_def)
  then show ?thesis
    using parse_args_items [of "[([(A_watch_config, [])], [''-w'']), ([(A_config, ''c.yml'')], [''-c'', ''c.yml''])]" path_exists]
    by (simp add: take_action_def example_watch_args_def)
qed

text \<open>A file system with one configuration file, and probes that keep the queue they are given.\<close>

definition example_env :: "pyval pydict \<Rightarrow> ((string \<times> pyval pydict) list, string option) program_env" where
  "example_env cfg = \<lparr>staticconf = dict_store, set_iteration = (\<lambda>x. x),
     yaml = \<lparr>read_file = (\<lambda>p. if p = ''c.yml'' then Inr [] else Inl OSError),
             yaml_parse = (\<lambda>_. Inr (YMap (map (\<lambda>(k, v). (k, YScalar v)) cfg))),
             fetch_remote = (\<lambda>_. Inl ValueError)\<rparr>,
     stack_depth = 10, open_file = (\<lambda>p m. Inr ()),
     import_probe = (\<lambda>_ path. if path = ''pidtree_bcc.probes.tcp_connect''
       then Inr [\<lparr>member_object = (\<lambda>config telemetry queue. Inr (queue, [], ''int main;'')), member_isclass = True,
                  member_issubclass = True, member_is_base = False\<rparr>]
       else Inl ImportError)\<rparr>"

lemma example_env_simps [simp]:
  "staticconf (example_env cfg) = dict_store" "set_iteration (example_env cfg) = (\<lambda>x. x)"
  "open_file (example_env cfg) p m = Inr ()" "stack_depth (example_env cfg) = 10"
  by (simp_all add: example_env_def)

lemma example_env_load: "load_file (yaml (example_env cfg)) 10 ''c.yml'' = Inr (PDict cfg, [])"
proof -
  have "construct_map inc (map (\<lambda>(k, v). (k, YScalar v)) cfg) = Inr (cfg, [])" for inc
    by (induction cfg) auto
  then show ?thesis by (simp add: example_env_def numeral_eq_Suc)
qed

definition example_program :: "(string \<times> pyval pydict) list config_state \<Rightarrow> (string \<times> pyval pydict) list program_state" where
  "example_program c = \<lparr>EXIT_CODE = 0, probe_workers = [], out_lines = [], stdout_lines = [],
     stop_wrapper = new_StopFlagWrapper, handlers = [], sent_signals = [], cleanups = 0, conf = c\<rparr>"

lemma example_env_probes:
  assumes "set (get_probe_namespaces dict_store (namespaces c)) \<subseteq> {''tcp_connect''}"
  shows "\<exists>probes. main_probes args (example_env cfg) c = Inr probes"
proof -
  have f: "\<exists>new. find_subclass (import_probe (example_env cfg) path) (probe_packages extra ''tcp_connect'') = Inr new \<and>
      (\<forall>config telemetry queue. new config telemetry queue = Inr (queue, [], ''int main;''))" for path extra
    by (simp add: example_env_def find_subclass_def probe_packages_def probe_package_def)
  have names: "x \<in> set (enumerate_probe_configs dict_store c) \<Longrightarrow> fst x = ''tcp_connect''" for x
    using assms by (auto simp: enumerate_probe_configs_def)
  show ?thesis unfolding main_probes_def load_probes_def example_env_simps
  proof (rule mapR_exists)
    fix x
    assume "x \<in> set (filter (\<lambda>c. \<not> startswith (fst c) ''_'') (enumerate_probe_configs dict_store c))"
    then have "fst x = ''tcp_connect''" using names by simp
    then obtain config queue where x: "x = (''tcp_connect'', config, queue)" by (metis prod.collapse)
    obtain new where "find_subclass (import_probe (example_env cfg) (extra_plugin_path args))
        (probe_packages (extra_probe_path args) ''tcp_connect'') = Inr new"
      "\<forall>config telemetry queue. new config telemetry queue = Inr (queue, [], ''int main;'')" using f by blast
    then show "\<exists>y. (case x of (name, config, queue) \<Rightarrow>
        bindR (find_subclass (import_probe (example_env cfg) (extra_plugin_path args)) (probe_packages (extra_probe_path args) name))
          (\<lambda>new. bindR (new config (lost_event_telemetry_arg args) queue) (\<lambda>p. Inr (name, p)))) = Inr y"
      by (simp add: x)
  qed
qed

text \<open>A configuration whose probe settings are in a file of their own.\<close>

definition example_split_yaml :: yaml_env where
  "example_split_yaml = \<lparr>read_file = (\<lambda>p. if p \<in> {''/etc/c.yml'', ''/etc/f.yml''} then Inr p else Inl OSError),
     yaml_parse = (\<lambda>d. Inr (if d = ''/etc/c.yml'' then YMap [(''tcp_connect'', YInclude ''f.yml'')]
        else YMap [(''filters'', YSeq [])])),
     fetch_remote = (\<lambda>u. Inl ValueError)\<rparr>"

theorem watcher_covers_includes_witness:
  "\<exists>w s'. setup_config self_restart dict_store (\<lambda>x. x) (load_file example_split_yaml 4) ''/etc/c.yml'' True 60
      \<lparr>namespaces = [], queues = [], sighups = 0\<rparr> = (Inr (Some w), s') \<and>
    watched_files w = [''/etc/c.yml'', ''/etc/f.yml''] \<and>
    {p. (refers example_split_yaml)\<^sup>*\<^sup>* ''/etc/c.yml'' p} = {''/etc/c.yml'', ''/etc/f.yml''}"
proof -
  let ?cfg = "[(''tcp_connect'', PDict [(''filters'', PList [])])]" and ?s = "\<lparr>namespaces = [], queues = [], sighups = 0\<rparr>"
  have four: "(4 :: nat) = Suc (Suc (Suc (Suc 0)))" by simp
  have y: "load_file example_split_yaml 4 ''/etc/c.yml'' = Inr (PDict ?cfg, [''/etc/f.yml''])"
    unfolding four by (simp add: example_split_yaml_def path_simps wrap_OSError_def)
  have "dict_config ?cfg" by (simp add: dict_config_def config_simps DEFAULT_NAMESPACE_def)
  moreover have "ready dict_store ?cfg (all_files ''/etc/c.yml'' [''/etc/f.yml'']) ?s"
    by (simp add: ready_def callback_of_def dict_store_def dict_get_def queues_named_def get_probe_namespaces_def recorded_files_def)
  ultimately obtain s' where p: "parse_config self_restart dict_store (\<lambda>x. x) (load_file example_split_yaml 4) ''/etc/c.yml'' True ?s
      = (Inr (all_files ''/etc/c.yml'' [''/etc/f.yml'']), s')"
    using ds.first_load [where ord = "\<lambda>x. x" and yaml_load = "load_file example_split_yaml 4" and f = "''/etc/c.yml''", OF y]
    by (auto simp del: load_file.simps)
  have files: "all_files ''/etc/c.yml'' [''/etc/f.yml''] = [''/etc/c.yml'', ''/etc/f.yml'']"
    by code_simp
  have "setup_config self_restart dict_store (\<lambda>x. x) (load_file example_split_yaml 4) ''/etc/c.yml'' True 60 ?s =
      (Inr (Some \<lparr>watched_files = [''/etc/c.yml'', ''/etc/f.yml''], watch_interval = 60\<rparr>), s')"
    using p by (simp add: setup_config_def bindE_def files)
  from this watcher_covers_includes [OF this] show ?thesis by auto
qed

end
