(* ===== verification/Runtime.thy ===== *)
theory Runtime
  imports Main_Program
begin

text \<open>
  The running program of \<^verbatim>\<open>pidtree_bcc/main.py\<close> as a state machine: the workers
  put lines into the output queue, the main thread takes and prints them, the watchdog thread
  looks at the workers and the output file, and signals arrive, in any interleaving. The steps
  are those of the loop and the handlers in \<open>Main_Program\<close>; the exception of a handler
  and the \<open>except\<close> clause that meets it are separate steps, since other threads run in
  between.
\<close>

section \<open>States and steps\<close>

text \<open>Where the main thread is: in the loop, before or after taking a line, or leaving it.\<close>

datatype main_pc = Getting | Printing string | Raised exn | Ended exn

text \<open>
  The shared state of \<open>Main_Program\<close>, the lines in the queue, which worker processes run,
  the signals not yet handled, whether the watchdog runs, and every line ever put, in order.
\<close>

record system =
  shared :: main_state
  main_at :: main_pc
  queued :: "string list"
  running :: "bool list"
  pending_signals :: "signal set"
  watching :: bool
  emitted :: "string list"

datatype label =
    Emit nat string
  | Worker_stops nat
  | Signal_arrives signal
  | Get
  | Print
  | Fails exn
  | Handle signal
  | Except
  | Tick observation

definition in_loop :: "main_pc \<Rightarrow> bool" where
  "in_loop pc = (pc = Getting \<or> (\<exists>l. pc = Printing l))"

inductive system_step :: "int \<Rightarrow> system \<Rightarrow> label \<Rightarrow> system \<Rightarrow> bool" for period where
  emit: "i < length (running s) \<Longrightarrow> running s ! i \<Longrightarrow>
    system_step period s (Emit i l) (s\<lparr>queued := queued s @ [l], emitted := emitted s @ [l]\<rparr>)"
| stops: "i < length (running s) \<Longrightarrow> running s ! i \<Longrightarrow>
    system_step period s (Worker_stops i) (s\<lparr>running := (running s)[i := False]\<rparr>)"
| arrives: "system_step period s (Signal_arrives sg) (s\<lparr>pending_signals := insert sg (pending_signals s)\<rparr>)"
| get: "main_at s = Getting \<Longrightarrow> queued s = l # q \<Longrightarrow>
    system_step period s Get (s\<lparr>main_at := Printing l, queued := q\<rparr>)"
| print: "main_at s = Printing l \<Longrightarrow>
    system_step period s Print (s\<lparr>main_at := Getting, shared := (shared s)\<lparr>out_lines := out_lines (shared s) @ [l]\<rparr>\<rparr>)"
| fails: "in_loop (main_at s) \<Longrightarrow> is_Exception e \<Longrightarrow> system_step period s (Fails e) (s\<lparr>main_at := Raised e\<rparr>)"
| handle: "in_loop (main_at s) \<Longrightarrow> sg \<in> pending_signals s \<Longrightarrow> termination_handler sg (shared s) = (e, m) \<Longrightarrow>
    system_step period s (Handle sg)
      (s\<lparr>main_at := Raised e, shared := m, pending_signals := pending_signals s - {sg}\<rparr>)"
| handle_in_except: "main_at s = Raised e0 \<Longrightarrow> sg \<in> pending_signals s \<Longrightarrow>
    termination_handler sg (shared s) = (e, m) \<Longrightarrow>
    system_step period s (Handle sg)
      (s\<lparr>main_at := Ended e, shared := m, pending_signals := pending_signals s - {sg}\<rparr>)"
| except_clause: "main_at s = Raised e \<Longrightarrow> main_except e (shared s) = (e', m) \<Longrightarrow>
    system_step period s Except (s\<lparr>main_at := Ended e', shared := m\<rparr>)"
| tick: "watching s \<Longrightarrow> workers_alive obs = running s \<Longrightarrow> watchdog_round period obs (shared s) = (r, m) \<Longrightarrow>
    system_step period s (Tick obs)
      (s\<lparr>shared := m, watching := (r = Inr True),
         pending_signals := pending_signals s \<union> set (drop (length (sent_signals (shared s))) (sent_signals m))\<rparr>)"

inductive system_run :: "int \<Rightarrow> system \<Rightarrow> label list \<Rightarrow> system \<Rightarrow> bool" for period where
  none: "system_run period s [] s"
| more_steps: "system_run period s ls s1 \<Longrightarrow> system_step period s1 l s2 \<Longrightarrow> system_run period s (ls @ [l]) s2"

inductive_cases system_stepE: "system_step period s l s'"

text \<open>The state once the probes and the watchdog are started.\<close>

definition system_start :: "system \<Rightarrow> bool" where
  "system_start s = (main_at s = Getting \<and> queued s = [] \<and> emitted s = [] \<and> out_lines (shared s) = [] \<and>
     EXIT_CODE (shared s) = 0 \<and> pending_signals s = {} \<and> watching s \<and> \<not> do_stop (stop_wrapper (shared s)))"

section \<open>Output\<close>

lemma handler_lines:
  "termination_handler sg m = (e, m') \<Longrightarrow> out_lines m' = out_lines m"
  "main_except e m = (e', m') \<Longrightarrow> out_lines m' = out_lines m"
  "watchdog_round period obs m = (r, m') \<Longrightarrow> out_lines m' = out_lines m"
  by (auto simp: termination_handler_def main_except_def watchdog_round_def terminate_workers_def Let_def
      split: if_splits option.splits sum.splits)

definition in_hand :: "system \<Rightarrow> string list \<Rightarrow> bool" where
  "in_hand s lost = (case main_at s of Getting \<Rightarrow> lost = [] | Printing l \<Rightarrow> lost = [l] | _ \<Rightarrow> length lost \<le> 1)"

definition lines_kept :: "system \<Rightarrow> bool" where
  "lines_kept s = (\<exists>lost. emitted s = out_lines (shared s) @ lost @ queued s \<and> in_hand s lost)"

lemma lines_kept_step:
  assumes "system_step period s l s'" and "lines_kept s"
  shows "lines_kept s'"
proof -
  obtain lost where l: "emitted s = out_lines (shared s) @ lost @ queued s" "in_hand s lost"
    using assms(2) by (auto simp: lines_kept_def)
  have short: "length lost \<le> 1" using l(2) by (auto simp: in_hand_def split: main_pc.splits)
  from assms(1) show ?thesis
  proof (cases rule: system_step.cases)
    case (print line)
    then show ?thesis using l by (auto simp: lines_kept_def in_hand_def)
  next
    case (get line q)
    then show ?thesis using l by (auto simp: lines_kept_def in_hand_def)
  next
    case (tick obs r m)
    then show ?thesis using l by (auto simp: lines_kept_def in_hand_def dest: handler_lines)
  qed (use l short in \<open>auto simp: lines_kept_def in_hand_def dest: handler_lines\<close>)
qed

text \<open>
  Property C11. However workers, main thread, watchdog and signals interleave, lines are printed in
  the order they were put into the queue, none twice and none made up: what was put is what was
  printed, then at most one line in the main thread's hand, then what is still queued. A line is
  lost only when the loop is left with it.
\<close>

theorem system_output_fifo:
  assumes "system_run period s0 ls s" and "system_start s0"
  shows "\<exists>lost. emitted s = out_lines (shared s) @ lost @ queued s \<and> length lost \<le> 1 \<and>
    (main_at s = Getting \<longrightarrow> lost = [])"
proof -
  have "lines_kept s0" using assms(2) by (auto simp: system_start_def lines_kept_def in_hand_def)
  with assms(1) have "lines_kept s" by (induction rule: system_run.induct) (auto intro: lines_kept_step)
  then show ?thesis unfolding lines_kept_def in_hand_def by (cases "main_at s") auto
qed

section \<open>How a run ends\<close>

text \<open>What a sequence of steps had in it: requests to exit or restart, and failures.\<close>

definition asked_exit :: "label list \<Rightarrow> bool" where
  "asked_exit ls = (Signal_arrives SIGINT \<in> set ls \<or> Signal_arrives SIGTERM \<in> set ls)"

definition wants_restart :: "observation \<Rightarrow> bool" where
  "wants_restart obs = (case reload_result obs of None \<Rightarrow> False | Some (Inl e) \<Rightarrow> True | Some (Inr restarts) \<Rightarrow> restarts)"

definition asked_restart :: "label list \<Rightarrow> bool" where
  "asked_restart ls = (Signal_arrives SIGHUP \<in> set ls \<or>
     (\<exists>obs. Tick obs \<in> set ls \<and> wants_restart obs))"

definition unhealthy :: "observation \<Rightarrow> bool" where
  "unhealthy obs = (\<not> list_all (\<lambda>a. a) (workers_alive obs) \<or> bad_fds obs)"

definition failed :: "label list \<Rightarrow> bool" where
  "failed ls = ((\<exists>e. Fails e \<in> set ls) \<or> (\<exists>obs. Tick obs \<in> set ls \<and> unhealthy obs))"

definition accounted :: "label list \<Rightarrow> exn \<Rightarrow> bool" where
  "accounted ls e = (e = RestartSignal \<and> asked_restart ls \<or> e = SystemExit 0 \<and> asked_exit ls \<or>
     e = SystemExit 1 \<and> failed ls)"

definition told_to_stop :: "main_state \<Rightarrow> bool" where
  "told_to_stop m = list_all Not (probe_workers m)"

lemmas trace_defs = asked_exit_def asked_restart_def failed_def accounted_def

lemma accounted_snoc: "accounted ls e \<Longrightarrow> accounted (ls @ [l]) e"
  by (auto simp: trace_defs)

definition run_inv :: "label list \<Rightarrow> system \<Rightarrow> bool" where
  "run_inv ls s =
     (EXIT_CODE (shared s) \<in> {0, 1} \<and> (EXIT_CODE (shared s) = 1 \<longrightarrow> failed ls) \<and>
      (\<forall>sg \<in> pending_signals s. accounted ls (if sg = SIGHUP then RestartSignal else SystemExit (EXIT_CODE (shared s)))) \<and>
      (case main_at s of
         Raised e \<Rightarrow> is_Exception e \<and> failed ls \<or> told_to_stop (shared s) \<and> accounted ls e
       | Ended e \<Rightarrow> told_to_stop (shared s) \<and> accounted ls e
       | _ \<Rightarrow> True))"

lemma handler_result:
  assumes "termination_handler sg m = (e, m')"
  shows "told_to_stop m'" and "EXIT_CODE m' = EXIT_CODE m"
    and "e = (if sg = SIGHUP then RestartSignal else SystemExit (EXIT_CODE m))"
  using assms by (auto simp: termination_handler_def terminate_workers_def told_to_stop_def Let_def list_all_iff split: if_splits)

lemma failed_mono: "failed ls \<Longrightarrow> failed (ls @ [l])"
  by (auto simp: failed_def)

lemma except_result:
  assumes "main_except e m = (e', m')"
  shows "if is_Exception e then e' = SystemExit 1 \<and> EXIT_CODE m' = 1 \<and> told_to_stop m'
    else e' = e \<and> EXIT_CODE m' = EXIT_CODE m \<and> told_to_stop m' = told_to_stop m"
  using assms by (auto simp: main_except_def Let_def terminate_workers_def told_to_stop_def list_all_iff is_Exception_def
      split: if_splits)

lemma accounted_arrival:
  "c \<in> {0, 1} \<Longrightarrow> (c = 1 \<longrightarrow> failed ls) \<Longrightarrow>
    accounted (ls @ [Signal_arrives sg]) (if sg = SIGHUP then RestartSignal else SystemExit c)"
  by (cases sg) (auto simp: trace_defs)

lemma watchdog_result:
  assumes "watchdog_round period obs m = (r, m')"
  shows "m' = m \<or>
    unhealthy obs \<and> m' = m\<lparr>EXIT_CODE := 1, sent_signals := sent_signals m @ [SIGTERM]\<rparr> \<or>
    wants_restart obs \<and> m' = m\<lparr>sent_signals := sent_signals m @ [SIGHUP]\<rparr>"
  using assms by (auto simp: watchdog_round_def unhealthy_def wants_restart_def split: if_splits option.splits sum.splits)

lemma run_inv_step:
  assumes "system_step period s l s'" and "run_inv ls s"
  shows "run_inv (ls @ [l]) s'"
  using assms(1)
proof (cases rule: system_step.cases)
  case (arrives sg)
  with assms(2) accounted_arrival [of "EXIT_CODE (shared s)" ls sg] show ?thesis
    by (auto simp: run_inv_def failed_mono accounted_snoc split: main_pc.splits)
next
  case (fails e)
  with assms(2) show ?thesis
    by (auto simp: run_inv_def failed_mono accounted_snoc) (auto simp: failed_def)
next
  case (handle sg e m)
  with assms(2) handler_result [of sg "shared s" e m] show ?thesis
    by (auto simp: run_inv_def failed_mono accounted_snoc)
next
  case (handle_in_except e0 sg e m)
  with assms(2) handler_result [of sg "shared s" e m] show ?thesis
    by (auto simp: run_inv_def failed_mono accounted_snoc)
next
  case (except_clause e e' m)
  have raised: "is_Exception e \<and> failed ls \<or> told_to_stop (shared s) \<and> accounted ls e"
    using assms(2) except_clause(3) by (simp add: run_inv_def)
  show ?thesis
  proof (cases "is_Exception e")
    case True
    with raised have "failed (ls @ [l])" by (auto simp: trace_defs is_Exception_def)
    then have "accounted (ls @ [l]) (SystemExit 1)" by (simp add: accounted_def)
    with \<open>failed (ls @ [l])\<close> except_result [OF except_clause(4)] True except_clause(1,2) assms(2) show ?thesis
      by (auto simp: run_inv_def accounted_snoc split: if_splits)
  next
    case False
    with raised except_result [OF except_clause(4)] except_clause(1,2) assms(2) show ?thesis
      by (auto simp: run_inv_def failed_mono accounted_snoc)
  qed
next
  case (tick obs r m)
  have told: "told_to_stop (m'\<lparr>EXIT_CODE := c\<rparr>) = told_to_stop m'"
    "told_to_stop (m'\<lparr>sent_signals := q\<rparr>) = told_to_stop m'" for m' c q
    by (simp_all add: told_to_stop_def)
  from watchdog_result [OF tick(5)] show ?thesis
  proof (elim disjE conjE)
    assume m: "unhealthy obs" "m = (shared s)\<lparr>EXIT_CODE := 1, sent_signals := sent_signals (shared s) @ [SIGTERM]\<rparr>"
    then have f: "failed (ls @ [l])" using tick(1) by (auto simp: failed_def)
    then have "accounted (ls @ [l]) (SystemExit 1)" by (simp add: accounted_def)
    with f m tick assms(2) show ?thesis
      by (auto simp: run_inv_def accounted_snoc told split: main_pc.splits if_splits)
  next
    assume m: "wants_restart obs" "m = (shared s)\<lparr>sent_signals := sent_signals (shared s) @ [SIGHUP]\<rparr>"
    then have "accounted (ls @ [l]) RestartSignal" using tick(1) by (auto simp: accounted_def asked_restart_def)
    with m tick assms(2) show ?thesis
      by (auto simp: run_inv_def failed_mono accounted_snoc told split: main_pc.splits)
  qed (use tick assms(2) in \<open>auto simp: run_inv_def failed_mono accounted_snoc split: main_pc.splits\<close>)
qed (use assms(2) in \<open>auto simp: run_inv_def failed_mono accounted_snoc split: main_pc.splits\<close>)

lemma run_inv_run: "system_run period s0 ls s \<Longrightarrow> system_start s0 \<Longrightarrow> run_inv ls s"
proof (induction rule: system_run.induct)
  case (none s)
  then show ?case by (simp add: run_inv_def system_start_def)
next
  case (more_steps s ls s1 l s2)
  then show ?case by (auto intro: run_inv_step)
qed

text \<open>
  Property C10. In every interleaving the program ends with every worker told to terminate and for a
  reason: with a restart only when one was asked for, by a signal or by a reload that wants one or failed, with exit
  code 0 only when an interrupt or termination signal arrived from outside, and with exit code 1
  only after an error of the output or a round of the watchdog that found a worker or the output
  file broken.
\<close>

theorem system_ends_accounted:
  assumes "system_run period s0 ls s" and "system_start s0" and "main_at s = Ended e"
  shows "list_all Not (probe_workers (shared s)) \<and>
    (e = RestartSignal \<and> asked_restart ls \<or> e = SystemExit 0 \<and> asked_exit ls \<or> e = SystemExit 1 \<and> failed ls)"
  using run_inv_run [OF assms(1,2)] assms(3) by (simp add: run_inv_def accounted_def told_to_stop_def)

definition example_system :: "bool list \<Rightarrow> system" where
  "example_system ws = \<lparr>shared = example_main\<lparr>probe_workers := ws\<rparr>, main_at = Getting, queued = [], running = ws,
     pending_signals = {}, watching = True, emitted = []\<rparr>"

lemma example_system_start: "system_start (example_system ws)"
  by (simp add: system_start_def example_system_def example_main_def new_StopFlagWrapper_def)

text \<open>One more step at the front of a run.\<close>

lemma run_Cons: "system_step period s l s1 \<Longrightarrow> system_run period s1 ls s2 \<Longrightarrow> system_run period s (l # ls) s2"
proof (induction ls arbitrary: s2 rule: rev_induct)
  case Nil
  then have "s2 = s1" by (auto elim: system_run.cases)
  with Nil system_run.more_steps [OF system_run.none Nil(1)] show ?case by simp
next
  case (snoc x ls)
  from snoc.prems(2) obtain s3 where "system_run period s1 ls s3" "system_step period s3 x s2"
    by (auto elim: system_run.cases)
  with snoc.IH [OF snoc.prems(1)] system_run.more_steps [of period s "l # ls" s3 x s2] show ?case by simp
qed

text \<open>A run that prints a line, is asked to terminate and exits.\<close>

lemma example_run:
  "\<exists>s. system_run 60 (example_system [True])
      [Emit 0 ''{}'', Get, Emit 0 ''[]'', Print, Signal_arrives SIGTERM, Handle SIGTERM, Except] s \<and>
    main_at s = Ended (SystemExit 0) \<and> out_lines (shared s) = [''{}''] \<and> queued s = [''[]''] \<and>
    emitted s = [''{}'', ''[]'']"
proof -
  let ?m0 = "example_main\<lparr>probe_workers := [True]\<rparr>"
  let ?m1 = "?m0\<lparr>out_lines := [''{}'']\<rparr>" and ?m2 = "example_main\<lparr>probe_workers := [False], out_lines := [''{}'']\<rparr>"
  let ?s = "\<lambda>m pc q p e. \<lparr>shared = m, main_at = pc, queued = q, running = [True], pending_signals = p,
     watching = True, emitted = e\<rparr> :: system"
  have 1: "system_step 60 (example_system [True]) (Emit 0 ''{}'') (?s ?m0 Getting [''{}''] {} [''{}''])"
    using system_step.emit [of 0 "example_system [True]" 60 "''{}''"] by (simp add: example_system_def)
  have 2: "system_step 60 (?s ?m0 Getting [''{}''] {} [''{}'']) Get (?s ?m0 (Printing ''{}'') [] {} [''{}''])"
    using system_step.get [of "?s ?m0 Getting [''{}''] {} [''{}'']" "''{}''" "[]" 60] by simp
  have 3: "system_step 60 (?s ?m0 (Printing ''{}'') [] {} [''{}'']) (Emit 0 ''[]'')
      (?s ?m0 (Printing ''{}'') [''[]''] {} [''{}'', ''[]''])"
    using system_step.emit [of 0 "?s ?m0 (Printing ''{}'') [] {} [''{}'']" 60 "''[]''"] by simp
  have 4: "system_step 60 (?s ?m0 (Printing ''{}'') [''[]''] {} [''{}'', ''[]'']) Print
      (?s ?m1 Getting [''[]''] {} [''{}'', ''[]''])"
    using system_step.print [of "?s ?m0 (Printing ''{}'') [''[]''] {} [''{}'', ''[]'']" "''{}''" 60]
    by (simp add: example_main_def)
  have 5: "system_step 60 (?s ?m1 Getting [''[]''] {} [''{}'', ''[]'']) (Signal_arrives SIGTERM)
      (?s ?m1 Getting [''[]''] {SIGTERM} [''{}'', ''[]''])"
    using system_step.arrives [of 60 "?s ?m1 Getting [''[]''] {} [''{}'', ''[]'']" SIGTERM] by simp
  have 6: "system_step 60 (?s ?m1 Getting [''[]''] {SIGTERM} [''{}'', ''[]'']) (Handle SIGTERM)
      (?s ?m2 (Raised (SystemExit 0)) [''[]''] {} [''{}'', ''[]''])"
    using system_step.handle [of "?s ?m1 Getting [''[]''] {SIGTERM} [''{}'', ''[]'']" SIGTERM "SystemExit 0" ?m2 60]
    by (simp add: in_loop_def termination_handler_def terminate_workers_def example_main_def)
  have 7: "system_step 60 (?s ?m2 (Raised (SystemExit 0)) [''[]''] {} [''{}'', ''[]'']) Except
      (?s ?m2 (Ended (SystemExit 0)) [''[]''] {} [''{}'', ''[]''])"
    using system_step.except_clause [of "?s ?m2 (Raised (SystemExit 0)) [''[]''] {} [''{}'', ''[]'']" "SystemExit 0"
        "SystemExit 0" ?m2 60]
    by (simp add: main_except_def is_Exception_def)
  show ?thesis
    by (intro exI conjI, rule run_Cons [OF 1], rule run_Cons [OF 2], rule run_Cons [OF 3], rule run_Cons [OF 4],
        rule run_Cons [OF 5], rule run_Cons [OF 6], rule run_Cons [OF 7], rule system_run.none) simp_all
qed

theorem system_output_fifo_witness:
  "\<exists>ls s lost. system_run 60 (example_system [True]) ls s \<and> out_lines (shared s) = [''{}''] \<and>
     emitted s = out_lines (shared s) @ lost @ queued s"
  using example_run system_output_fifo [OF _ example_system_start] by blast

theorem system_ends_accounted_witness:
  "\<exists>ls s. system_run 60 (example_system [True]) ls s \<and> main_at s = Ended (SystemExit 0) \<and> asked_exit ls"
proof -
  obtain ls s where r: "system_run 60 (example_system [True]) ls s" "main_at s = Ended (SystemExit 0)"
    using example_run by blast
  from system_ends_accounted [OF r(1) example_system_start r(2)] r show ?thesis by auto
qed

section \<open>A restart that turns into an exit\<close>

text \<open>
  Property C32. The watchdog cannot tell a worker that died from one the restart just terminated:
  when it wakes after the handler of a hang-up signal terminated the workers and before the main
  thread sets the stop flag, it asks for termination, and the program exits with code 1 although
  every worker was running until it was told to stop.
\<close>

theorem restart_race_exits:
  assumes "0 \<le> period"
  shows "\<exists>obs s. system_run period (example_system [True])
      [Signal_arrives SIGHUP, Handle SIGHUP, Worker_stops 0, Tick obs, Handle SIGTERM] s \<and>
    main_at s = Ended (SystemExit 1)"
proof -
  let ?obs = "\<lparr>workers_alive = [False], bad_fds = False, reload_result = None\<rparr>"
  let ?m0 = "example_main\<lparr>probe_workers := [True]\<rparr>" and ?m1 = "example_main\<lparr>probe_workers := [False]\<rparr>"
  let ?m2 = "?m1\<lparr>EXIT_CODE := 1, sent_signals := [SIGTERM]\<rparr>"
  let ?s = "\<lambda>m pc r p w. \<lparr>shared = m, main_at = pc, queued = [], running = [r], pending_signals = p,
     watching = w, emitted = []\<rparr> :: system"
  have 1: "system_step period (example_system [True]) (Signal_arrives SIGHUP) (?s ?m0 Getting True {SIGHUP} True)"
    using system_step.arrives [of period "example_system [True]" SIGHUP] by (simp add: example_system_def)
  have 2: "system_step period (?s ?m0 Getting True {SIGHUP} True) (Handle SIGHUP) (?s ?m1 (Raised RestartSignal) True {} True)"
    using system_step.handle [of "?s ?m0 Getting True {SIGHUP} True" SIGHUP RestartSignal ?m1 period]
    by (simp add: in_loop_def termination_handler_def terminate_workers_def example_main_def)
  have 3: "system_step period (?s ?m1 (Raised RestartSignal) True {} True) (Worker_stops 0)
      (?s ?m1 (Raised RestartSignal) False {} True)"
    using system_step.stops [of 0 "?s ?m1 (Raised RestartSignal) True {} True" period] by simp
  have 4: "system_step period (?s ?m1 (Raised RestartSignal) False {} True) (Tick ?obs)
      (?s ?m2 (Raised RestartSignal) False {SIGTERM} False)"
    using system_step.tick [of "?s ?m1 (Raised RestartSignal) False {} True" ?obs period "Inr False" ?m2] assms
    by (simp add: watchdog_round_def example_main_def new_StopFlagWrapper_def)
  have 5: "system_step period (?s ?m2 (Raised RestartSignal) False {SIGTERM} False) (Handle SIGTERM)
      (?s ?m2 (Ended (SystemExit 1)) False {} False)"
    using system_step.handle_in_except [of "?s ?m2 (Raised RestartSignal) False {SIGTERM} False" RestartSignal SIGTERM
        "SystemExit 1" ?m2 period]
    by (simp add: termination_handler_def terminate_workers_def example_main_def)
  show ?thesis
    by (intro exI conjI, rule run_Cons [OF 1], rule run_Cons [OF 2], rule run_Cons [OF 3], rule run_Cons [OF 4],
        rule run_Cons [OF 5], rule system_run.none) simp
qed

theorem restart_race_exits_witness:
  "\<exists>obs s. system_run 60 (example_system [True])
      [Signal_arrives SIGHUP, Handle SIGHUP, Worker_stops 0, Tick obs, Handle SIGTERM] s \<and>
    main_at s = Ended (SystemExit 1)"
  by (rule restart_race_exits) simp

end
