(* ===== verification/Spec2Isabelle.thy ===== *)
theory Spec2Isabelle
  imports Sock_Kernel Probe_Worker Net_Listen Ctypes_Helper Container_Monitor Startup Runtime
begin

text \<open>
  A verification development for pidtree-bcc, a daemon that loads eBPF programs, reports the
  network events they see with the process tree behind each, and follows changes of its
  configuration without losing its place. The sources are under \<^verbatim>\<open>src/pidtree_bcc/\<close>.

  \<^bold>\<open>Parts and how they interact.\<close> The main program
  (\<^verbatim>\<open>main.py\<close>) reads the configuration (\<^verbatim>\<open>config.py\<close>) through a YAML
  loader that follows includes, local and remote (\<^verbatim>\<open>yaml_loader.py\<close>), builds a probe
  for each entry (\<^verbatim>\<open>probes/__init__.py\<close>) with its plugins
  (\<^verbatim>\<open>plugins/\<close>), runs each probe in a process and writes the lines they queue. A
  probe compiles an eBPF program from a template (\<^verbatim>\<open>probes/*.j2\<close>), loads network and
  port filters into the program's tables (\<^verbatim>\<open>filtering.py\<close>), follows the containers
  whose labels match (\<^verbatim>\<open>containers.py\<close>) and turns kernel events into dictionaries
  (\<^verbatim>\<open>tcp_connect.py\<close>, \<^verbatim>\<open>udp_session.py\<close>,
  \<^verbatim>\<open>net_listen.py\<close>). A watchdog thread checks workers and reloads the configuration;
  a change goes to the probe through a queue or restarts the program.

  \<^bold>\<open>Conventions.\<close> Results that may raise are \<open>exn + 'a\<close>, methods that also change
  state are state transformers (\<open>('s, 'a) eff\<close>), loops that may not end are partial
  functions into \<open>option\<close> or take what they observe as a finite list. Configuration and event
  values are the datatype \<open>pyval\<close>, dictionaries association lists in insertion order. Code
  outside the sources (bcc's tables, psutil, staticconf, PyYAML, the container engines, the
  network, clocks) is an argument; where the code relies on it, the contract is a locale with the
  operations as parameters and at least one model that meets it, or a named hypothesis.

  \<^bold>\<open>Theories.\<close>
  \<^item> \<open>Prelude\<close>: exceptions, values, effects, strings, decimal notation.
  \<^item> \<open>Net_Utils\<close> (\<^verbatim>\<open>utils.py\<close>): addresses, masks, rounding.
    \<open>Proc_Utils\<close> (\<^verbatim>\<open>utils.py\<close>): process tree walk, module lookup, the retrying
    decorator, namespaces. \<open>Ctypes_Helper\<close> (\<^verbatim>\<open>ctypes_helper.py\<close>).
    \<open>Json\<close>: \<open>json.dumps\<close> as the probes use it.
  \<^item> \<open>Bpf_Tables\<close>: the contract of the tables (\<open>bpf_table\<close>, \<open>bpf_hash\<close>) and
    three tables that meet it. \<open>Filtering\<close> (\<^verbatim>\<open>filtering.py\<close>): the user-space
    filter and the three loaders. \<open>Kernel_Filter\<close> (\<^verbatim>\<open>probes/utils.j2\<close>): what
    the kernel answers from the loaded tables, by longest prefix (\<open>lpm_trie\<close>).
  \<^item> \<open>Probes\<close> (\<^verbatim>\<open>probes/__init__.py\<close>): the base class, its record
    \<open>probe_base\<close> extended by the probes, configuration, events, telemetry, filter reloads,
    and the contract of \<open>enrich_event\<close> (\<open>event_enricher\<close>).
    \<open>Probe_Loading\<close>: the constructor, \<open>start_polling\<close> up to its loop,
    \<open>load_probes\<close>. \<open>Probe_Worker\<close>: the polling loop and the thread that takes up
    configuration changes, with what it can raise. \<open>Container_Monitor\<close>: the thread that keeps
    the container table.
  \<^item> \<open>Tcp_Connect\<close>, \<open>Udp_Session\<close>, \<open>Net_Listen\<close>: the three probes.
    \<open>Udp_Kernel\<close>, \<open>Sock_Kernel\<close>: their eBPF programs (\<open>pending_sockets\<close> is what
    two of them share).
  \<^item> \<open>Containers\<close> (\<^verbatim>\<open>containers.py\<close>): engine clients, caches, label patterns,
    events. \<open>Plugins\<close> (\<^verbatim>\<open>plugins/\<close>): the loader and the three plugins.
  \<^item> \<open>Config\<close> (\<^verbatim>\<open>config.py\<close>): loading, hot swaps, restarts over the namespaces
    of staticconf (\<open>config_store\<close>). \<open>Yaml_Loader\<close>
    (\<^verbatim>\<open>yaml_loader.py\<close>): includes, loaders, remote fetches, the fetcher thread.
  \<^item> \<^verbatim>\<open>main.py\<close>: \<open>Arguments\<close> is \<open>parse_args\<close> with the part of
    \<open>argparse\<close> it relies on. \<open>Main_Program\<close>: signals, watchdog, output and restart loops,
    over any state that extends \<open>main_state\<close>. \<open>Runtime\<close>: the interleavings of workers,
    main thread, watchdog and signals as the step relation \<open>system_step\<close>. \<open>Startup\<close>:
    all of \<open>main\<close> and of the loop around it, from the command line through the YAML loader,
    the configuration and \<open>load_probes\<close> to the running workers.
  \<^item> This theory: properties that span components, from the filters to an output line and from
    the command line to the workers.

  \<^bold>\<open>What is shown.\<close> Loading filters leaves exactly the listed ones in the tables,
  errors included, and the kernel then answers by the most specific filter; it agrees with the
  user-space filter where no two filters overlap and provably differs where they nest. Session
  tracking refines a log of sessions and stays in step with the kernel's table; the snapshot of
  listening sockets selects as the kernel does. A TCP connection becomes an output line exactly when
  the configured filters let it pass. A queue of configuration changes reaches the kernel's answers
  even when some of them raise; a reload goes to exactly the probes it concerns, or is taken over by
  one restart that runs the new configuration, except that adding a probe makes the program restart
  until it gives up, and that changed container labels are forwarded but never applied. The watcher
  covers every file that is included, and loading ends; a remote include returns only what was
  fetched but can miss its wake-up, and a round of the fetcher brings every file up to date. Command
  lines mean what their options mean one by one, and every setting can be written on one. In every
  interleaving lines are printed in order, none twice, and the program ends with its workers told to
  stop and for a reason that happened, though a watchdog that wakes during a restart turns it into
  an exit. Every output line is printable ASCII.

  \<^bold>\<open>Bounds and fuel.\<close> The kernel's loop over port ranges has the 8 rounds of
  \<open>NET_FILTER_MAX_PORT_RANGES\<close> and \<open>value_filters\<close> is shown to look at every range
  with them. \<open>load_file\<close> has the nesting depth the stack allows as fuel;
  \<open>include_load_terminates\<close> shows that a depth above the longest chain of includes is
  enough. The flags of one string are expanded by recursion on what is left of it.
  \<open>run_program\<close> ends by the hundred restarts of the source. The process walk and the
  retrying decorator are partial functions with theorems on when they return. Ports, addresses and
  kernel fields are words of their width.

  \<^bold>\<open>Not modelled.\<close> The texts \<open>argparse\<close> prints (its reading of the
  command line is that of CPython 3.11), logging, package metadata, rendering templates and
  compiling them, and the template macros that only generate declarations. Times are exact rationals. Characters are the code points below 256. Dictionary
  keys are strings, as in every dictionary the sources read. PyYAML constructs the parts of a
  document in an order of its own; the model goes from left to right, which matters only for which
  of several errors is raised.
\<close>

section \<open>From the configuration to an output line\<close>

text \<open>The event as the probe reads it from the kernel's structure.\<close>

definition tcp_event_of :: "connection_t \<Rightarrow> tcp_event" where
  "tcp_event_of conn = \<lparr>tcp_pid = connection_pid conn, tcp_daddr = conn_daddr conn,
     tcp_saddr = conn_saddr conn, tcp_dport = conn_dport conn, tcp_mntns_id = conn_mntns conn\<rparr>"

text \<open>The test of the kernel program on the tables of a probe.\<close>

definition kernel_filtered ::
    "('n \<Rightarrow> cfilter_key \<Rightarrow> cfilter_value option) \<Rightarrow> ('p, i32, u8) table_ops \<Rightarrow> ('n, 'p, 'c) bpf_maps \<Rightarrow> u32 \<Rightarrow> u16 \<Rightarrow> bool" where
  "kernel_filtered lpm TP m daddr dport =
     (is_addr_port_filtered (lpm (net_filter_map m)) daddr dport \<or>
      is_port_globally_filtered (tbl_get TP (port_filter_map m)) dport)"

lemma reload_both:
  assumes "load_filters_into_map bo kord TN filters True (net_filter_map m) = (Inr (), n')"
    and "load_port_filters_into_map pord TP ports md True (port_filter_map m) = (Inr (), p')"
    and "net_filters s = PList filters" and "global_filters s = (PList ports, md)"
  shows "reload_filters bo kord pord TN TP s False m = (Inr (), m\<lparr>net_filter_map := n', port_filter_map := p'\<rparr>)"
  using assms by (simp add: reload_filters_def bindE_def py_iter_def)

text \<open>
  Property C3. A connection is reported as the configuration says. The filters have dotted masks and
  the kernel's tables have room for them and for the pending connection. Once the probe has loaded
  its filters, a thread's connection to a port other than 0 becomes an event exactly when it
  succeeds, the most specific network filter and the global port filter let it pass and, if
  container labels are on, its mount namespace is included, whatever other threads do meanwhile.
  The dictionary of the event has the addresses, port and process of the socket the thread
  connected; the plugins get it, and what they return is output, so the event becomes exactly one
  printable line unless a plugin raises.
\<close>

theorem connection_follows_config:
  assumes lpm: "lpm_trie TN I fits bo lpm" "I (net_filter_map m)" "set_order kord"
      "mapR (filter_entry_of bo) filters = Inr kvs" "fits (dom (tbl_get TN (net_filter_map m)) \<union> fst ` set kvs)"
      "\<forall>e \<in> set filters. dotted_filter e"
    and ports: "port_table TP J pfits" "J (port_filter_map m)" "set_order pord" "md \<noteq> mode_all"
      "portset_of pspecs = Inr ps" "\<forall>p \<in> set ps. 0 \<le> p \<and> p \<le> 65535" "pfits (dom (tbl_get TP (port_filter_map m)))"
      "\<forall>p. 0 \<le> p \<and> p \<le> 65535 \<longrightarrow> c_int p \<in> dom (tbl_get TP (port_filter_map m))"
    and probe: "net_filters s = PList filters" "global_filters s = (PList pspecs, md)"
      "container_labels_on opts = truthy (container_labels_filter s)" "catchable crawl" "\<And>q. printable (fr q)"
    and thread: "entry_tid c \<notin> fst ` set t" "length t < n"
      "by_others (entry_tid c) ops" "return_tid r = entry_tid c"
    and sock: "so = mem (entry_sk c)" "dport = ntohs bo (skc_dport so)" "0 < dport"
  shows "\<exists>m'. reload_filters bo kord pord TN TP s False m = (Inr (), m') \<and>
    (let filtered = kernel_filtered lpm TP m';
         ev = fst (kretprobe__tcp_v4_connect opts bo filtered mem r
           (sock_run (kprobe__tcp_v4_connect opts n included) (kretprobe__tcp_v4_connect opts bo filtered mem) ops
             (kprobe__tcp_v4_connect opts n included c t)))
     in if return_rc r = 0 \<and> (container_labels_on opts \<longrightarrow> included (entry_mntns c)) \<and>
           \<not> (case deciding_entry bo kvs (skc_daddr so) of None \<Rightarrow> False | Some (k, v) \<Rightarrow> value_filters v dport) \<and>
           \<not> (if md = mode_exclude then uint dport \<in> set ps else uint dport \<notin> set ps)
        then \<exists>conn d. ev = Some conn \<and>
          process_events (tcp_enrich_event crawl format_exc) fr utcnow (tcp_event_of conn) s =
            bindE (liftR (run_plugins (plugins s) (add_event_metadata s utcnow d))) (put_event fr) s \<and>
          (plugins_total s \<longrightarrow> (\<exists>line. output_line fr s utcnow d = Inr line \<and> printable line \<and>
            process_events (tcp_enrich_event crawl format_exc) fr utcnow (tcp_event_of conn) s =
              (Inr (), s\<lparr>output_queue := output_queue s @ [line]\<rparr>))) \<and>
          map_of d ''pid'' = Some (PInt (uint (entry_tid c))) \<and> map_of d ''port'' = Some (PInt (uint dport)) \<and>
          (\<exists>daddr. map_of d ''daddr'' = Some (PStr daddr) \<and> ip_to_int LittleEndian daddr = Inr (uint (skc_daddr so))) \<and>
          (\<exists>saddr. map_of d ''saddr'' = Some (PStr saddr) \<and> ip_to_int LittleEndian saddr = Inr (uint (skc_rcv_saddr so)))
        else ev = None)"
proof -
  obtain n' where n': "load_filters_into_map bo kord TN filters True (net_filter_map m) = (Inr (), n')"
      "\<forall>addr port. is_addr_port_filtered (lpm n') addr port =
         (case deciding_entry bo kvs addr of None \<Rightarrow> False | Some (k, v) \<Rightarrow> value_filters v port)"
    using lpm_trie.loaded_answer [OF lpm] by blast
  obtain p' where p': "load_port_filters_into_map pord TP pspecs md True (port_filter_map m) = (Inr (), p')"
      "\<forall>port. 0 < port \<longrightarrow> is_port_globally_filtered (tbl_get TP p') port =
         (if md = mode_exclude then uint port \<in> set ps else uint port \<notin> set ps)"
    using global_port_answer [OF ports] by blast
  define m' where "m' = m\<lparr>net_filter_map := n', port_filter_map := p'\<rparr>"
  have filtered: "kernel_filtered lpm TP m' (skc_daddr so) dport \<longleftrightarrow>
      (case deciding_entry bo kvs (skc_daddr so) of None \<Rightarrow> False | Some (k, v) \<Rightarrow> value_filters v dport) \<or>
      (if md = mode_exclude then uint dport \<in> set ps else uint dport \<notin> set ps)"
    using n'(2) p'(2) sock(3) by (simp add: kernel_filtered_def m'_def)
  define conn where "conn = \<lparr>connection_pid = entry_tid c, conn_daddr = skc_daddr so, conn_saddr = skc_rcv_saddr so, conn_dport = dport,
      conn_mntns = (if container_labels_on opts then Some (return_mntns r) else None)\<rparr>"
  let ?ev = "fst (kretprobe__tcp_v4_connect opts bo (kernel_filtered lpm TP m') mem r
      (sock_run (kprobe__tcp_v4_connect opts n included) (kretprobe__tcp_v4_connect opts bo (kernel_filtered lpm TP m') mem) ops
        (kprobe__tcp_v4_connect opts n included c t)))"
  let ?included = "container_labels_on opts \<longrightarrow> included (entry_mntns c)"
  have ev: "?ev = (if return_rc r = 0 \<and> ?included \<and> \<not> kernel_filtered lpm TP m' (skc_daddr so) dport then Some conn else None)"
  proof (cases ?included)
    case True
    from connect_event [where included = included and c = c, OF True disjI2 [OF thread(2)] thread(3,4),
        of bo "kernel_filtered lpm TP m'" mem] True
    show ?thesis by (auto simp: conn_def sock(1,2))
  next
    case False
    with connect_excluded [where included = included and c = c, OF _ _ thread(1,3,4)] show ?thesis by simp
  qed
  have ns: "truthy (container_labels_filter s) \<longrightarrow> tcp_mntns_id (tcp_event_of conn) \<noteq> None"
    using probe(3) by (simp add: conn_def tcp_event_of_def)
  from tcp_enrich_ok [OF probe(4) ns, of format_exc] obtain d where
    en: "tcp_enrich_event crawl format_exc (tcp_event_of conn) s = (Inr (Some d), s)" and
    d: "map_of d ''pid'' = Some (PInt (uint (entry_tid c)))" "map_of d ''port'' = Some (PInt (uint dport))"
      "\<exists>daddr. map_of d ''daddr'' = Some (PStr daddr) \<and> ip_to_int LittleEndian daddr = Inr (uint (skc_daddr so))"
      "\<exists>saddr. map_of d ''saddr'' = Some (PStr saddr) \<and> ip_to_int LittleEndian saddr = Inr (uint (skc_rcv_saddr so))"
    using int_to_ip_u32(2) by (fastforce simp: conn_def tcp_event_of_def tcp_fields_def)
  have "d \<noteq> []" using tcp_enrich_plain [OF en] by blast
  with en have out: "process_events (tcp_enrich_event crawl format_exc) fr utcnow (tcp_event_of conn) s =
      bindE (liftR (run_plugins (plugins s) (add_event_metadata s utcnow d))) (put_event fr) s"
    by (simp add: process_events_def bindE_def)
  have line: "\<exists>line. output_line fr s utcnow d = Inr line \<and> printable line \<and>
      process_events (tcp_enrich_event crawl format_exc) fr utcnow (tcp_event_of conn) s =
        (Inr (), s\<lparr>output_queue := output_queue s @ [line]\<rparr>)" if "plugins_total s"
    using tcp_event_line [where fr = fr, OF probe(4) ns that probe(5), of format_exc utcnow] en by auto
  show ?thesis
    using reload_both [OF n'(1) p'(1) probe(1,2)] d out line ev filtered unfolding m'_def [symmetric] Let_def by auto
qed

definition example_web :: "u64 \<Rightarrow> sock_common" where
  "example_web p = (example_sock p)\<lparr>skc_daddr := 0x08080808\<rparr>"

definition example_tcp_probe :: probe_base where
  "example_tcp_probe = example_probe\<lparr>net_filters := PList example_filters\<rparr>"

definition example_tcp_maps :: "((cfilter_key \<times> cfilter_value) list, u8 list, unit) bpf_maps" where
  "example_tcp_maps = \<lparr>net_filter_map = [], port_filter_map = replicate 65536 0, mntns_filter_map = ()\<rparr>"

theorem connection_follows_config_witness:
  "\<exists>m' conn line. reload_filters LittleEndian (\<lambda>xs. xs) (\<lambda>xs. xs) (bounded_table (Some 512)) array_table example_tcp_probe
      False example_tcp_maps = (Inr (), m') \<and>
    fst (kretprobe__tcp_v4_connect example_opts LittleEndian (kernel_filtered (list_lpm LittleEndian) array_table m') example_web
      \<lparr>return_tid = 7, return_rc = 0, return_mntns = 0\<rparr>
      (kprobe__tcp_v4_connect example_opts 10 (\<lambda>_. True) \<lparr>entry_tid = 7, entry_sk = 42, entry_mntns = 0, entry_sin_port = 0\<rparr> []))
      = Some conn \<and>
    process_events (tcp_enrich_event (\<lambda>_. Inr []) (\<lambda>_. [])) (\<lambda>_. ''0.5'') ''now'' (tcp_event_of conn) example_tcp_probe =
      (Inr (), example_tcp_probe\<lparr>output_queue := [line]\<rparr>) \<and> printable line"
proof -
  let ?T = "bounded_table (Some 512) :: ((cfilter_key \<times> cfilter_value) list, cfilter_key, cfilter_value) table_ops"
  let ?c = "\<lparr>entry_tid = 7, entry_sk = 42, entry_mntns = 0, entry_sin_port = 0\<rparr>"
  have n: "table_inv (net_filter_map example_tcp_maps)"
    "table_fits (Some 512) (dom (tbl_get ?T (net_filter_map example_tcp_maps)) \<union> fst ` set example_entries)"
    by (simp_all add: table_inv_def table_fits_def bounded_table_def example_entries_def example_tcp_maps_def)
  have "length (port_filter_map example_tcp_maps) = 65536" by (simp only: example_tcp_maps_def bpf_maps.simps length_replicate)
  note p = full_array [OF this]
  have s: "net_filters example_tcp_probe = PList example_filters" "global_filters example_tcp_probe = (PList [], mode_exclude)"
    "plugins example_tcp_probe = []" "container_labels_on example_opts = truthy (container_labels_filter example_tcp_probe)"
    "output_queue example_tcp_probe = []"
    by (simp_all add: example_tcp_probe_def example_probe_def example_opts_def truthy_def)
  have port: "ntohs LittleEndian (skc_dport (example_web 42)) = 80" "skc_daddr (example_web 42) = 0x08080808"
    by (simp_all add: example_web_def example_sock_def ntohs_def)
  from connection_follows_config [where lpm = "list_lpm LittleEndian" and included = "\<lambda>_. True" and c = ?c and
      fr = "\<lambda>_. ''0.5''" and mem = example_web and t = "[]" and n = 10 and ops = "[]" and opts = example_opts and
      r = "\<lparr>return_tid = 7, return_rc = 0, return_mntns = 0\<rparr>" and crawl = "\<lambda>_. Inr []" and
      kord = "\<lambda>xs. xs" and pord = "\<lambda>xs. xs" and format_exc = "\<lambda>_. []" and utcnow = "''now''",
      OF list_trie.lpm_trie_axioms n(1) set_order_id example_entries_of n(2) example_dotted
         port_filter_map.port_table_axioms p(1) set_order_id, of mode_exclude "[]" "[]" example_tcp_probe _ 80]
  show ?thesis using p(2,3) s plugins_total_none [OF s(3)] port example_deciding(2)
    by (auto simp: portset_of_def catchable_def by_others_def Let_def)
qed

section \<open>Settings a hot swap does not reach\<close>

lemma cold_update:
  "k \<in> set HOT_SWAPPABLE_SETTINGS \<Longrightarrow> cold (AList.update k v d) = cold d"
  by (induction d) (auto simp: cold_def)

lemma cold_same: "py_wf (PDict d) \<Longrightarrow> \<not> differs (cold d) (cold d)"
proof -
  assume wf: "py_wf (PDict d)"
  have "distinct (map fst (cold d))" using wf by (simp add: cold_def distinct_map_filter)
  moreover have "py_wf_items (cold d)" using wf by (simp add: cold_def py_wf_items_filter)
  ultimately have "py_wf (PDict (cold d))" by simp
  from py_eq_self(1) [OF this] show ?thesis by (simp only: differs_def not_not)
qed

text \<open>
  Property C33. A change of \<open>container_labels\<close> alone counts as hot-swappable, so it asks for
  no restart, but a probe of any class that takes it up keeps selecting containers by the labels it
  was started with: the setting has no effect until something else restarts the program.
\<close>

theorem labels_change_not_applied:
  assumes "py_wf (PDict d)"
  shows "let new = AList.update ''container_labels'' labels d
    in \<not> restart_change new d \<and>
      container_labels_filter (fst (snd (apply_config_change (\<lambda>d. build_probe_config cls p d True)
        bo kord pord TN TP new (s, m)))) = container_labels_filter s \<and>
      container_labels_filter (fst (snd (apply_config_change (udp_hotswap p)
        bo kord pord TN TP new (udp_s, m)))) = container_labels_filter udp_s \<and>
      container_labels_filter (fst (snd (apply_config_change (\<lambda>d. nl_build_probe_config p bo readlink d True)
        bo kord pord TN TP new (listen_s, m)))) = container_labels_filter listen_s"
proof -
  let ?new = "AList.update ''container_labels'' labels d"
  have "\<not> restart_change ?new d"
    using cold_same [OF assms] by (simp add: restart_change_def cold_update HOT_SWAPPABLE_SETTINGS_def)
  moreover have "container_labels_filter (fst (snd (apply_config_change (\<lambda>d. build_probe_config cls p d True)
      bo kord pord TN TP ?new (s, m)))) = container_labels_filter s"
    using apply_keeps_labels [of "\<lambda>d. build_probe_config cls p d True" ?new "(s, m)"] build_keeps_labels by fastforce
  ultimately show ?thesis by (simp add: Let_def udp_build.apply_labels listen_build.apply_labels)
qed

theorem labels_change_not_applied_witness:
  "container_labels_filter (fst (snd (apply_config_change (\<lambda>d. build_probe_config TCPConnectProbe example_platform d True)
      LittleEndian (\<lambda>xs. xs) (\<lambda>xs. xs) (bounded_table (Some 512)) (bounded_table None)
      [(''filters'', PList []), (''container_labels'', PList [PStr ''app=web''])] (example_probe, example_maps)))) = PList []"
proof -
  have "py_wf (PDict [(''filters'', PList [])])" by simp
  from labels_change_not_applied [OF this, of "PList [PStr ''app=web'']" TCPConnectProbe example_platform LittleEndian
      "\<lambda>xs. xs" "\<lambda>xs. xs" "bounded_table (Some 512)" "bounded_table None" example_probe example_maps]
  show ?thesis by (simp add: Let_def) (simp add: example_probe_def)
qed

section \<open>Restarts, from the command line to the probes\<close>

text \<open>
  Property C9. Adding a probe to a watched configuration that keeps another one ends the program:
  after the reload that notices it, each of the remaining runs restarts while setting up, and then
  the program gives up, with the new configuration never loaded.
\<close>

theorem added_probe_gives_up:
  assumes "config_store (staticconf E) view" and "load_file (yaml E) (stack_depth E) f = Inr (PDict cfg, inc)"
    and "dict_config cfg" and "set_order (set_iteration E)"
    and "fst (parse_args path_exists argv) = Inr args" and "config args = Some f" and "watch_config args"
    and "loaded_config (staticconf E) old files (conf s)"
    and "set (probe_names old) \<inter> set (probe_names cfg) \<noteq> {}" and "\<not> set (probe_names cfg) \<subseteq> set (probe_names old)"
    and "parse_config self_restart (staticconf E) (set_iteration E) (load_file (yaml E) (stack_depth E)) f True (conf s) = (r, c)"
    and "k \<le> 100"
  shows "\<exists>s'. run_main path_exists argv E events k (s\<lparr>conf := c\<rparr>) = Gave_up s' \<and>
    \<not> loaded_config (staticconf E) cfg (all_files f inc) (conf s')"
proof -
  let ?main = "\<lambda>k. main args E (events k)" and ?s = "s\<lparr>conf := c\<rparr>"
  have "set (get_probe_namespaces (staticconf E) (namespaces (conf s))) = set (probe_names old)"
    using assms(8) by (simp add: loaded_config_def)
  with config_store.added_probe_step [where ord = "set_iteration E" and yaml_load = "load_file (yaml E) (stack_depth E)"
      and f = f, OF assms(1-4), of "conf s"] assms(9-11)
  have "set (get_probe_namespaces (staticconf E) (namespaces (conf ?s))) \<inter> set (probe_names cfg) \<noteq> {}"
    "\<not> set (probe_names cfg) \<subseteq> set (get_probe_namespaces (staticconf E) (namespaces (conf ?s)))" by auto
  from added_probe_restarted [OF assms(1-4,6,7) this, of events k "MAX_RESTARTS - k"]
  obtain s' where s': "restarted ?main k (MAX_RESTARTS - k) ?s = Some s'"
    "\<not> set (probe_names cfg) \<subseteq> set (get_probe_namespaces (staticconf E) (namespaces (conf s')))" by blast
  then have "run_program ?main k ?s = Gave_up s'"
    using run_program_outcome [of k ?main ?s s'] assms(12) by (simp add: MAX_RESTARTS_def)
  with s'(2) show ?thesis by (auto simp: run_main_program [OF assms(5)] loaded_config_def)
qed

theorem added_probe_gives_up_witness:
  "\<exists>c s'. parse_config self_restart dict_store (\<lambda>x. x)
      (load_file (yaml (example_env (example_conf [''foo''] True @ [(''udp_session'', PDict [])]))) 10) ''c.yml'' True example_loaded
      = (Inr [''c.yml''], c) \<and>
    run_main (\<lambda>_. True) [''-w'', ''-c'', ''c.yml''] (example_env (example_conf [''foo''] True @ [(''udp_session'', PDict [])]))
      (\<lambda>_. []) 1 (example_program c) = Gave_up s'"
proof -
  let ?cfg = "example_conf [''foo''] True @ [(''udp_session'', PDict [])]"
  let ?E = "example_env ?cfg"
  have cfg: "dict_config ?cfg" by (simp add: dict_config_def config_simps DEFAULT_NAMESPACE_def)
  have names: "set (probe_names (example_conf [''foo''] True)) \<inter> set (probe_names ?cfg) \<noteq> {}"
    "\<not> set (probe_names ?cfg) \<subseteq> set (probe_names (example_conf [''foo''] True))" by (simp_all add: config_simps)
  have "set (get_probe_namespaces dict_store (namespaces example_loaded)) = set (probe_names (example_conf [''foo''] True))"
    using example_loaded_ok by (simp add: loaded_config_def)
  with names ds.added_probe_step [where ord = "\<lambda>x. x" and yaml_load = "load_file (yaml ?E) 10" and f = "''c.yml''" and
      s = example_loaded, OF example_env_load cfg set_order_id]
  obtain c where c: "parse_config self_restart dict_store (\<lambda>x. x) (load_file (yaml ?E) 10) ''c.yml'' True example_loaded
      = (Inr [''c.yml''], c)" by auto
  have "config_store (staticconf ?E) map_of" "load_file (yaml ?E) (stack_depth ?E) ''c.yml'' = Inr (PDict ?cfg, [])"
    "set_order (set_iteration ?E)" "config example_watch_args = Some ''c.yml''" "watch_config example_watch_args"
    "loaded_config (staticconf ?E) (example_conf [''foo''] True) [''c.yml''] (conf (example_program example_loaded))"
    "parse_config self_restart (staticconf ?E) (set_iteration ?E) (load_file (yaml ?E) (stack_depth ?E)) ''c.yml'' True
       (conf (example_program example_loaded)) = (Inr [''c.yml''], c)"
    using ds.config_store_axioms example_loaded_ok example_env_load [of ?cfg] c
    by (simp_all add: example_watch_args_def example_program_def)
  from added_probe_gives_up [OF this(1,2) cfg this(3) example_watch_argv this(4-6) names this(7),
      of 1 "\<lambda>_. True" "\<lambda>_. []"] c
  show ?thesis by (auto simp: example_program_def)
qed

text \<open>
  Property C8. A change that asks for a restart and adds no probe to the ones that stay is taken
  over by the next run: its setup loads the new configuration without asking for another restart,
  and it starts one worker for every probe of the new file, each built with its new settings. The
  output opens and the probes of the new file construct; a run where they do not ends instead.
\<close>

theorem restart_runs_new_config:
  assumes "config_store (staticconf E) view" and "load_file (yaml E) (stack_depth E) f = Inr (PDict cfg, inc)"
    and "dict_config cfg" and "set_order (set_iteration E)"
    and "loaded_config (staticconf E) old files (conf s)" and "files \<noteq> []" and "probe_names old \<noteq> []"
    and "set (probe_names cfg) \<subseteq> set (probe_names old) \<or> set (probe_names cfg) \<inter> set (probe_names old) = {}"
    and "parse_config self_restart (staticconf E) (set_iteration E) (load_file (yaml E) (stack_depth E)) f True (conf s) = (r, c)"
    and "sighups c \<noteq> sighups (conf s)"
    and "config args = Some f" and "watch_config args" and "\<not> print_and_quit args" and "\<And>p m. open_file E p m = Inr ()"
    and "\<forall>c'. loaded_config (staticconf E) cfg (all_files f inc) c' \<longrightarrow> (\<exists>probes. main_probes args E c' = Inr probes)"
  shows "\<exists>s' probes. main args E [] (s\<lparr>conf := c\<rparr>) = (None, s') \<and> sighups (conf s') = sighups c \<and>
    probe_workers s' = map (\<lambda>_. True) probes \<and> distinct (map fst probes) \<and> set (map fst probes) = set (probe_names cfg) \<and>
    (\<forall>(k, p) \<in> set probes. \<exists>q. builds (import_probe E (extra_plugin_path args)) (extra_probe_path args)
       (lost_event_telemetry_arg args) k (probe_dict cfg k) (Some q) p)"
proof -
  from config_store.settles [where ord = "set_iteration E" and yaml_load = "load_file (yaml E) (stack_depth E)" and f = f,
      OF assms(1-8)] assms(9,10)
  obtain c2 where c2: "parse_config self_restart_main (staticconf E) (set_iteration E) (load_file (yaml E) (stack_depth E)) f
      True c = (Inr (all_files f inc), c2)" "sighups c2 = sighups c" "loaded_config (staticconf E) cfg (all_files f inc) c2"
    by auto
  obtain probes where probes: "main_probes args E c2 = Inr probes" using assms(15) c2(3) by blast
  have "parse_config self_restart_main (staticconf E) (set_iteration E) (load_file (yaml E) (stack_depth E)) f
      (watch_config args) (conf (s\<lparr>conf := c\<rparr>)) = (Inr (all_files f inc), c2)" using c2(1) assms(12) by simp
  from main_starts [OF assms(11,13) this assms(14) probes]
  obtain s' where "main args E [] (s\<lparr>conf := c\<rparr>) = (None, s')" "conf s' = c2" "probe_workers s' = map (\<lambda>_. True) probes"
    by blast
  with c2(2) load_probes_follow [OF assms(1,3) c2(3) probes [unfolded main_probes_def]] show ?thesis
    by (intro exI [of _ s'] exI [of _ probes]) fastforce
qed

theorem restart_runs_new_config_witness:
  "\<exists>c s'. parse_config self_restart dict_store (\<lambda>x. x) (load_file (yaml (example_env (example_conf [''foo''] False))) 10)
      ''c.yml'' True example_loaded = (Inr [''c.yml''], c) \<and>
    main example_watch_args (example_env (example_conf [''foo''] False)) [] (example_program c) = (None, s') \<and>
    probe_workers s' \<noteq> []"
proof -
  let ?cfg = "example_conf [''foo''] False" and ?old = "example_conf [''foo''] True"
  let ?E = "example_env ?cfg" and ?yl = "load_file (yaml (example_env (example_conf [''foo''] False))) 10"
  have files: "loaded_config dict_store ?old (all_files ''c.yml'' []) example_loaded" using example_loaded_ok by simp
  have "set (probe_names ?cfg) = set (probe_names ?old)"
    "\<exists>k \<in> set (probe_names ?cfg). restart_change (probe_dict ?cfg k) (probe_dict ?old k)"
    by (simp_all add: config_simps restart_change_def differs_def cold_def HOT_SWAPPABLE_SETTINGS_def py_number_def)
  from ds.cold_change_ready [where ord = "\<lambda>x. x" and yaml_load = ?yl and f = "''c.yml''",
      OF example_env_load example_conf_ok set_order_id files this]
  obtain c where c: "parse_config self_restart dict_store (\<lambda>x. x) ?yl ''c.yml'' True example_loaded = (Inr [''c.yml''], c)"
    "sighups c \<noteq> sighups example_loaded" by auto
  have E: "config_store (staticconf ?E) map_of" "load_file (yaml ?E) (stack_depth ?E) ''c.yml'' = Inr (PDict ?cfg, [])"
    "set_order (set_iteration ?E)"
    "loaded_config (staticconf ?E) ?old [''c.yml''] (conf (example_program example_loaded))" "probe_names ?old \<noteq> []"
    "set (probe_names ?cfg) \<subseteq> set (probe_names ?old) \<or> set (probe_names ?cfg) \<inter> set (probe_names ?old) = {}"
    "parse_config self_restart (staticconf ?E) (set_iteration ?E) (load_file (yaml ?E) (stack_depth ?E)) ''c.yml'' True
       (conf (example_program example_loaded)) = (Inr [''c.yml''], c)"
    "sighups c \<noteq> sighups (conf (example_program example_loaded))"
    "config example_watch_args = Some ''c.yml''" "watch_config example_watch_args" "\<not> print_and_quit example_watch_args"
    using ds.config_store_axioms example_loaded_ok example_env_load [of ?cfg] c
    by (simp_all add: example_watch_args_def example_program_def default_arguments_def config_simps)
  have "\<forall>c'. loaded_config (staticconf ?E) ?cfg (all_files ''c.yml'' []) c' \<longrightarrow>
      (\<exists>probes. main_probes example_watch_args ?E c' = Inr probes)"
    by (intro allI impI example_env_probes) (simp add: loaded_config_def config_simps)
  from restart_runs_new_config [OF E(1,2) example_conf_ok E(3,4) list.distinct(2) E(5-11) example_env_simps(3) this]
  obtain s' and probes :: "(string \<times> string option \<times> sidecar list \<times> string) list" where
    "main example_watch_args ?E [] ((example_program example_loaded)\<lparr>conf := c\<rparr>) = (None, s')"
    "probe_workers s' = map (\<lambda>_. True) probes" "set (map fst probes) = set (probe_names ?cfg)" by blast
  moreover have "set (probe_names ?cfg) \<noteq> {}" by (simp add: config_simps)
  then have "probes \<noteq> []" using calculation(3) by force
  moreover have "(example_program example_loaded)\<lparr>conf := c\<rparr> = example_program c" by (simp add: example_program_def)
  ultimately show ?thesis using c(1) by (intro exI [of _ c] exI [of _ s']) simp
qed

end
